(* ===== verification/Prelude.thy ===== *)
theory Prelude
  imports
    Main
    "HOL-Library.State_Monad"
    "HOL-Library.AList"
    "HOL-Library.Multiset"
    "HOL-Library.Char_ord"
    "HOL-Library.List_Lexorder"
    "HOL-Library.Product_Lexorder"
begin

text \<open>
  What every component shares: the collections of facts the proofs are driven by, lemmas on
  lists kept without repeats and on sorting by a key, the record of calls a reconcile makes to
  the outside, and rules that tell from the shape of a program which calls it can make.

  A program with effects is a value of the library's state monad. Its state extends the record
  \<open>world\<close>, whose only field is the history: every call to something outside the
  repository, with the answer it was given, in order. What is outside answers from the history
  so far, so the same read made twice may be answered differently, as the real one may.
\<close>

named_theorems emits_rules
  \<open>rules that compute, from the shape of a program, which calls it can make\<close>

named_theorems wp_rules
  \<open>rules for pre- and postconditions of programs\<close>

named_theorems yields_rules
  \<open>rules that compute what a program can return\<close>

section \<open>Lists without repeats\<close>

text \<open>The idiom \<open>if !slices.Contains(xs, x) { xs = append(xs, x) }\<close>.\<close>

definition append_new :: "'a \<Rightarrow> 'a list \<Rightarrow> 'a list" where
  "append_new x xs = (if x \<in> set xs then xs else xs @ [x])"

lemma set_append_new [simp]: "set (append_new x xs) = insert x (set xs)"
  by (auto simp: append_new_def)

lemma distinct_append_new [simp]: "distinct (append_new x xs) = distinct xs"
  by (auto simp: append_new_def)

text \<open>A loop over \<open>xs\<close> that keeps first appearances, starting from \<open>acc\<close>.\<close>

fun dedup_onto :: "'a list \<Rightarrow> 'a list \<Rightarrow> 'a list" where
  "dedup_onto acc [] = acc"
| "dedup_onto acc (x # xs) = dedup_onto (append_new x acc) xs"

lemma set_dedup_onto [simp]: "set (dedup_onto acc xs) = set acc \<union> set xs"
  by (induction xs arbitrary: acc) auto

lemma distinct_dedup_onto [simp]: "distinct (dedup_onto acc xs) = distinct acc"
  by (induction xs arbitrary: acc) auto

lemma dedup_onto_append: "dedup_onto acc (xs @ ys) = dedup_onto (dedup_onto acc xs) ys"
  by (induction xs arbitrary: acc) auto

lemma dedup_onto_distinct:
  "distinct xs \<Longrightarrow> set acc \<inter> set xs = {} \<Longrightarrow> dedup_onto acc xs = acc @ xs"
  by (induction xs arbitrary: acc) (auto simp: append_new_def)

lemma find_append: "find P (xs @ ys) = (case find P xs of None \<Rightarrow> find P ys | Some x \<Rightarrow> Some x)"
  by (induction xs) auto

lemma find_SomeD: "find P xs = Some x \<Longrightarrow> x \<in> set xs \<and> P x"
  by (auto simp: find_Some_iff)

lemma in_set_map_filter: "y \<in> set (List.map_filter f xs) \<longleftrightarrow> (\<exists>x \<in> set xs. f x = Some y)"
  by (force simp: map_filter_def)

section \<open>Sorting by a key\<close>

text \<open>
  The code sorts with \<open>sort.Slice\<close> and \<open>slices.SortFunc\<close>, which return some sorted
  permutation. With keys that do not repeat there is only one, the one \<open>sort_key\<close> gives.
\<close>

lemma sort_key_unique:
  assumes "mset ys = mset xs" and "sorted (map f ys)" and "inj_on f (set xs)"
  shows "sort_key f xs = ys"
  by (metis assms sort_key_inj_key_eq)

section \<open>The first greatest element\<close>

text \<open>
  A loop that keeps a candidate and replaces it by a strictly greater one ends with the first
  element of the greatest score.
\<close>

definition first_greatest :: "('a \<Rightarrow> 'k::linorder) \<Rightarrow> 'a list \<Rightarrow> 'a \<Rightarrow> bool" where
  "first_greatest f xs x \<longleftrightarrow>
     (\<exists>pre post. xs = pre @ x # post \<and> (\<forall>y \<in> set pre. f y < f x) \<and> (\<forall>y \<in> set post. f y \<le> f x))"

lemma first_greatest_singleton [simp]: "first_greatest f [x] y \<longleftrightarrow> y = x"
  unfolding first_greatest_def by (cases "y = x") (auto simp: Cons_eq_append_conv)

lemma first_greatest_ge: "first_greatest f xs x \<Longrightarrow> y \<in> set xs \<Longrightarrow> f y \<le> f x"
  by (fastforce simp: first_greatest_def)

lemma first_greatest_snoc:
  assumes "first_greatest f xs x"
  shows "first_greatest f (xs @ [y]) (if f x < f y then y else x)"
proof (cases "f x < f y")
  case True
  from assms have "\<forall>z \<in> set xs. f z < f y"
    using True by (blast intro: le_less_trans first_greatest_ge)
  then show ?thesis using True unfolding first_greatest_def
    by (intro exI [of _ xs] exI [of _ "[]"]) auto
next
  case False
  from assms obtain pre post where "xs = pre @ x # post"
    and "\<forall>z \<in> set pre. f z < f x" "\<forall>z \<in> set post. f z \<le> f x"
    by (auto simp: first_greatest_def)
  then show ?thesis using False unfolding first_greatest_def
    by (intro exI [of _ pre] exI [of _ "post @ [y]"]) auto
qed

lemma first_greatest_in: "first_greatest f xs x \<Longrightarrow> x \<in> set xs"
  by (auto simp: first_greatest_def)

section \<open>Programs and the calls they make\<close>

record 'c world =
  history :: "'c list"

text \<open>
  A call to the outside: the answer is a function of the history, and the call is recorded with
  its answer.
\<close>

definition ask :: "('r \<Rightarrow> 'c) \<Rightarrow> ('c list \<Rightarrow> 'r) \<Rightarrow> (('c, 'w) world_scheme, 'r) state" where
  "ask record answer = State (\<lambda>s. let r = answer (history s)
     in (r, s\<lparr>history := history s @ [record r]\<rparr>))"

text \<open>A call nobody waits for an answer of: an Event, a log line.\<close>

definition tell :: "'c \<Rightarrow> (('c, 'w) world_scheme, unit) state" where
  "tell c = ask (\<lambda>_. c) (\<lambda>_. ())"

text \<open>Reads and writes of the rest of the state, which record nothing.\<close>

definition gets :: "('s \<Rightarrow> 'a) \<Rightarrow> ('s, 'a) state" where
  "gets f = State (\<lambda>s. (f s, s))"

definition modify :: "('s \<Rightarrow> 's) \<Rightarrow> ('s, unit) state" where
  "modify f = State (\<lambda>s. ((), f s))"

lemma run_ask [simp]:
  "run_state (ask record answer) s =
     (answer (history s), s\<lparr>history := history s @ [record (answer (history s))]\<rparr>)"
  by (simp add: ask_def Let_def)

lemma run_tell [simp]: "run_state (tell c) s = ((), s\<lparr>history := history s @ [c]\<rparr>)"
  by (simp add: tell_def)

lemma run_gets [simp]: "run_state (gets f) s = (f s, s)"
  by (simp add: gets_def)

lemma run_modify [simp]: "run_state (modify f) s = ((), f s)"
  by (simp add: modify_def)

abbreviation ret :: "'a \<Rightarrow> ('s, 'a) state" where
  "ret \<equiv> State_Monad.return"

text \<open>A \<open>for\<close> loop over a slice: the body takes the variables the loop changes and returns them.\<close>

fun loop :: "('x \<Rightarrow> 'a \<Rightarrow> ('s, 'a) state) \<Rightarrow> 'x list \<Rightarrow> 'a \<Rightarrow> ('s, 'a) state" where
  "loop body [] a = ret a"
| "loop body (x # xs) a = do { a' \<leftarrow> body x a; loop body xs a' }"

lemma run_loop_append:
  "run_state (loop body (xs @ ys) a) s = (case run_state (loop body xs a) s of (b, s') \<Rightarrow> run_state (loop body ys b) s')"
  by (induction xs arbitrary: a s) (auto split: prod.split)

section \<open>The calls a program can make\<close>

definition new_calls :: "(('c, 'w) world_scheme, 'a) state \<Rightarrow> ('c, 'w) world_scheme \<Rightarrow> 'c list" where
  "new_calls m s = drop (length (history s)) (history (snd (run_state m s)))"

definition emits :: "('c \<Rightarrow> bool) \<Rightarrow> (('c, 'w) world_scheme, 'a) state \<Rightarrow> bool" where
  "emits P m \<longleftrightarrow> (\<forall>s. \<exists>cs. history (snd (run_state m s)) = history s @ cs \<and> list_all P cs)"

lemma emitsI:
  "(\<And>s. \<exists>cs. history (snd (run_state m s)) = history s @ cs \<and> list_all P cs) \<Longrightarrow> emits P m"
  by (simp add: emits_def)

lemma emits_new_calls: "emits P m \<Longrightarrow> list_all P (new_calls m s)"
  unfolding emits_def new_calls_def by (metis append_eq_conv_conj)

lemma emits_mono: "emits P m \<Longrightarrow> (\<And>c. P c \<Longrightarrow> Q c) \<Longrightarrow> emits Q m"
  unfolding emits_def by (meson list.pred_mono_strong)

lemma emits_any: "emits P m \<Longrightarrow> emits (\<lambda>_. True) m"
  by (rule emits_mono) auto

lemma emits_return [emits_rules]: "emits P (ret x)"
  by (simp add: emits_def)

text \<open>A sequence, with what is known of the value the first program returns, and without.\<close>

lemma emits_bind_run:
  assumes "emits P m" and "\<And>a s s'. run_state m s = (a, s') \<Longrightarrow> emits P (f a)"
  shows "emits P (State_Monad.bind m f)"
proof (rule emitsI)
  fix s :: "('a, 'b) world_scheme"
  obtain a s1 where m: "run_state m s = (a, s1)" by fastforce
  obtain cs where cs: "history s1 = history s @ cs" "list_all P cs"
    using assms(1) m unfolding emits_def by (metis snd_conv)
  obtain ds where "history (snd (run_state (f a) s1)) = history s1 @ ds" "list_all P ds"
    using assms(2) [OF m] unfolding emits_def by blast
  with m cs show "\<exists>cs. history (snd (run_state (State_Monad.bind m f) s)) = history s @ cs \<and> list_all P cs"
    by (intro exI [of _ "cs @ ds"]) simp
qed

lemma emits_bind [emits_rules]:
  "emits P m \<Longrightarrow> (\<And>a. emits P (f a)) \<Longrightarrow> emits P (State_Monad.bind m f)"
  by (rule emits_bind_run)

lemma emits_ask [emits_rules]: "(\<And>r. P (record r)) \<Longrightarrow> emits P (ask record answer)"
  by (rule emitsI) simp

lemma emits_tell [emits_rules]: "P c \<Longrightarrow> emits P (tell c)"
  by (rule emitsI) simp

lemma emits_gets [emits_rules]: "emits P (gets f)"
  by (rule emitsI) simp

lemma emits_modify [emits_rules]: "(\<And>s. history (f s) = history s) \<Longrightarrow> emits P (modify f)"
  by (rule emitsI) simp

lemma emits_if [emits_rules]:
  "(b \<Longrightarrow> emits P m) \<Longrightarrow> (\<not> b \<Longrightarrow> emits P n) \<Longrightarrow> emits P (if b then m else n)"
  by simp

lemma emits_case_option [emits_rules]:
  "(x = None \<Longrightarrow> emits P m) \<Longrightarrow> (\<And>y. x = Some y \<Longrightarrow> emits P (f y)) \<Longrightarrow>
   emits P (case x of None \<Rightarrow> m | Some y \<Rightarrow> f y)"
  by (cases x) auto

lemma emits_case_sum [emits_rules]:
  "(\<And>e. x = Inl e \<Longrightarrow> emits P (f e)) \<Longrightarrow> (\<And>y. x = Inr y \<Longrightarrow> emits P (g y)) \<Longrightarrow>
   emits P (case x of Inl e \<Rightarrow> f e | Inr y \<Rightarrow> g y)"
  by (cases x) auto

lemma emits_case_prod [emits_rules]:
  "(\<And>a b. x = (a, b) \<Longrightarrow> emits P (f a b)) \<Longrightarrow> emits P (case x of (a, b) \<Rightarrow> f a b)"
  by (cases x) auto

lemma emits_case_bool [emits_rules]:
  "(b \<Longrightarrow> emits P m) \<Longrightarrow> (\<not> b \<Longrightarrow> emits P n) \<Longrightarrow> emits P (case b of True \<Rightarrow> m | False \<Rightarrow> n)"
  by (cases b) auto

lemma emits_let [emits_rules]: "(\<And>y. y = x \<Longrightarrow> emits P (f y)) \<Longrightarrow> emits P (let y = x in f y)"
  by simp

lemma emits_loop [emits_rules]:
  "(\<And>x a. x \<in> set xs \<Longrightarrow> emits P (body x a)) \<Longrightarrow> emits P (loop body xs a)"
  by (induction xs arbitrary: a) (auto intro!: emits_rules)

section \<open>Pre- and postconditions\<close>

definition holds :: "('s \<Rightarrow> bool) \<Rightarrow> ('s, 'a) state \<Rightarrow> ('a \<Rightarrow> 's \<Rightarrow> bool) \<Rightarrow> bool" where
  "holds P m Q \<longleftrightarrow> (\<forall>s. P s \<longrightarrow> (case run_state m s of (a, s') \<Rightarrow> Q a s'))"

lemma holdsD: "holds P m Q \<Longrightarrow> P s \<Longrightarrow> run_state m s = (a, s') \<Longrightarrow> Q a s'"
  by (auto simp: holds_def)

lemma holds_conseq:
  "holds P' m Q' \<Longrightarrow> (\<And>s. P s \<Longrightarrow> P' s) \<Longrightarrow> (\<And>a s. Q' a s \<Longrightarrow> Q a s) \<Longrightarrow> holds P m Q"
  unfolding holds_def by (fastforce split: prod.splits)

lemma holds_return [wp_rules]: "(\<And>s. P s \<Longrightarrow> Q x s) \<Longrightarrow> holds P (ret x) Q"
  by (simp add: holds_def)

lemma holds_bind:
  "holds P m R \<Longrightarrow> (\<And>a. holds (R a) (f a) Q) \<Longrightarrow> holds P (State_Monad.bind m f) Q"
  unfolding holds_def by (fastforce split: prod.splits)

lemma holds_loop:
  assumes "\<And>x a. x \<in> set xs \<Longrightarrow> holds (I a) (body x a) I"
  shows "holds (I a) (loop body xs a) I"
  using assms
proof (induction xs arbitrary: a)
  case Nil
  then show ?case by (simp add: holds_def)
next
  case (Cons x xs)
  then show ?case by (auto intro!: holds_bind [where R = I])
qed

section \<open>Results\<close>

text \<open>Every value a program can return satisfies \<open>Q\<close>.\<close>

definition yields :: "('a \<Rightarrow> bool) \<Rightarrow> ('s, 'a) state \<Rightarrow> bool" where
  "yields Q m \<longleftrightarrow> (\<forall>s. Q (fst (run_state m s)))"

lemma yieldsD: "yields Q m \<Longrightarrow> run_state m s = (a, s') \<Longrightarrow> Q a"
  unfolding yields_def by (metis fst_conv)

lemma yieldsI: "(\<And>s a s'. run_state m s = (a, s') \<Longrightarrow> Q a) \<Longrightarrow> yields Q m"
  unfolding yields_def by (metis prod.collapse)

lemma yields_mono: "yields Q m \<Longrightarrow> (\<And>a. Q a \<Longrightarrow> R a) \<Longrightarrow> yields R m"
  by (simp add: yields_def)

lemma yields_return [yields_rules]: "Q x \<Longrightarrow> yields Q (ret x)"
  by (simp add: yields_def)

lemma yields_bind_run:
  "(\<And>a s s'. run_state m s = (a, s') \<Longrightarrow> yields Q (f a)) \<Longrightarrow> yields Q (State_Monad.bind m f)"
  by (fastforce simp: yields_def split: prod.splits)

lemma yields_bind [yields_rules]: "(\<And>a. yields Q (f a)) \<Longrightarrow> yields Q (State_Monad.bind m f)"
  by (rule yields_bind_run)

lemma yields_if [yields_rules]:
  "(b \<Longrightarrow> yields Q m) \<Longrightarrow> (\<not> b \<Longrightarrow> yields Q n) \<Longrightarrow> yields Q (if b then m else n)"
  by simp

lemma yields_case_option [yields_rules]:
  "(x = None \<Longrightarrow> yields Q m) \<Longrightarrow> (\<And>y. x = Some y \<Longrightarrow> yields Q (f y)) \<Longrightarrow>
   yields Q (case x of None \<Rightarrow> m | Some y \<Rightarrow> f y)"
  by (cases x) auto

lemma yields_case_sum [yields_rules]:
  "(\<And>e. x = Inl e \<Longrightarrow> yields Q (f e)) \<Longrightarrow> (\<And>y. x = Inr y \<Longrightarrow> yields Q (g y)) \<Longrightarrow>
   yields Q (case x of Inl e \<Rightarrow> f e | Inr y \<Rightarrow> g y)"
  by (cases x) auto

lemma yields_case_prod [yields_rules]:
  "(\<And>a b. x = (a, b) \<Longrightarrow> yields Q (f a b)) \<Longrightarrow> yields Q (case x of (a, b) \<Rightarrow> f a b)"
  by (cases x) auto

lemma yields_case_bool [yields_rules]:
  "(b \<Longrightarrow> yields Q m) \<Longrightarrow> (\<not> b \<Longrightarrow> yields Q n) \<Longrightarrow> yields Q (case b of True \<Rightarrow> m | False \<Rightarrow> n)"
  by (cases b) auto

lemma yields_let [yields_rules]: "(\<And>y. y = x \<Longrightarrow> yields Q (f y)) \<Longrightarrow> yields Q (let y = x in f y)"
  by simp

lemma yields_loop:
  "(\<And>x a. x \<in> set xs \<Longrightarrow> B a \<Longrightarrow> yields B (body x a)) \<Longrightarrow> B a \<Longrightarrow> yields B (loop body xs a)"
  by (induction xs arbitrary: a) (auto intro!: yields_rules yields_bind_run dest: yieldsD)

section \<open>Calls and results together\<close>

text \<open>Whenever the value returned satisfies \<open>R\<close>, all the calls made on the way satisfy \<open>P\<close>.\<close>

definition emits_when :: "('a \<Rightarrow> bool) \<Rightarrow> ('c \<Rightarrow> bool) \<Rightarrow> (('c, 'w) world_scheme, 'a) state \<Rightarrow> bool" where
  "emits_when R P m \<longleftrightarrow> (\<forall>s a s'. run_state m s = (a, s') \<longrightarrow> R a \<longrightarrow>
     (\<exists>cs. history s' = history s @ cs \<and> list_all P cs))"

lemma emits_whenD:
  "emits_when R P m \<Longrightarrow> run_state m s = (a, s') \<Longrightarrow> R a \<Longrightarrow> \<exists>cs. history s' = history s @ cs \<and> list_all P cs"
  by (simp add: emits_when_def)

lemma emits_when_emits: "emits P m \<Longrightarrow> emits_when R P m"
  unfolding emits_when_def emits_def by (metis snd_conv)

lemma emits_when_yields: "yields (\<lambda>a. \<not> R a) m \<Longrightarrow> emits_when R P m"
  unfolding emits_when_def by (auto dest: yieldsD)

lemma emits_when_bind_run:
  assumes "\<And>a s s'. run_state m s = (a, s') \<Longrightarrow>
      ((\<exists>cs. history s' = history s @ cs \<and> list_all P cs) \<and> emits_when R P (f a)) \<or> yields (\<lambda>b. \<not> R b) (f a)"
  shows "emits_when R P (State_Monad.bind m f)"
  unfolding emits_when_def
proof (intro allI impI)
  fix s b s'
  assume run: "run_state (State_Monad.bind m f) s = (b, s')" and "R b"
  obtain a s1 where m: "run_state m s = (a, s1)" by fastforce
  with run have f: "run_state (f a) s1 = (b, s')" by simp
  from assms [OF m] show "\<exists>cs. history s' = history s @ cs \<and> list_all P cs"
  proof
    assume "(\<exists>cs. history s1 = history s @ cs \<and> list_all P cs) \<and> emits_when R P (f a)"
    then obtain cs ds where "history s1 = history s @ cs" "list_all P cs" "history s' = history s1 @ ds" "list_all P ds"
      using emits_whenD [of R P "f a", OF _ f] \<open>R b\<close> by blast
    then show ?thesis by (intro exI [of _ "cs @ ds"]) simp
  qed (use yieldsD [of "\<lambda>b. \<not> R b" "f a", OF _ f] \<open>R b\<close> in blast)
qed

lemma emits_when_bind [emits_rules]:
  assumes "emits P m" and "\<And>a. emits_when R P (f a)"
  shows "emits_when R P (State_Monad.bind m f)"
  by (rule emits_when_bind_run) (metis assms emits_def snd_conv)

lemma emits_when_return [emits_rules]: "emits_when R P (ret x)"
  by (rule emits_when_emits) (rule emits_return)

lemma emits_when_if [emits_rules]:
  "(b \<Longrightarrow> emits_when R P m) \<Longrightarrow> (\<not> b \<Longrightarrow> emits_when R P n) \<Longrightarrow> emits_when R P (if b then m else n)"
  by simp

lemma emits_when_case_option [emits_rules]:
  "(x = None \<Longrightarrow> emits_when R P m) \<Longrightarrow> (\<And>y. x = Some y \<Longrightarrow> emits_when R P (f y)) \<Longrightarrow>
   emits_when R P (case x of None \<Rightarrow> m | Some y \<Rightarrow> f y)"
  by (cases x) auto

lemma emits_when_case_sum [emits_rules]:
  "(\<And>e. x = Inl e \<Longrightarrow> emits_when R P (f e)) \<Longrightarrow> (\<And>y. x = Inr y \<Longrightarrow> emits_when R P (g y)) \<Longrightarrow>
   emits_when R P (case x of Inl e \<Rightarrow> f e | Inr y \<Rightarrow> g y)"
  by (cases x) auto

lemma emits_when_case_prod [emits_rules]:
  "(\<And>a b. x = (a, b) \<Longrightarrow> emits_when R P (f a b)) \<Longrightarrow> emits_when R P (case x of (a, b) \<Rightarrow> f a b)"
  by (cases x) auto

lemma emits_when_bind_last:
  assumes "emits_when S P m" and "\<And>a. emits P (f a)" and "\<And>a. yields (\<lambda>b. R b \<longrightarrow> S a) (f a)"
  shows "emits_when R P (State_Monad.bind m f)"
proof (rule emits_when_bind_run)
  fix a s s' assume m: "run_state m s = (a, s')"
  show "((\<exists>cs. history s' = history s @ cs \<and> list_all P cs) \<and> emits_when R P (f a)) \<or> yields (\<lambda>b. \<not> R b) (f a)"
  proof (cases "S a")
    case True
    then show ?thesis using emits_whenD [OF assms(1) m] assms(2) by (blast intro: emits_when_emits)
  next
    case False
    then show ?thesis using yields_mono [OF assms(3) [of a], of "\<lambda>b. \<not> R b"] by blast
  qed
qed

lemma emits_when_bind_ret:
  "(R x \<Longrightarrow> emits P m) \<Longrightarrow> emits_when R P (State_Monad.bind m (\<lambda>_. ret x))"
proof (cases "R x")
  case True
  assume "R x \<Longrightarrow> emits P m"
  with True show ?thesis by (intro emits_when_emits emits_rules) auto
next
  case False
  then show ?thesis by (intro emits_when_yields yields_rules) auto
qed

section \<open>Results and the calls made on the way\<close>

text \<open>Whatever the program starts from, the value it returns and the calls it adds to the history are related by
  \<open>Q\<close>. The rules compute backwards: what has to hold at the end becomes what has to hold of each step.\<close>

named_theorems does_rules
  \<open>rules that relate what a program returns to the calls it made\<close>

definition does :: "(('c, 'w) world_scheme, 'a) state \<Rightarrow> ('a \<Rightarrow> 'c list \<Rightarrow> bool) \<Rightarrow> bool" where
  "does m Q \<longleftrightarrow> (\<forall>s. \<exists>cs. history (snd (run_state m s)) = history s @ cs \<and> Q (fst (run_state m s)) cs)"

lemma doesI: "(\<And>s a s'. run_state m s = (a, s') \<Longrightarrow> \<exists>cs. history s' = history s @ cs \<and> Q a cs) \<Longrightarrow> does m Q"
  unfolding does_def by (metis prod.collapse)

lemma doesD: "does m Q \<Longrightarrow> run_state m s = (a, s') \<Longrightarrow> \<exists>cs. history s' = history s @ cs \<and> Q a cs"
  unfolding does_def by (metis fst_conv snd_conv)

lemma does_new_calls: "does m Q \<Longrightarrow> Q (fst (run_state m s)) (new_calls m s)"
  unfolding does_def new_calls_def by (metis append_eq_conv_conj)

lemma does_mono: "does m R \<Longrightarrow> (\<And>a cs. R a cs \<Longrightarrow> Q a cs) \<Longrightarrow> does m Q"
  unfolding does_def by blast

lemma does_conj: "does m Q \<Longrightarrow> does m R \<Longrightarrow> does m (\<lambda>a cs. Q a cs \<and> R a cs)"
  unfolding does_def by (metis same_append_eq)

lemma does_emits: "emits P m \<Longrightarrow> does m (\<lambda>_ cs. list_all P cs)"
  unfolding does_def emits_def by blast

lemma emits_does: "does m (\<lambda>_ cs. list_all P cs) \<Longrightarrow> emits P m"
  unfolding does_def emits_def by blast

lemma yields_does: "does m (\<lambda>a _. Q a) \<Longrightarrow> yields Q m"
  unfolding does_def yields_def by blast

lemma does_return [does_rules]: "Q x [] \<Longrightarrow> does (ret x) Q"
  by (simp add: does_def)

lemma does_bind [does_rules]:
  assumes "does m (\<lambda>a cs. does (f a) (\<lambda>b ds. Q b (cs @ ds)))"
  shows "does (State_Monad.bind m f) Q"
proof (rule doesI)
  fix s b s' assume run: "run_state (State_Monad.bind m f) s = (b, s')"
  obtain a s1 where m: "run_state m s = (a, s1)" by fastforce
  obtain cs where cs: "history s1 = history s @ cs" "does (f a) (\<lambda>b ds. Q b (cs @ ds))"
    using doesD [OF assms m] by blast
  from run m have "run_state (f a) s1 = (b, s')" by simp
  with cs show "\<exists>cs. history s' = history s @ cs \<and> Q b cs" using doesD by fastforce
qed

lemma does_ask [does_rules]: "(\<And>r. Q r [record r]) \<Longrightarrow> does (ask record answer) Q"
  by (simp add: does_def)

text \<open>The answer is one of those given outside, which is needed where something is relied on of them.\<close>

lemma does_answer: "(\<And>h. Q (answer h) [record (answer h)]) \<Longrightarrow> does (ask record answer) Q"
  by (simp add: does_def)

lemma does_tell [does_rules]: "Q () [c] \<Longrightarrow> does (tell c) Q"
  by (simp add: does_def)

lemma does_if [does_rules]:
  "(b \<Longrightarrow> does m Q) \<Longrightarrow> (\<not> b \<Longrightarrow> does n Q) \<Longrightarrow> does (if b then m else n) Q"
  by simp

lemma does_case_option [does_rules]:
  "(x = None \<Longrightarrow> does m Q) \<Longrightarrow> (\<And>y. x = Some y \<Longrightarrow> does (f y) Q) \<Longrightarrow>
   does (case x of None \<Rightarrow> m | Some y \<Rightarrow> f y) Q"
  by (cases x) auto

lemma does_case_sum [does_rules]:
  "(\<And>e. x = Inl e \<Longrightarrow> does (f e) Q) \<Longrightarrow> (\<And>y. x = Inr y \<Longrightarrow> does (g y) Q) \<Longrightarrow>
   does (case x of Inl e \<Rightarrow> f e | Inr y \<Rightarrow> g y) Q"
  by (cases x) auto

lemma does_case_prod [does_rules]:
  "(\<And>a b. x = (a, b) \<Longrightarrow> does (f a b) Q) \<Longrightarrow> does (case x of (a, b) \<Rightarrow> f a b) Q"
  by (cases x) auto

text \<open>A loop, by what holds of the variables and the calls after each part of the list.\<close>

lemma does_loop:
  assumes "I [] a []"
    and "\<And>ys x a cs. x \<in> set xs \<Longrightarrow> I ys a cs \<Longrightarrow> does (body x a) (\<lambda>a' ds. I (ys @ [x]) a' (cs @ ds))"
  shows "does (loop body xs a) (I xs)"
proof -
  have "does (loop body zs a) (\<lambda>a' ds. I (ys @ zs) a' (cs @ ds))" if "set zs \<subseteq> set xs" "I ys a cs" for ys zs a cs
    using that
  proof (induction zs arbitrary: ys a cs)
    case Nil
    then show ?case by (simp add: does_return)
  next
    case (Cons z zs)
    have "does (body z a) (\<lambda>a' ds. I (ys @ [z]) a' (cs @ ds))" using Cons.prems by (intro assms(2)) auto
    then have "does (body z a) (\<lambda>a' ds. does (loop body zs a') (\<lambda>b es. I (ys @ z # zs) b (cs @ ds @ es)))"
    proof (rule does_mono)
      fix a' ds assume "I (ys @ [z]) a' (cs @ ds)"
      then have "does (loop body zs a') (\<lambda>b es. I ((ys @ [z]) @ zs) b ((cs @ ds) @ es))"
        using Cons.prems by (intro Cons.IH) auto
      then show "does (loop body zs a') (\<lambda>b es. I (ys @ z # zs) b (cs @ ds @ es))" by simp
    qed
    then show ?case by (simp add: does_bind)
  qed
  from this [of xs "[]" a "[]"] assms(1) show ?thesis by simp
qed

end
