(* ===== verification/GoStrings.thy ===== *)
theory GoStrings
  imports Prelude "HOL-Library.Sublist"
begin

text \<open>
  The functions of Go's \<open>strings\<close> package the program uses, on strings as Go has them:
  sequences of bytes, one \<open>char\<close> each. White space and case folding are those of Unicode,
  read from the UTF-8 bytes.
\<close>

section \<open>Splitting and joining\<close>

text \<open>\<open>strings.Split\<close> and \<open>strings.SplitSeq\<close> with a separator of one byte.\<close>

fun split_on :: "char \<Rightarrow> string \<Rightarrow> string list" where
  "split_on c [] = [[]]"
| "split_on c (x # xs) =
     (if x = c then [] # split_on c xs
      else (case split_on c xs of [] \<Rightarrow> [[x]] | p # ps \<Rightarrow> (x # p) # ps))"

text \<open>\<open>strings.Join\<close>.\<close>

fun join :: "string \<Rightarrow> string list \<Rightarrow> string" where
  "join sep [] = []"
| "join sep [p] = p"
| "join sep (p # q # ps) = p @ sep @ join sep (q # ps)"

lemma split_on_not_Nil [simp]: "split_on c s \<noteq> []"
  by (induction s) (auto split: list.splits)

lemma split_on_no_sep: "p \<in> set (split_on c s) \<Longrightarrow> c \<notin> set p"
  by (induction s arbitrary: p) (auto split: list.splits if_splits)

lemma split_on_id: "c \<notin> set s \<Longrightarrow> split_on c s = [s]"
  by (induction s) auto

lemma split_on_append: "c \<notin> set p \<Longrightarrow> split_on c (p @ c # s) = p # split_on c s"
  by (induction p) auto

lemma join_Cons: "ps \<noteq> [] \<Longrightarrow> join sep (p # ps) = p @ sep @ join sep ps"
  by (cases ps) auto

lemma join_split_on: "join [c] (split_on c s) = s"
proof (induction s)
  case Nil
  then show ?case by simp
next
  case (Cons x xs)
  obtain p ps where "split_on c xs = p # ps" by (meson list.exhaust split_on_not_Nil)
  with Cons show ?case by (cases ps) auto
qed

lemma split_on_join:
  "ps \<noteq> [] \<Longrightarrow> (\<And>p. p \<in> set ps \<Longrightarrow> c \<notin> set p) \<Longrightarrow> split_on c (join [c] ps) = ps"
  by (induction "[c]" ps rule: join.induct) (auto simp: split_on_id split_on_append)

text \<open>\<open>strings.Cut\<close> at a separator of one byte: before, after and whether it was found.\<close>

definition cut :: "char \<Rightarrow> string \<Rightarrow> string \<times> string \<times> bool" where
  "cut c s = (takeWhile (\<lambda>x. x \<noteq> c) s, drop 1 (dropWhile (\<lambda>x. x \<noteq> c) s), c \<in> set s)"

lemma cut_append: "c \<notin> set a \<Longrightarrow> cut c (a @ c # b) = (a, b, True)"
  by (auto simp: cut_def takeWhile_append dropWhile_append)

text \<open>\<open>strings.CutPrefix\<close> and \<open>strings.TrimSuffix\<close>.\<close>

definition cut_prefix :: "string \<Rightarrow> string \<Rightarrow> string option" where
  "cut_prefix s p = (if prefix p s then Some (drop (length p) s) else None)"

definition trim_suffix :: "string \<Rightarrow> string \<Rightarrow> string" where
  "trim_suffix s p = (if suffix p s then take (length s - length p) s else s)"

lemma cut_prefix_append [simp]: "cut_prefix (p @ s) p = Some s"
  by (simp add: cut_prefix_def)

lemma trim_suffix_append [simp]: "trim_suffix (s @ p) p = s"
  by (simp add: trim_suffix_def suffix_def)

text \<open>\<open>strings.Contains\<close>.\<close>

fun contains :: "string \<Rightarrow> string \<Rightarrow> bool" where
  "contains [] sub = (sub = [])"
| "contains (x # s) sub = (prefix sub (x # s) \<or> contains s sub)"

lemma contains_iff: "contains s sub \<longleftrightarrow> (\<exists>a b. s = a @ sub @ b)"
proof (induction s)
  case Nil
  then show ?case by auto
next
  case (Cons x s)
  have "(\<exists>a b. x # s = a @ sub @ b) \<longleftrightarrow> (\<exists>b. x # s = sub @ b) \<or> (\<exists>a b. s = a @ sub @ b)"
    by (metis append_Cons append_Nil list.sel(3) tl_append2)
  with Cons show ?case by (auto simp: prefix_def)
qed

section \<open>White space\<close>

text \<open>
  The UTF-8 encodings of the code points \<open>unicode.IsSpace\<close> holds for: tab, line feed,
  vertical tab, form feed, carriage return, space, U+0085, U+00A0, U+1680, U+2000 to U+200A,
  U+2028, U+2029, U+202F, U+205F and U+3000.
\<close>

definition bytes :: "nat list \<Rightarrow> string" where
  "bytes = map char_of"

definition space_runes :: "string list" where
  "space_runes = map bytes ([[9], [10], [11], [12], [13], [32], [0xC2, 0x85], [0xC2, 0xA0],
     [0xE1, 0x9A, 0x80]] @ map (\<lambda>b. [0xE2, 0x80, b]) [0x80 ..< 0x8B] @
     [[0xE2, 0x80, 0xA8], [0xE2, 0x80, 0xA9], [0xE2, 0x80, 0xAF], [0xE2, 0x81, 0x9F],
      [0xE3, 0x80, 0x80]])"

lemma space_runes_not_Nil: "w \<in> set space_runes \<Longrightarrow> w \<noteq> []"
  by (auto simp: space_runes_def bytes_def)

text \<open>\<open>strings.TrimSpace\<close>: white space is dropped from the left and from the right.\<close>

function trim_left :: "string \<Rightarrow> string" where
  "trim_left s = (case find (\<lambda>w. prefix w s) space_runes of
     None \<Rightarrow> s | Some w \<Rightarrow> trim_left (drop (length w) s))"
  by pat_completeness auto
termination
  by (relation "measure length")
    (auto simp: find_Some_iff prefix_def dest!: nth_mem [of _ space_runes] space_runes_not_Nil)

function trim_right :: "string \<Rightarrow> string" where
  "trim_right s = (case find (\<lambda>w. suffix w s) space_runes of
     None \<Rightarrow> s | Some w \<Rightarrow> trim_right (take (length s - length w) s))"
  by pat_completeness auto
termination
  by (relation "measure length")
    (auto simp: find_Some_iff suffix_def dest!: nth_mem [of _ space_runes] space_runes_not_Nil)

declare trim_left.simps [simp del] trim_right.simps [simp del]

definition trim_space :: "string \<Rightarrow> string" where
  "trim_space s = trim_right (trim_left s)"

lemma trim_left_keeps:
  "c \<in> set s \<Longrightarrow> \<forall>w \<in> set space_runes. c \<notin> set w \<Longrightarrow> c \<in> set (trim_left s)"
proof (induction s rule: trim_left.induct)
  case (1 s)
  show ?case
  proof (cases "find (\<lambda>w. prefix w s) space_runes")
    case None
    then show ?thesis using "1.prems" by (simp add: trim_left.simps [of s])
  next
    case (Some w)
    then have "prefix w s" "w \<in> set space_runes" by (auto dest: find_SomeD)
    then have "c \<in> set (drop (length w) s)" using "1.prems" by (auto simp: prefix_def)
    then show ?thesis using 1 Some by (simp add: trim_left.simps [of s])
  qed
qed

lemma trim_right_keeps:
  "c \<in> set s \<Longrightarrow> \<forall>w \<in> set space_runes. c \<notin> set w \<Longrightarrow> c \<in> set (trim_right s)"
proof (induction s rule: trim_right.induct)
  case (1 s)
  show ?case
  proof (cases "find (\<lambda>w. suffix w s) space_runes")
    case None
    then show ?thesis using "1.prems" by (simp add: trim_right.simps [of s])
  next
    case (Some w)
    then have "suffix w s" "w \<in> set space_runes" by (auto dest: find_SomeD)
    then have "c \<in> set (take (length s - length w) s)" using "1.prems" by (auto simp: suffix_def)
    then show ?thesis using 1 Some by (simp add: trim_right.simps [of s])
  qed
qed

lemma trim_space_not_Nil: "c \<in> set s \<Longrightarrow> \<forall>w \<in> set space_runes. c \<notin> set w \<Longrightarrow> trim_space s \<noteq> []"
  unfolding trim_space_def using trim_left_keeps trim_right_keeps by fastforce

text \<open>A string is clean when it neither starts nor ends in white space.\<close>

definition clean :: "string \<Rightarrow> bool" where
  "clean s \<longleftrightarrow> (\<forall>w \<in> set space_runes. \<not> prefix w s \<and> \<not> suffix w s)"

lemma trim_left_id: "(\<And>w. w \<in> set space_runes \<Longrightarrow> \<not> prefix w s) \<Longrightarrow> trim_left s = s"
  by (subst trim_left.simps) (auto simp: find_None_iff split: option.split dest: find_Some_iff [THEN iffD1])

lemma trim_space_clean [simp]: "clean s \<Longrightarrow> trim_space s = s"
proof -
  assume c: "clean s"
  have "trim_left s = s" using c by (intro trim_left_id) (auto simp: clean_def)
  moreover have "find (\<lambda>w. suffix w s) space_runes = None"
    using c by (auto simp: find_None_iff clean_def)
  ultimately show ?thesis unfolding trim_space_def by (simp add: trim_right.simps [of s])
qed

lemma clean_Nil [simp]: "clean []"
  by (auto simp: clean_def space_runes_not_Nil dest: space_runes_not_Nil)

text \<open>An ASCII byte that is not white space cannot be part of an encoding of it, so joining two
  clean strings by one keeps the result clean.\<close>

lemma clean_joined:
  assumes "clean a" and "clean b" and c: "\<forall>w \<in> set space_runes. c \<notin> set w"
  shows "clean (a @ c # b)"
  unfolding clean_def
proof (intro ballI conjI notI)
  fix w assume w: "w \<in> set space_runes"
  { assume "prefix w (a @ c # b)"
    then have "prefix w a \<or> (\<exists>zs. w = a @ zs \<and> prefix zs (c # b))"
      by (simp add: prefix_append)
    with w c have "prefix w a" by (auto simp: prefix_Cons)
    with w \<open>clean a\<close> show False by (auto simp: clean_def) }
  { assume "suffix w (a @ c # b)"
    then have "suffix w b \<or> (\<exists>zs. w = zs @ b \<and> suffix zs (a @ [c]))"
      using suffix_append [of w "a @ [c]" b] by auto
    with w c have "suffix w b" by (auto simp: suffix_snoc)
    with w \<open>clean b\<close> show False by (auto simp: clean_def) }
qed

lemma space_rune_bytes:
  "w \<in> set space_runes \<Longrightarrow> c \<in> set w \<Longrightarrow> (of_char c :: nat) \<in> {9 ..< 14} \<union> {32} \<union> {128 ..< 256}"
  by (auto simp: space_runes_def bytes_def)

lemma space_runes_no_punctuation:
  "\<forall>w \<in> set space_runes. CHR ''='' \<notin> set w" "\<forall>w \<in> set space_runes. CHR '','' \<notin> set w"
  "\<forall>w \<in> set space_runes. CHR '':'' \<notin> set w"
  using space_rune_bytes by fastforce+

lemma clean_printable:
  assumes "\<forall>c \<in> set s. 33 \<le> (of_char c :: nat) \<and> (of_char c :: nat) < 128"
  shows "clean s"
proof -
  have "\<not> prefix w s" "\<not> suffix w s" if w: "w \<in> set space_runes" for w
  proof -
    obtain c where c: "c \<in> set w" using space_runes_not_Nil [OF w] by (cases w) auto
    have "c \<notin> set s" using space_rune_bytes [OF w c] assms by fastforce
    with c show "\<not> prefix w s" "\<not> suffix w s"
      by (auto dest: set_mono_prefix set_mono_suffix)
  qed
  then show ?thesis by (auto simp: clean_def)
qed

section \<open>Case folding\<close>

text \<open>
  \<open>strings.EqualFold(s, t)\<close> for a \<open>t\<close> of ASCII letters. Letters match in either case; under
  Unicode's simple folding \<open>s\<close> also matches U+017F, the long s, and \<open>k\<close> matches U+212A, the
  Kelvin sign.
\<close>

definition lower :: "char \<Rightarrow> char" where
  "lower c = (if 65 \<le> (of_char c :: nat) \<and> (of_char c :: nat) \<le> 90 then char_of ((of_char c :: nat) + 32) else c)"

fun equal_fold :: "string \<Rightarrow> string \<Rightarrow> bool" where
  "equal_fold s [] = (s = [])"
| "equal_fold s (c # t) =
     ((case s of [] \<Rightarrow> False | x # s' \<Rightarrow> lower x = lower c \<and> equal_fold s' t) \<or>
      (lower c = CHR ''s'' \<and> prefix (bytes [0xC5, 0xBF]) s \<and> equal_fold (drop 2 s) t) \<or>
      (lower c = CHR ''k'' \<and> prefix (bytes [0xE2, 0x84, 0xAA]) s \<and> equal_fold (drop 3 s) t))"

lemma equal_fold_refl [simp]: "equal_fold s s"
  by (induction s) auto

lemma equal_fold_lower: "map lower s = map lower t \<Longrightarrow> equal_fold s t"
  by (induction s t rule: equal_fold.induct) (auto split: list.splits)

text \<open>On ASCII, folding is comparing the letters in lower case.\<close>

definition ascii :: "string \<Rightarrow> bool" where
  "ascii s \<longleftrightarrow> (\<forall>c \<in> set s. (of_char c :: nat) < 128)"

lemma equal_fold_ascii: "equal_fold s t \<Longrightarrow> ascii s \<Longrightarrow> map lower s = map lower t"
  by (induction s t rule: equal_fold.induct)
    (auto simp: ascii_def bytes_def prefix_Cons split: list.splits)

lemma lower_ascii: "(of_char (lower c) :: nat) < 128 \<longleftrightarrow> (of_char c :: nat) < 128"
  by (auto simp: lower_def)

lemma ascii_map_lower [simp]: "ascii (map lower s) = ascii s"
  by (auto simp: ascii_def lower_ascii)

declare equal_fold.simps [simp del]

section \<open>UTF-8\<close>

text \<open>\<open>utf8.RuneStart\<close>: every byte but a continuation byte.\<close>

definition rune_start :: "char \<Rightarrow> bool" where
  "rune_start c \<longleftrightarrow> \<not> (128 \<le> (of_char c :: nat) \<and> (of_char c :: nat) < 192)"

section \<open>Numbers\<close>

text \<open>\<open>%d\<close> of a length.\<close>

fun decimal :: "nat \<Rightarrow> string" where
  "decimal n = (if n < 10 then [char_of (48 + n)] else decimal (n div 10) @ [char_of (48 + n mod 10)])"

declare decimal.simps [simp del]

end
