(* ===== verification/Sha256.thy ===== *)
theory Sha256
  imports GoStrings "HOL-Library.Word"
begin

text \<open>
  \<open>crypto/sha256\<close> and \<open>encoding/hex\<close> of the standard library, which the names of rules and shortened labels
  are made with: SHA-256 on the bytes of a string, with 32-bit words that wrap around, as FIPS 180-4 gives it.
\<close>

unbundle bit_operations_syntax

type_synonym w32 = "32 word"

section \<open>The functions of the standard\<close>

definition rotr :: "nat \<Rightarrow> w32 \<Rightarrow> w32" where
  "rotr n x = drop_bit n x OR push_bit (32 - n) x"

definition ch :: "w32 \<Rightarrow> w32 \<Rightarrow> w32 \<Rightarrow> w32" where
  "ch x y z = (x AND y) XOR (NOT x AND z)"

definition maj :: "w32 \<Rightarrow> w32 \<Rightarrow> w32 \<Rightarrow> w32" where
  "maj x y z = (x AND y) XOR (x AND z) XOR (y AND z)"

definition big_sigma0 :: "w32 \<Rightarrow> w32" where
  "big_sigma0 x = rotr 2 x XOR rotr 13 x XOR rotr 22 x"

definition big_sigma1 :: "w32 \<Rightarrow> w32" where
  "big_sigma1 x = rotr 6 x XOR rotr 11 x XOR rotr 25 x"

definition small_sigma0 :: "w32 \<Rightarrow> w32" where
  "small_sigma0 x = rotr 7 x XOR rotr 18 x XOR drop_bit 3 x"

definition small_sigma1 :: "w32 \<Rightarrow> w32" where
  "small_sigma1 x = rotr 17 x XOR rotr 19 x XOR drop_bit 10 x"

text \<open>The first 32 bits of the fractional parts of the cube roots of the first 64 primes, in decimal.\<close>

definition round_constants :: "w32 list" where
  "round_constants =
    [1116352408, 1899447441, 3049323471, 3921009573, 961987163, 1508970993, 2453635748, 2870763221,
     3624381080, 310598401, 607225278, 1426881987, 1925078388, 2162078206, 2614888103, 3248222580,
     3835390401, 4022224774, 264347078, 604807628, 770255983, 1249150122, 1555081692, 1996064986,
     2554220882, 2821834349, 2952996808, 3210313671, 3336571891, 3584528711, 113926993, 338241895,
     666307205, 773529912, 1294757372, 1396182291, 1695183700, 1986661051, 2177026350, 2456956037,
     2730485921, 2820302411, 3259730800, 3345764771, 3516065817, 3600352804, 4094571909, 275423344,
     430227734, 506948616, 659060556, 883997877, 958139571, 1322822218, 1537002063, 1747873779,
     1955562222, 2024104815, 2227730452, 2361852424, 2428436474, 2756734187, 3204031479, 3329325298]"

section \<open>Padding\<close>

text \<open>The message is followed by a one bit, zeros up to eight bytes short of a multiple of 64, and its length in
  bits as a 64-bit number, most significant byte first.\<close>

fun big_endian :: "nat \<Rightarrow> nat \<Rightarrow> nat list" where
  "big_endian 0 n = []"
| "big_endian (Suc k) n = (n div 256 ^ k) mod 256 # big_endian k n"

definition pad_zeros :: "nat \<Rightarrow> nat" where
  "pad_zeros n = (119 - n mod 64) mod 64"

definition padded :: "nat list \<Rightarrow> nat list" where
  "padded bs = bs @ 128 # replicate (pad_zeros (length bs)) 0 @ big_endian 8 (8 * length bs)"

lemma length_big_endian [simp]: "length (big_endian k n) = k"
  by (induction k) auto

lemma pad_zeros_eq: "r < 64 \<Longrightarrow> pad_zeros (64 * q + r) = (if r \<le> 55 then 55 - r else 119 - r)"
proof -
  assume "r < 64"
  then have r: "pad_zeros (64 * q + r) = (119 - r) mod 64" by (simp add: pad_zeros_def)
  show ?thesis
  proof (cases "r \<le> 55")
    case True
    then have "119 - r = (55 - r) + 64" by simp
    then show ?thesis using True by (simp only: r mod_add_self2 if_True) simp
  next
    case False
    then show ?thesis using \<open>r < 64\<close> by (simp add: r)
  qed
qed

lemma length_padded: "length (padded bs) mod 64 = 0"
proof -
  define q r where "q = length bs div 64" and "r = length bs mod 64"
  have r: "r < 64" and n: "length bs = 64 * q + r" by (simp_all add: q_def r_def)
  have "length (padded bs) = 64 * (if r \<le> 55 then q + 1 else q + 2)"
    using r by (simp add: padded_def n pad_zeros_eq)
  then show ?thesis by simp
qed

fun words_of :: "nat list \<Rightarrow> w32 list" where
  "words_of (a # b # c # d # rest) = word_of_nat (a * 16777216 + b * 65536 + c * 256 + d) # words_of rest"
| "words_of _ = []"

section \<open>Compression\<close>

text \<open>The message schedule: the last sixteen words, the next one after another.\<close>

fun schedule :: "nat \<Rightarrow> w32 list \<Rightarrow> w32 list" where
  "schedule 0 ws = ws"
| "schedule (Suc n) ws = schedule n (ws @ [small_sigma1 (ws ! (length ws - 2)) + ws ! (length ws - 7) +
     small_sigma0 (ws ! (length ws - 15)) + ws ! (length ws - 16)])"

type_synonym registers = "w32 \<times> w32 \<times> w32 \<times> w32 \<times> w32 \<times> w32 \<times> w32 \<times> w32"

definition sha_round :: "w32 \<times> w32 \<Rightarrow> registers \<Rightarrow> registers" where
  "sha_round kw r = (case r of (a, b, c, d, e, f, g, h) \<Rightarrow>
     let t1 = h + big_sigma1 e + ch e f g + fst kw + snd kw;
         t2 = big_sigma0 a + maj a b c
     in (t1 + t2, a, b, c, d + t1, e, f, g))"

definition add_registers :: "registers \<Rightarrow> registers \<Rightarrow> registers" where
  "add_registers x y = (case x of (a, b, c, d, e, f, g, h) \<Rightarrow> case y of (a', b', c', d', e', f', g', h') \<Rightarrow>
     (a + a', b + b', c + c', d + d', e + e', f + f', g + g', h + h'))"

definition compress :: "w32 list \<Rightarrow> registers \<Rightarrow> registers" where
  "compress block r = add_registers r (fold sha_round (zip round_constants (schedule 48 block)) r)"

definition initial_registers :: registers where
  "initial_registers = (1779033703, 3144134277, 1013904242, 2773480762, 1359893119, 2600822924, 528734635, 1541459225)"

fun blocks :: "nat \<Rightarrow> w32 list \<Rightarrow> registers \<Rightarrow> registers" where
  "blocks 0 ws r = r"
| "blocks (Suc n) ws r = blocks n (drop 16 ws) (compress (take 16 ws) r)"

definition word_bytes :: "w32 \<Rightarrow> nat list" where
  "word_bytes w = big_endian 4 (unat w)"

definition Sum256 :: "string \<Rightarrow> nat list" where
  "Sum256 s = (let bs = padded (map of_char s)
     in case blocks (length bs div 64) (words_of bs) initial_registers of
       (a, b, c, d, e, f, g, h) \<Rightarrow> concat (map word_bytes [a, b, c, d, e, f, g, h]))"

section \<open>Hexadecimal\<close>

definition hex_digit :: "nat \<Rightarrow> char" where
  "hex_digit n = (if n < 10 then char_of (48 + n) else char_of (87 + n))"

definition EncodeToString :: "nat list \<Rightarrow> string" where
  "EncodeToString bs = concat (map (\<lambda>b. [hex_digit (b div 16), hex_digit (b mod 16)]) bs)"

lemma length_EncodeToString [simp]: "length (EncodeToString bs) = 2 * length bs"
  by (induction bs) (auto simp: EncodeToString_def)

lemma length_Sum256 [simp]: "length (Sum256 s) = 32"
  by (auto simp: Sum256_def Let_def word_bytes_def split: prod.split)

lemma big_endian_byte: "b \<in> set (big_endian k n) \<Longrightarrow> b < 256"
  by (induction k) auto

lemma Sum256_bytes: "b \<in> set (Sum256 s) \<Longrightarrow> b < 256"
  by (auto simp: Sum256_def Let_def word_bytes_def dest: big_endian_byte split: prod.splits)

text \<open>Bytes are told apart by their encoding.\<close>

lemma of_char_hex_digit: "n < 16 \<Longrightarrow> of_char (hex_digit n) = (if n < 10 then 48 + n else 87 + n)"
  by (simp add: hex_digit_def)

lemma hex_digit_inj:
  assumes "m < 16" and "n < 16" and "hex_digit m = hex_digit n"
  shows "m = n"
proof -
  have "(if m < 10 then 48 + m else 87 + m) = (if n < 10 then 48 + n else 87 + n)"
    using of_char_hex_digit [OF assms(1)] of_char_hex_digit [OF assms(2)] unfolding assms(3) by (rule trans [OF sym])
  then show ?thesis using assms(1,2) by (cases "m < 10"; cases "n < 10") simp_all
qed

lemma EncodeToString_Cons:
  "EncodeToString (b # bs) = hex_digit (b div 16) # hex_digit (b mod 16) # EncodeToString bs"
  by (simp add: EncodeToString_def)

lemma EncodeToString_inj:
  "\<forall>b \<in> set bs. b < 256 \<Longrightarrow> \<forall>c \<in> set cs. c < 256 \<Longrightarrow> EncodeToString bs = EncodeToString cs \<Longrightarrow> bs = cs"
proof (induction bs arbitrary: cs)
  case Nil
  then show ?case by (cases cs) (auto simp: EncodeToString_def)
next
  case (Cons b bs)
  from Cons.prems(3) obtain c cs' where cs: "cs = c # cs'"
    by (cases cs) (simp_all add: EncodeToString_Cons, simp add: EncodeToString_def)
  from Cons.prems(3) have digits: "hex_digit (b div 16) = hex_digit (c div 16)" "hex_digit (b mod 16) = hex_digit (c mod 16)"
    and rest: "EncodeToString bs = EncodeToString cs'" by (simp_all add: EncodeToString_Cons cs)
  have "b div 16 < 16" "c div 16 < 16" using Cons.prems(1,2) by (simp_all add: cs less_mult_imp_div_less)
  then have "b div 16 = c div 16" by (rule hex_digit_inj) (rule digits(1))
  moreover have "b mod 16 = c mod 16" by (rule hex_digit_inj) (simp_all add: digits(2))
  ultimately have "b = c" by (metis div_mult_mod_eq)
  moreover have "bs = cs'" using Cons.IH [of cs'] Cons.prems(1,2) rest by (simp add: cs)
  ultimately show ?case by (simp add: cs)
qed

end
