(* ===== verification/Kube.thy ===== *)
theory Kube
  imports GoStrings
begin

text \<open>
  What the program shares with Kubernetes and Cluster API: the objects it reads and writes, the
  errors a client returns, the calls it makes and, as parameters, everything outside the
  repository that answers them. Objects keep the fields the program reads or writes. A nil
  pointer is \<open>None\<close>, a zero deletion time too; maps read by key are functions to options,
  maps the program ranges over are association lists.
\<close>

section \<open>Errors\<close>

text \<open>
  An error of a client or of the controller runtime has a kind, which
  \<open>apierrors.IsNotFound\<close>, \<open>meta.IsNoMatchError\<close> and their kin ask for, and a text. A
  Rejection is the error type of package quarantine. \<open>fmt.Errorf("...: %w", err)\<close> wraps
  an error, and every question about its kind looks through the wrapping.
\<close>

datatype error_kind =
  NotFound | Conflict | AlreadyExists | Forbidden | NoMatch | NotConnected | OtherError

datatype go_error =
  ApiError error_kind string
| Rejection string string
| Plain string
| Wrapped string go_error

fun kind_of :: "go_error \<Rightarrow> error_kind" where
  "kind_of (ApiError k _) = k"
| "kind_of (Rejection _ _) = OtherError"
| "kind_of (Plain _) = OtherError"
| "kind_of (Wrapped _ e) = kind_of e"

fun rejection_of :: "go_error \<Rightarrow> (string \<times> string) option" where
  "rejection_of (ApiError _ _) = None"
| "rejection_of (Rejection r m) = Some (r, m)"
| "rejection_of (Plain _) = None"
| "rejection_of (Wrapped _ e) = rejection_of e"

fun error_text :: "go_error \<Rightarrow> string" where
  "error_text (ApiError _ m) = m"
| "error_text (Rejection r m) = r @ '': '' @ m"
| "error_text (Plain m) = m"
| "error_text (Wrapped p e) = p @ '': '' @ error_text e"

text \<open>\<open>client.IgnoreNotFound\<close>.\<close>

definition ignore_not_found :: "go_error option \<Rightarrow> go_error option" where
  "ignore_not_found e = (case e of None \<Rightarrow> None | Some x \<Rightarrow> if kind_of x = NotFound then None else Some x)"

section \<open>Objects\<close>

text \<open>A condition of a node, a Machine or a request.\<close>

record condition =
  cond_type :: string
  cond_status :: string
  cond_reason :: string
  cond_message :: string

record object_ref =
  ref_group :: string
  ref_kind :: string
  ref_name :: string

record owner_ref =
  owner_api_version :: string
  owner_kind :: string
  owner_name :: string
  owner_controller :: "bool option"

type_synonym labels = "string \<rightharpoonup> string"

record machine =
  m_namespace :: string
  m_name :: string
  m_uid :: string
  m_resource_version :: string
  m_deletion_timestamp :: "int option"
  m_labels :: labels
  m_annotations :: labels
  m_owners :: "owner_ref list"
  m_cluster :: string
  m_infrastructure :: object_ref
  m_node_ref :: string
  m_conditions :: "condition list"

record node =
  n_name :: string
  n_boot_id :: string
  n_conditions :: "condition list"

type_synonym cluster_key = "string \<times> string"

record cluster =
  c_namespace :: string
  c_name :: string
  c_deletion_timestamp :: "int option"
  c_labels :: labels
  c_annotations :: labels
  c_spec_paused :: "bool option"
  c_infrastructure :: object_ref

definition cluster_key :: "cluster \<Rightarrow> cluster_key" where
  "cluster_key c = (c_namespace c, c_name c)"

text \<open>A label selector as the API has it, and a template reference, which is \<open>None\<close> when its
  \<open>IsDefined\<close> is false.\<close>

record label_selector =
  match_labels :: "(string \<times> string) list"
  match_expressions :: "(string \<times> string \<times> string list) list"

record template_ref =
  t_kind :: string
  t_name :: string

record health_check =
  h_namespace :: string
  h_name :: string
  h_annotations :: labels
  h_cluster :: string
  h_selector :: label_selector
  h_template :: "template_ref option"

text \<open>
  The content of an unstructured object is JSON as Go decodes it into \<open>any\<close>: a number is an
  \<open>int64\<close> or a \<open>float64\<close>, which is a dyadic rational \<open>JFloat m e\<close>, \<open>m * 2 ^ e\<close>. The metadata the
  program reads is kept apart.
\<close>

datatype json =
  JNull
| JBool bool
| JInt int
| JFloat int int
| JString string
| JArray "json list"
| JObject "(string \<times> json) list"

fun as_object :: "json option \<Rightarrow> (string \<times> json) list" where
  "as_object (Some (JObject kvs)) = kvs"
| "as_object _ = []"

fun as_array :: "json option \<Rightarrow> json list" where
  "as_array (Some (JArray xs)) = xs"
| "as_array _ = []"

fun as_string :: "json option \<Rightarrow> string" where
  "as_string (Some (JString s)) = s"
| "as_string _ = []"

record unstructured =
  u_api_version :: string
  u_kind :: string
  u_namespace :: string
  u_name :: string
  u_uid :: string
  u_generation :: int
  u_deletion_timestamp :: "int option"
  u_labels :: labels
  u_annotations :: labels
  u_content :: json

record pod =
  p_uid :: string
  p_phase :: string
  p_claims :: "string option list"
  p_claim_statuses :: "string option list"

text \<open>One device of a ResourceClaim's allocation: driver, pool, name and admin access.\<close>

record allocated =
  a_driver :: string
  a_pool :: string
  a_device :: string
  a_admin_access :: "bool option"

text \<open>A ResourceClaim: its allocation, if it has one.\<close>

record claim =
  cl_allocation :: "allocated list option"

section \<open>Names of Cluster API\<close>

definition remediate_annotation :: string where
  "remediate_annotation = ''cluster.x-k8s.io/remediate-machine''"

definition paused_annotation :: string where
  "paused_annotation = ''cluster.x-k8s.io/paused''"

definition skip_remediation_annotation :: string where
  "skip_remediation_annotation = ''cluster.x-k8s.io/skip-remediation''"

definition control_plane_label :: string where
  "control_plane_label = ''cluster.x-k8s.io/control-plane''"

definition health_check_succeeded :: string where
  "health_check_succeeded = ''HealthCheckSucceeded''"

section \<open>Calls\<close>

datatype event_object = OnMachine string string | OnCluster string string

datatype event_type = NormalEvent | WarningEvent

text \<open>
  Every call the program makes, with the answer where there is one. The level of a log line is
  that of the code; its key-value pairs are left out.
\<close>

datatype level = Info | Debug | Error

type_synonym group_kind = "string \<times> string"

datatype call =
  GetCluster cluster_key "go_error + cluster"
| GetMachine string string "go_error + machine"
| ListMachines cluster_key "go_error + machine list"
| ListChecks string "go_error + health_check list"
| PatchMachine machine machine bool "go_error + machine"
| DeleteMachine machine "go_error option"
| ConnectWorkload cluster_key "go_error option"
| ConnectUncached cluster_key "go_error option"
| LookUpWorkload group_kind string "go_error option"
| WatchRequests cluster_key "go_error option"
| ListNodes "go_error + node list"
| ListRequests "go_error + unstructured list"
| GetRequest string "go_error + unstructured"
| PatchRequestStatus unstructured unstructured "go_error option"
| LookUpManagement group_kind "string option" "go_error + string"
| GetObject group_kind string string string "go_error + unstructured"
| ListPods string string "go_error + pod list"
| GetClaim string string "go_error + claim"
| CreateRule unstructured "go_error option"
| GetRule string string "go_error + unstructured"
| ListRules string "(string \<times> string) list" "go_error + unstructured list"
| ReadClock int
| EmitEvent event_object event_type string string string
| LogLine level string

text \<open>The calls that change something: a write to either API server, or an Event.\<close>

fun is_write :: "call \<Rightarrow> bool" where
  "is_write (PatchMachine _ _ _ _) = True"
| "is_write (DeleteMachine _ _) = True"
| "is_write (PatchRequestStatus _ _ _) = True"
| "is_write (CreateRule _ _) = True"
| "is_write (EmitEvent _ _ _ _ _) = True"
| "is_write _ = False"

section \<open>What is outside the repository\<close>

text \<open>
  The API servers, the cluster cache and the clock. Each answer may depend on everything asked
  before, which covers whatever else happens to the clusters meanwhile.
\<close>

record env =
  get_cluster :: "call list \<Rightarrow> cluster_key \<Rightarrow> go_error + cluster"
  get_machine :: "call list \<Rightarrow> string \<Rightarrow> string \<Rightarrow> go_error + machine"
  list_machines :: "call list \<Rightarrow> cluster_key \<Rightarrow> go_error + machine list"
  list_health_checks :: "call list \<Rightarrow> string \<Rightarrow> go_error + health_check list"
  patch_machine :: "call list \<Rightarrow> machine \<Rightarrow> machine \<Rightarrow> bool \<Rightarrow> go_error + machine"
  delete_machine :: "call list \<Rightarrow> machine \<Rightarrow> go_error option"
  connect_workload :: "call list \<Rightarrow> cluster_key \<Rightarrow> go_error option"
  connect_uncached :: "call list \<Rightarrow> cluster_key \<Rightarrow> go_error option"
  look_up_workload :: "call list \<Rightarrow> group_kind \<Rightarrow> string \<Rightarrow> go_error option"
  watch :: "call list \<Rightarrow> cluster_key \<Rightarrow> go_error option"
  list_nodes :: "call list \<Rightarrow> go_error + node list"
  list_requests :: "call list \<Rightarrow> go_error + unstructured list"
  get_request :: "call list \<Rightarrow> string \<Rightarrow> go_error + unstructured"
  patch_request_status :: "call list \<Rightarrow> unstructured \<Rightarrow> unstructured \<Rightarrow> go_error option"
  look_up_management :: "call list \<Rightarrow> group_kind \<Rightarrow> string option \<Rightarrow> go_error + string"
  get_object :: "call list \<Rightarrow> group_kind \<Rightarrow> string \<Rightarrow> string \<Rightarrow> string \<Rightarrow> go_error + unstructured"
  list_pods :: "call list \<Rightarrow> string \<Rightarrow> string \<Rightarrow> go_error + pod list"
  get_claim :: "call list \<Rightarrow> string \<Rightarrow> string \<Rightarrow> go_error + claim"
  create_rule :: "call list \<Rightarrow> unstructured \<Rightarrow> go_error option"
  get_rule :: "call list \<Rightarrow> string \<Rightarrow> string \<Rightarrow> go_error + unstructured"
  list_rules :: "call list \<Rightarrow> string \<Rightarrow> (string \<times> string) list \<Rightarrow> go_error + unstructured list"
  clock :: "call list \<Rightarrow> int"

text \<open>
  The functions of the API machinery and of Cluster API's packages that the program calls, and
  two of their names and two of their numbers that nothing in the repository spells out. A reader of a nested field gives
  the zero value when the field is missing or of another type, and \<open>nested_string\<close> an error in
  the latter case, which one caller looks at. \<open>selector_matches\<close> is
  \<open>LabelSelectorAsSelector(CloneSelectorAndAddLabel(selector, key, value))\<close>, which may fail.
\<close>

record kube =
  nested_field :: "json \<Rightarrow> string list \<Rightarrow> json option"
  nested_string :: "json \<Rightarrow> string list \<Rightarrow> go_error + string"
  nested_string_slice :: "json \<Rightarrow> string list \<Rightarrow> string list"
  nested_slice :: "json \<Rightarrow> string list \<Rightarrow> json list"
  set_nested_slice :: "json \<Rightarrow> json list \<Rightarrow> string list \<Rightarrow> json"
  nested_map :: "json \<Rightarrow> string list \<Rightarrow> (string \<times> json) list option"
  nested_string_map :: "json \<Rightarrow> string list \<Rightarrow> (string \<times> string) list"
  find_status_condition :: "condition list \<Rightarrow> string \<Rightarrow> condition option"
  selector_matches :: "label_selector \<Rightarrow> string \<Rightarrow> string \<Rightarrow> (labels \<Rightarrow> bool) option"
  has_paused :: "labels \<Rightarrow> bool"
  is_paused_cluster :: "cluster \<Rightarrow> bool"
  controller_of :: "owner_ref list \<Rightarrow> owner_ref option"
  parse_group_version :: "string \<Rightarrow> (string \<times> string) option"
  dns1123_errors :: "string \<Rightarrow> string list"
  quote :: "string \<Rightarrow> string"
  rfc3339 :: "int \<Rightarrow> string"
  label_value_max :: nat
  retry_steps :: nat
  cluster_name_label :: string
  has_remediate_reason :: string

definition string_or_empty :: "go_error + string \<Rightarrow> string" where
  "string_or_empty r = (case r of Inl _ \<Rightarrow> [] | Inr s \<Rightarrow> s)"

text \<open>An Event on an object, a log line and a reading of the clock.\<close>

definition emit_event :: "event_object \<Rightarrow> event_type \<Rightarrow> string \<Rightarrow> string \<Rightarrow> string \<Rightarrow> ((call, 'w) world_scheme, unit) state" where
  "emit_event obj ty reason action note = tell (EmitEvent obj ty reason action note)"

definition log_line :: "level \<Rightarrow> string \<Rightarrow> ((call, 'w) world_scheme, unit) state" where
  "log_line l msg = tell (LogLine l msg)"

definition read_clock :: "env \<Rightarrow> ((call, 'w) world_scheme, int) state" where
  "read_clock E = ask ReadClock (clock E)"

definition on_machine :: "machine \<Rightarrow> event_object" where
  "on_machine m = OnMachine (m_namespace m) (m_name m)"

definition on_cluster :: "cluster \<Rightarrow> event_object" where
  "on_cluster c = OnCluster (c_namespace c) (c_name c)"

lemma emits_emit_event [emits_rules]:
  "P (EmitEvent obj ty reason action note) \<Longrightarrow> emits P (emit_event obj ty reason action note)"
  by (simp add: emit_event_def emits_tell)

lemma emits_log_line [emits_rules]: "P (LogLine l msg) \<Longrightarrow> emits P (log_line l msg)"
  by (simp add: log_line_def emits_tell)

lemma emits_read_clock [emits_rules]: "(\<And>t. P (ReadClock t)) \<Longrightarrow> emits P (read_clock E)"
  by (simp add: read_clock_def emits_ask)

lemma run_emit_event [simp]:
  "run_state (emit_event obj ty reason action note) s =
     ((), s\<lparr>history := history s @ [EmitEvent obj ty reason action note]\<rparr>)"
  by (simp add: emit_event_def)

lemma run_log_line [simp]:
  "run_state (log_line l msg) s = ((), s\<lparr>history := history s @ [LogLine l msg]\<rparr>)"
  by (simp add: log_line_def)

lemma run_read_clock [simp]:
  "run_state (read_clock E) s =
     (clock E (history s), s\<lparr>history := history s @ [ReadClock (clock E (history s))]\<rparr>)"
  by (simp add: read_clock_def)

end
