(* ===== verification/Examples.thy ===== *)
theory Examples
  imports Kube
begin

text \<open>
  Concrete parameters for the model: an API server that finds nothing, accepts every write as it is
  and keeps time by the calls made, and library functions that behave as documented. The hypotheses the
  properties make on their parameters are met by these, which is what the witnesses show.
\<close>

section \<open>Library functions\<close>

text \<open>Reading and writing nested fields.\<close>

fun field_at :: "json \<Rightarrow> string list \<Rightarrow> json option" where
  "field_at j [] = Some j"
| "field_at (JObject kvs) (k # ks) = (case map_of kvs k of None \<Rightarrow> None | Some v \<Rightarrow> field_at v ks)"
| "field_at _ (k # ks) = None"

fun set_field :: "json \<Rightarrow> json \<Rightarrow> string list \<Rightarrow> json" where
  "set_field j v [] = v"
| "set_field (JObject kvs) v (k # ks) =
     JObject (AList.update k (set_field (case map_of kvs k of None \<Rightarrow> JObject [] | Some w \<Rightarrow> w) v ks) kvs)"
| "set_field _ v (k # ks) = JObject [(k, set_field (JObject []) v ks)]"

definition string_entries :: "(string \<times> json) list \<Rightarrow> (string \<times> string) list" where
  "string_entries kvs = (if \<forall>kv \<in> set kvs. \<exists>s. snd kv = JString s
     then map (\<lambda>(k, v). (k, as_string (Some v))) kvs else [])"

definition string_items :: "json list \<Rightarrow> string list" where
  "string_items xs = (if \<forall>x \<in> set xs. \<exists>s. x = JString s then map (\<lambda>x. as_string (Some x)) xs else [])"

definition plain_kube :: kube where
  "plain_kube = \<lparr>
     nested_field = field_at,
     nested_string = (\<lambda>j ks. case field_at j ks of
         None \<Rightarrow> Inr []
       | Some v \<Rightarrow> (case v of JString s \<Rightarrow> Inr s | _ \<Rightarrow> Inl (Plain ''not a string''))),
     nested_string_slice = (\<lambda>j ks. string_items (as_array (field_at j ks))),
     nested_slice = (\<lambda>j ks. as_array (field_at j ks)),
     set_nested_slice = (\<lambda>j xs ks. set_field j (JArray xs) ks),
     nested_map = (\<lambda>j ks. case field_at j ks of
         None \<Rightarrow> None
       | Some v \<Rightarrow> (case v of JObject kvs \<Rightarrow> Some kvs | _ \<Rightarrow> None)),
     nested_string_map = (\<lambda>j ks. string_entries (as_object (field_at j ks))),
     find_status_condition = (\<lambda>cs ty. find (\<lambda>c. cond_type c = ty) cs),
     selector_matches = (\<lambda>sel key v. Some (\<lambda>ls. ls key = Some v \<and>
         (\<forall>kv \<in> set (match_labels sel). ls (fst kv) = Some (snd kv)))),
     has_paused = (\<lambda>a. a paused_annotation \<noteq> None),
     is_paused_cluster = (\<lambda>c. c_spec_paused c = Some True),
     controller_of = find (\<lambda>own. owner_controller own = Some True),
     parse_group_version = (\<lambda>s. case cut CHR ''/'' s of (g, v, found) \<Rightarrow> if found then Some (g, v) else Some ([], g)),
     dns1123_errors = (\<lambda>_. []),
     quote = (\<lambda>s. s),
     rfc3339 = (\<lambda>t. decimal (nat t)),
     label_value_max = 63,
     retry_steps = 5,
     cluster_name_label = ''cluster.x-k8s.io/cluster-name'',
     has_remediate_reason = ''HasRemediateAnnotation''\<rparr>"

lemma plain_kube_simps [simp]:
  "nested_field plain_kube = field_at"
  "nested_string plain_kube = (\<lambda>j ks. case field_at j ks of None \<Rightarrow> Inr [] | Some v \<Rightarrow> (case v of JString s \<Rightarrow> Inr s | _ \<Rightarrow> Inl (Plain ''not a string'')))"
  "nested_string_slice plain_kube = (\<lambda>j ks. string_items (as_array (field_at j ks)))"
  "nested_slice plain_kube = (\<lambda>j ks. as_array (field_at j ks))"
  "set_nested_slice plain_kube = (\<lambda>j xs ks. set_field j (JArray xs) ks)"
  "nested_map plain_kube = (\<lambda>j ks. case field_at j ks of None \<Rightarrow> None | Some v \<Rightarrow> (case v of JObject kvs \<Rightarrow> Some kvs | _ \<Rightarrow> None))"
  "nested_string_map plain_kube = (\<lambda>j ks. string_entries (as_object (field_at j ks)))"
  "find_status_condition plain_kube = (\<lambda>cs ty. find (\<lambda>c. cond_type c = ty) cs)"
  "selector_matches plain_kube = (\<lambda>sel key v. Some (\<lambda>ls. ls key = Some v \<and> (\<forall>kv \<in> set (match_labels sel). ls (fst kv) = Some (snd kv))))"
  "has_paused plain_kube = (\<lambda>a. a paused_annotation \<noteq> None)"
  "is_paused_cluster plain_kube = (\<lambda>c. c_spec_paused c = Some True)"
  "controller_of plain_kube = find (\<lambda>own. owner_controller own = Some True)"
  "parse_group_version plain_kube = (\<lambda>s. case cut CHR ''/'' s of (g, v, found) \<Rightarrow> if found then Some (g, v) else Some ([], g))"
  "dns1123_errors plain_kube = (\<lambda>_. [])"
  "quote plain_kube = (\<lambda>s. s)"
  "rfc3339 plain_kube = (\<lambda>t. decimal (nat t))"
  "label_value_max plain_kube = 63"
  "retry_steps plain_kube = 5"
  "cluster_name_label plain_kube = ''cluster.x-k8s.io/cluster-name''"
  "has_remediate_reason plain_kube = ''HasRemediateAnnotation''"
  by (simp_all add: plain_kube_def)

section \<open>An API server\<close>

definition not_found :: go_error where
  "not_found = ApiError NotFound ''not found''"

definition quiet_env :: env where
  "quiet_env = \<lparr>
     get_cluster = (\<lambda>_ _. Inl not_found),
     get_machine = (\<lambda>_ _ _. Inl not_found),
     list_machines = (\<lambda>_ _. Inr []),
     list_health_checks = (\<lambda>_ _. Inr []),
     patch_machine = (\<lambda>_ b u l. Inr u),
     delete_machine = (\<lambda>_ _. None),
     connect_workload = (\<lambda>_ _. None),
     connect_uncached = (\<lambda>_ _. None),
     look_up_workload = (\<lambda>_ _ _. None),
     watch = (\<lambda>_ _. None),
     list_nodes = (\<lambda>_. Inr []),
     list_requests = (\<lambda>_. Inr []),
     get_request = (\<lambda>_ _. Inl not_found),
     patch_request_status = (\<lambda>_ _ _. None),
     look_up_management = (\<lambda>_ _ v. Inr (case v of None \<Rightarrow> ''v1'' | Some x \<Rightarrow> x)),
     get_object = (\<lambda>_ _ _ _ _. Inl not_found),
     list_pods = (\<lambda>_ _ _. Inr []),
     get_claim = (\<lambda>_ _ _. Inl not_found),
     create_rule = (\<lambda>_ _. None),
     get_rule = (\<lambda>_ _ _. Inl not_found),
     list_rules = (\<lambda>_ _ _. Inr []),
     clock = (\<lambda>h. int (length h))\<rparr>"

lemma quiet_env_simps [simp]:
  "get_cluster quiet_env = (\<lambda>_ _. Inl not_found)"
  "get_machine quiet_env = (\<lambda>_ _ _. Inl not_found)"
  "list_machines quiet_env = (\<lambda>_ _. Inr [])"
  "list_health_checks quiet_env = (\<lambda>_ _. Inr [])"
  "patch_machine quiet_env = (\<lambda>_ b u l. Inr u)"
  "delete_machine quiet_env = (\<lambda>_ _. None)"
  "connect_workload quiet_env = (\<lambda>_ _. None)"
  "connect_uncached quiet_env = (\<lambda>_ _. None)"
  "look_up_workload quiet_env = (\<lambda>_ _ _. None)"
  "watch quiet_env = (\<lambda>_ _. None)"
  "list_nodes quiet_env = (\<lambda>_. Inr [])"
  "list_requests quiet_env = (\<lambda>_. Inr [])"
  "get_request quiet_env = (\<lambda>_ _. Inl not_found)"
  "patch_request_status quiet_env = (\<lambda>_ _ _. None)"
  "look_up_management quiet_env = (\<lambda>_ _ v. Inr (case v of None \<Rightarrow> ''v1'' | Some x \<Rightarrow> x))"
  "get_object quiet_env = (\<lambda>_ _ _ _ _. Inl not_found)"
  "list_pods quiet_env = (\<lambda>_ _ _. Inr [])"
  "get_claim quiet_env = (\<lambda>_ _ _. Inl not_found)"
  "create_rule quiet_env = (\<lambda>_ _. None)"
  "get_rule quiet_env = (\<lambda>_ _ _. Inl not_found)"
  "list_rules quiet_env = (\<lambda>_ _ _. Inr [])"
  "clock quiet_env = (\<lambda>h. int (length h))"
  by (simp_all add: quiet_env_def)

section \<open>Objects\<close>

definition example_machine :: machine where
  "example_machine = \<lparr>m_namespace = ''ns'', m_name = ''m'', m_uid = ''u'', m_resource_version = ''1'',
     m_deletion_timestamp = None, m_labels = Map.empty, m_annotations = Map.empty, m_owners = [],
     m_cluster = ''c'', m_infrastructure = \<lparr>ref_group = ''infrastructure.cluster.x-k8s.io'', ref_kind = ''PCDMachine'', ref_name = ''m''\<rparr>,
     m_node_ref = ''gpu-w-1'', m_conditions = []\<rparr>"

definition example_cluster :: cluster where
  "example_cluster = \<lparr>c_namespace = ''ns'', c_name = ''c'', c_deletion_timestamp = None, c_labels = Map.empty,
     c_annotations = Map.empty, c_spec_paused = None,
     c_infrastructure = \<lparr>ref_group = ''infrastructure.cluster.x-k8s.io'', ref_kind = ''PCDCluster'', ref_name = ''c''\<rparr>\<rparr>"

end
