(* ===== verification/Signal.thy ===== *)
theory Signal
  imports Kube
begin

text \<open>
  Package \<open>signal\<close> (\<open>internal/signal/signal.go\<close>): the health signal every source is reduced
  to, the actions NVSentinel can recommend, and what a source of signals promises.
\<close>

section \<open>Recommended actions\<close>

definition ActionNone :: string where "ActionNone = ''NONE''"
definition ActionComponentReset :: string where "ActionComponentReset = ''COMPONENT_RESET''"
definition ActionContactSupport :: string where "ActionContactSupport = ''CONTACT_SUPPORT''"
definition ActionRunFieldDiag :: string where "ActionRunFieldDiag = ''RUN_FIELDDIAG''"
definition ActionRestartVM :: string where "ActionRestartVM = ''RESTART_VM''"
definition ActionRestartBM :: string where "ActionRestartBM = ''RESTART_BM''"
definition ActionReplaceVM :: string where "ActionReplaceVM = ''REPLACE_VM''"
definition ActionRunDCGMEUD :: string where "ActionRunDCGMEUD = ''RUN_DCGMEUD''"
definition ActionCustom :: string where "ActionCustom = ''CUSTOM''"
definition ActionUnknown :: string where "ActionUnknown = ''UNKNOWN''"

lemmas action_defs = ActionNone_def ActionComponentReset_def ActionContactSupport_def
  ActionRunFieldDiag_def ActionRestartVM_def ActionRestartBM_def ActionReplaceVM_def
  ActionRunDCGMEUD_def ActionCustom_def ActionUnknown_def

definition knownActions :: "string list" where
  "knownActions = [ActionNone, ActionComponentReset, ActionContactSupport,
     ActionRunFieldDiag, ActionRestartVM, ActionRestartBM,
     ActionReplaceVM, ActionRunDCGMEUD, ActionCustom, ActionUnknown]"

definition IsKnownAction :: "string \<Rightarrow> bool" where
  "IsKnownAction name \<longleftrightarrow> name \<in> set knownActions"

text \<open>No action NVSentinel emits starts another, which a cut message relies on.\<close>

lemma known_actions_prefix_free:
  assumes "IsKnownAction a" and "IsKnownAction b" and "prefix a b"
  shows "a = b"
proof -
  have "\<forall>a \<in> set knownActions. \<forall>b \<in> set knownActions. prefix a b \<longrightarrow> a = b"
    by code_simp
  with assms show ?thesis by (auto simp: IsKnownAction_def)
qed

section \<open>Signals\<close>

datatype origin = NoOrigin | OriginNodeCondition | OriginExternalRemediationRequest

fun origin_string :: "origin \<Rightarrow> string" where
  "origin_string NoOrigin = []"
| "origin_string OriginNodeCondition = ''NodeCondition''"
| "origin_string OriginExternalRemediationRequest = ''ExternalRemediationRequest''"

record signal =
  s_origin :: origin
  s_node :: string
  s_check :: string
  s_id :: string
  s_actions :: "string list"
  s_error_codes :: "string list"
  s_gpu_uuids :: "string list"
  s_truncated :: bool
  s_request :: string

definition Key :: "signal \<Rightarrow> string" where
  "Key s = s_node s @ ''/'' @ s_check s"

text \<open>
  A node name, which Kubernetes keeps free of slashes, makes the key unambiguous: the key of a
  signal identifies its node and check.
\<close>

lemma Key_inj:
  assumes "Key s = Key t" and "CHR ''/'' \<notin> set (s_node s)" and "CHR ''/'' \<notin> set (s_node t)"
  shows "s_node s = s_node t \<and> s_check s = s_check t"
proof -
  have "cut CHR ''/'' (Key s) = (s_node s, s_check s, True)"
    and "cut CHR ''/'' (Key t) = (s_node t, s_check t, True)"
    using assms(2,3) by (simp_all add: Key_def cut_append)
  with assms(1) show ?thesis by simp
qed

section \<open>Sources\<close>

text \<open>
  The contract of \<open>signal.Source\<close>, over the list of objects a source reads: \<open>render\<close> is the list
  of signals it makes of them, \<open>sorting\<close> the key its result is sorted by, and \<open>raised\<close> tells
  which signals an object raises. Every signal comes from an object, carries the origin of the
  source, names a node and, only when its origin is a request, that request.
\<close>

locale signal_source =
  fixes render :: "'o list \<Rightarrow> signal list"
    and sorting :: "signal \<Rightarrow> 'k::linorder"
    and raised :: "'o \<Rightarrow> signal list"
    and origin :: origin
  assumes render_sorted: "sorted (map sorting (render objs))"
    and render_mset: "mset (render objs) = (\<Sum>obj \<leftarrow> objs. mset (raised obj))"
    and raised_origin: "sig \<in> set (raised obj) \<Longrightarrow> s_origin sig = origin"
begin

lemma render_set: "set (render objs) = (\<Union>obj \<in> set objs. set (raised obj))"
proof -
  have "set_mset (\<Sum>obj \<leftarrow> objs. mset (raised obj)) = (\<Union>obj \<in> set objs. set (raised obj))"
    by (induction objs) auto
  then show ?thesis using render_mset [of objs] by (metis set_mset_mset)
qed

lemma render_origin: "sig \<in> set (render objs) \<Longrightarrow> s_origin sig = origin"
  by (auto simp: render_set dest: raised_origin)

lemma render_append_mset: "mset (render (xs @ ys)) = mset (render xs) + mset (render ys)"
  by (simp add: render_mset)

text \<open>The order the objects are listed in makes no difference while the sort keys tell signals apart.\<close>

lemma render_order_irrelevant:
  assumes "mset xs = mset ys" and "inj_on sorting (set (render xs))"
  shows "render xs = render ys"
proof -
  have "mset (map (\<lambda>obj. mset (raised obj)) xs) = mset (map (\<lambda>obj. mset (raised obj)) ys)"
    using assms(1) by simp
  then have "(\<Sum>obj \<leftarrow> xs. mset (raised obj)) = (\<Sum>obj \<leftarrow> ys. mset (raised obj))"
    by (metis sum_mset_sum_list)
  then have m: "mset (render xs) = mset (render ys)"
    by (simp add: render_mset)
  have "sort_key sorting (render xs) = render xs" "sort_key sorting (render xs) = render ys"
    using assms(2) m by (auto intro!: sort_key_unique render_sorted)
  then show ?thesis by simp
qed

end

end
