(* ===== verification/Decision.thy ===== *)
theory Decision
  imports Signal
begin

text \<open>
  Package \<open>decision\<close> (\<open>internal/decision/decision.go\<close>): the table that maps recommended actions
  to decisions, its overrides, and how a signal is reduced to one outcome. A table's entries are
  an association list without repeated keys.
\<close>

section \<open>Decisions and their order\<close>

text \<open>\<open>NoDecision\<close> is the empty string, the zero value of the type.\<close>

datatype decision = NoDecision | Report | Restart | Replace

fun decision_string :: "decision \<Rightarrow> string" where
  "decision_string NoDecision = []"
| "decision_string Report = ''Report''"
| "decision_string Restart = ''Restart''"
| "decision_string Replace = ''Replace''"

fun rank :: "decision \<Rightarrow> nat" where
  "rank NoDecision = 0"
| "rank Report = 0"
| "rank Restart = 1"
| "rank Replace = 2"

definition MoreDisruptiveThan :: "decision \<Rightarrow> decision \<Rightarrow> bool" where
  "MoreDisruptiveThan d e \<longleftrightarrow> rank d > rank e"

lemma rank_inj: "d \<noteq> NoDecision \<Longrightarrow> e \<noteq> NoDecision \<Longrightarrow> rank d = rank e \<Longrightarrow> d = e"
  by (cases d; cases e) auto

text \<open>What the tables have to say wrong about their input, one constructor per message.\<close>

datatype decision_error =
  UnknownDecision string
| EmptyAction
| BadEntry string decision_error
| NotAPair string
| ListedTwice string

definition ParseDecision :: "string \<Rightarrow> decision_error + decision" where
  "ParseDecision name = (case find (\<lambda>d. equal_fold name (decision_string d)) [Report, Restart, Replace] of
     Some d \<Rightarrow> Inr d
   | None \<Rightarrow> Inl (UnknownDecision name))"

section \<open>The table\<close>

type_synonym table = "(string \<times> decision) list"

definition defaults :: table where
  "defaults =
    [(ActionReplaceVM, Replace),
     (ActionRestartVM, Restart),
     (ActionRestartBM, Restart),
     (ActionNone, Report),
     (ActionComponentReset, Report),
     (ActionContactSupport, Report),
     (ActionRunFieldDiag, Report),
     (ActionRunDCGMEUD, Report),
     (ActionCustom, Report),
     (ActionUnknown, Report)]"

definition Default :: table where
  "Default = defaults"

text \<open>
  \<open>New\<close>: the overrides are gone through in the order of their names, and the first one that is
  wrong is named.
\<close>

fun apply_overrides :: "(string \<times> string) list \<Rightarrow> table \<Rightarrow> decision_error + table" where
  "apply_overrides [] t = Inr t"
| "apply_overrides ((action, v) # rest) t =
     (let name = trim_space action in
      if name = [] then Inl EmptyAction
      else (case ParseDecision v of
              Inl err \<Rightarrow> Inl (BadEntry name err)
            | Inr d \<Rightarrow> apply_overrides rest (AList.update name d t)))"

definition New :: "(string \<times> string) list \<Rightarrow> decision_error + table" where
  "New overrides = apply_overrides (sort_key fst overrides) Default"

text \<open>\<open>ParseOverrides\<close>: one pair after another; the first that is wrong ends the loop.\<close>

fun parse_pairs :: "string list \<Rightarrow> (string \<times> string) list \<Rightarrow> decision_error + (string \<times> string) list" where
  "parse_pairs [] out = Inr out"
| "parse_pairs (piece # rest) out =
     (let pair = trim_space piece in
      if pair = [] then parse_pairs rest out
      else (case cut CHR ''='' pair of (before, after, found) \<Rightarrow>
        let action = trim_space before in
        if \<not> found \<or> action = [] then Inl (NotAPair pair)
        else if map_of out action \<noteq> None then Inl (ListedTwice action)
        else parse_pairs rest (AList.update action (trim_space after) out)))"

definition ParseOverrides :: "string \<Rightarrow> decision_error + (string \<times> string) list" where
  "ParseOverrides s = parse_pairs (split_on CHR '','' s) []"

definition Entries :: "table \<Rightarrow> table" where
  "Entries t = t"

definition CustomActions :: "table \<Rightarrow> string list" where
  "CustomActions t = sort (filter (\<lambda>action. \<not> IsKnownAction action) (map fst t))"

definition Lookup :: "table \<Rightarrow> string \<Rightarrow> decision \<times> bool" where
  "Lookup t action = (case map_of t action of None \<Rightarrow> (Report, False) | Some d \<Rightarrow> (d, True))"

section \<open>Deciding a signal\<close>

record outcome =
  o_decision :: decision
  o_action :: string
  o_reason :: string

text \<open>The loop over the actions: the best outcome so far, whether the table knows its action, and
  whether there is one.\<close>

definition decide_step :: "table \<Rightarrow> string \<Rightarrow> outcome \<times> bool \<times> bool \<Rightarrow> outcome \<times> bool \<times> bool" where
  "decide_step t action st = (case st of (best, bestKnown, found) \<Rightarrow>
     (case Lookup t action of (d, known) \<Rightarrow>
        if \<not> found \<or> MoreDisruptiveThan d (o_decision best) \<or> (known \<and> \<not> bestKnown \<and> d = o_decision best)
        then (\<lparr>o_decision = d, o_action = action, o_reason = []\<rparr>, known, True)
        else (best, bestKnown, found)))"

definition zero_outcome :: outcome where
  "zero_outcome = \<lparr>o_decision = NoDecision, o_action = [], o_reason = []\<rparr>"

definition truncated_note :: string where
  "truncated_note = ''; the source dropped trailing events, so a more disruptive action may have been lost''"

definition Decide :: "table \<Rightarrow> signal \<Rightarrow> outcome" where
  "Decide t s = (case fold (decide_step t) (s_actions s) (zero_outcome, False, False) of
     (best, bestKnown, found) \<Rightarrow>
       let best = (if \<not> found
                   then \<lparr>o_decision = Report, o_action = [], o_reason = ''the signal carries no recommended action''\<rparr>
                   else if bestKnown
                   then best\<lparr>o_reason := o_action best @ '' maps to '' @ decision_string (o_decision best)\<rparr>
                   else best\<lparr>o_reason := o_action best @ '' is not in the decision table''\<rparr>)
       in if s_truncated s then best\<lparr>o_reason := o_reason best @ truncated_note\<rparr> else best)"

section \<open>What the table guarantees\<close>

text \<open>A well-formed table lists an action once and holds no zero value.\<close>

definition wf_table :: "table \<Rightarrow> bool" where
  "wf_table t \<longleftrightarrow> distinct (map fst t) \<and> (\<forall>a. map_of t a \<noteq> Some NoDecision)"

lemma Lookup_decision: "wf_table t \<Longrightarrow> fst (Lookup t a) \<in> {Report, Restart, Replace}"
  by (cases "fst (Lookup t a)") (auto simp: wf_table_def Lookup_def split: option.splits)

lemma Lookup_unknown: "\<not> snd (Lookup t a) \<Longrightarrow> fst (Lookup t a) = Report"
  by (auto simp: Lookup_def split: option.splits)

lemma distinct_defaults: "distinct (map fst defaults)"
  by (simp add: defaults_def action_defs)

lemma wf_table_Default: "wf_table Default"
proof -
  have "map_of Default a \<noteq> Some NoDecision" for a
    by (auto simp: Default_def defaults_def dest!: map_of_SomeD)
  with distinct_defaults show ?thesis by (simp add: wf_table_def Default_def)
qed

lemma ParseDecision_decision: "ParseDecision name = Inr d \<Longrightarrow> d \<in> {Report, Restart, Replace}"
  by (auto simp: ParseDecision_def split: option.splits dest: find_SomeD simp del: find.simps)

lemma wf_table_update: "wf_table t \<Longrightarrow> d \<noteq> NoDecision \<Longrightarrow> wf_table (AList.update a d t)"
  by (auto simp: wf_table_def distinct_update update_conv)

lemma apply_overrides_wf: "apply_overrides os t = Inr t' \<Longrightarrow> wf_table t \<Longrightarrow> wf_table t'"
proof (induction os t rule: apply_overrides.induct)
  case (2 action v rest t)
  then show ?case
    by (auto simp: Let_def split: if_splits sum.splits dest: ParseDecision_decision
        intro: wf_table_update)
qed simp

subsection \<open>Deciding picks the first action of the greatest weight\<close>

text \<open>
  The weight of an action: how disruptive its decision is and then whether the table knows it.
  A reference for the loop: the first action of the greatest weight.
\<close>

definition weight :: "table \<Rightarrow> string \<Rightarrow> nat \<times> nat" where
  "weight t a = (case Lookup t a of (d, known) \<Rightarrow> (rank d, of_bool known))"

lemma decide_step_beats:
  assumes "wf_table t" and "d = fst (Lookup t b)" and "k = snd (Lookup t b)"
  shows "decide_step t a (\<lparr>o_decision = d, o_action = b, o_reason = []\<rparr>, k, True) =
    (let c = if weight t b < weight t a then a else b
     in (\<lparr>o_decision = fst (Lookup t c), o_action = c, o_reason = []\<rparr>, snd (Lookup t c), True))"
proof -
  have "rank (fst (Lookup t a)) = rank d \<longleftrightarrow> fst (Lookup t a) = d"
    using Lookup_decision [OF assms(1), of a] Lookup_decision [OF assms(1), of b] assms(2)
    by auto
  then show ?thesis using assms(2,3)
    by (auto simp: decide_step_def weight_def MoreDisruptiveThan_def Let_def split: prod.splits)
qed

lemma decide_loop:
  assumes "wf_table t" and "as \<noteq> []"
  shows "\<exists>a. first_greatest (weight t) as a \<and>
    fold (decide_step t) as (zero_outcome, False, False) =
      (\<lparr>o_decision = fst (Lookup t a), o_action = a, o_reason = []\<rparr>, snd (Lookup t a), True)"
  using assms(2)
proof (induction as rule: rev_nonempty_induct)
  case (single x)
  then show ?case by (auto simp: decide_step_def split: prod.splits)
next
  case (snoc x xs)
  then obtain a where a: "first_greatest (weight t) xs a"
    "fold (decide_step t) xs (zero_outcome, False, False) =
      (\<lparr>o_decision = fst (Lookup t a), o_action = a, o_reason = []\<rparr>, snd (Lookup t a), True)"
    by blast
  let ?c = "if weight t a < weight t x then x else a"
  have "first_greatest (weight t) (xs @ [x]) ?c"
    using a(1) by (rule first_greatest_snoc)
  moreover have "fold (decide_step t) (xs @ [x]) (zero_outcome, False, False) =
      (\<lparr>o_decision = fst (Lookup t ?c), o_action = ?c, o_reason = []\<rparr>, snd (Lookup t ?c), True)"
    using a(2) decide_step_beats [OF assms(1) refl refl, of x a] by (simp add: Let_def)
  ultimately show ?case by blast
qed

lemma Decide_no_action:
  "s_actions s = [] \<Longrightarrow> o_decision (Decide t s) = Report \<and> o_action (Decide t s) = []"
  by (simp add: Decide_def zero_outcome_def Let_def)

lemma Decide_action:
  assumes "wf_table t" and "s_actions s \<noteq> []"
  shows "first_greatest (weight t) (s_actions s) (o_action (Decide t s)) \<and>
    o_decision (Decide t s) = fst (Lookup t (o_action (Decide t s)))"
  using decide_loop [OF assms] by (auto simp: Decide_def Let_def)

subsection \<open>Overrides\<close>

lemma apply_overrides_ok:
  "(\<exists>t'. apply_overrides os t = Inr t') \<longleftrightarrow>
   (\<forall>(k, v) \<in> set os. trim_space k \<noteq> [] \<and> (\<exists>d. ParseDecision v = Inr d))"
  by (induction os t rule: apply_overrides.induct) (auto simp: Let_def split: sum.splits)

lemma apply_overrides_other:
  "apply_overrides os t = Inr t' \<Longrightarrow> a \<notin> (trim_space \<circ> fst) ` set os \<Longrightarrow> map_of t' a = map_of t a"
  by (induction os t rule: apply_overrides.induct)
    (auto simp: Let_def update_conv' split: if_splits sum.splits)

lemma apply_overrides_listed:
  "apply_overrides os t = Inr t' \<Longrightarrow> distinct (map (trim_space \<circ> fst) os) \<Longrightarrow> (k, v) \<in> set os \<Longrightarrow>
   \<exists>d. ParseDecision v = Inr d \<and> map_of t' (trim_space k) = Some d"
proof (induction os t rule: apply_overrides.induct)
  case (2 action v' rest t)
  then obtain d where d: "trim_space action \<noteq> []" "ParseDecision v' = Inr d"
      "apply_overrides rest (AList.update (trim_space action) d t) = Inr t'"
    by (auto simp: Let_def split: if_splits sum.splits)
  show ?case
  proof (cases "(k, v) \<in> set rest")
    case True
    with 2 d show ?thesis by auto
  next
    case False
    with "2.prems" have "k = action" "v = v'" by auto
    moreover have "map_of t' (trim_space action) = map_of (AList.update (trim_space action) d t) (trim_space action)"
      using "2.prems"(2) by (intro apply_overrides_other [OF d(3)]) (auto simp: image_comp)
    ultimately show ?thesis using d(2) by (simp add: update_conv')
  qed
qed simp

lemma Lookup_listed: "map_of t a = Some d \<Longrightarrow> Lookup t a = (d, True)"
  by (simp add: Lookup_def)

subsection \<open>The command line form\<close>

definition render_pair :: "string \<times> string \<Rightarrow> string" where
  "render_pair p = fst p @ ''='' @ snd p"

text \<open>An entry that can be written down: both parts without white space around them, the action
  not empty, and neither with the characters that separate.\<close>

definition writable :: "string \<times> string \<Rightarrow> bool" where
  "writable p \<longleftrightarrow> fst p \<noteq> [] \<and> clean (fst p) \<and> clean (snd p) \<and>
     CHR ''='' \<notin> set (fst p) \<and> CHR '','' \<notin> set (fst p) \<and> CHR '','' \<notin> set (snd p)"

lemma parse_pairs_render:
  assumes "\<forall>p \<in> set ps. writable p" and "distinct (map fst out @ map fst ps)"
  shows "parse_pairs (map render_pair ps) out = Inr (out @ ps)"
  using assms
proof (induction ps arbitrary: out)
  case Nil
  then show ?case by simp
next
  case (Cons p ps)
  obtain a v where p: "p = (a, v)" by (cases p)
  with Cons.prems have w: "writable (a, v)" by simp
  have c: "clean (a @ CHR ''='' # v)"
    using w space_runes_no_punctuation(1) by (intro clean_joined) (auto simp: writable_def)
  have new: "a \<notin> set (map fst out)" using Cons.prems p by auto
  then have "AList.update a v out = out @ [(a, v)]" and "map_of out a = None"
    by (induction out) (auto simp: map_of_eq_None_iff)
  moreover have "parse_pairs (map render_pair ps) (out @ [(a, v)]) = Inr ((out @ [(a, v)]) @ ps)"
    using Cons.prems p by (intro Cons.IH) auto
  moreover have "render_pair p = a @ CHR ''='' # v" using p by (simp add: render_pair_def)
  ultimately show ?case using w c p
    by (simp add: cut_append writable_def Let_def)
qed

section \<open>Properties\<close>

text \<open>C39: Deciding a signal picks, among its recommended actions, the first one of the greatest
  weight, where a more disruptive decision outweighs a less disruptive one and, between equal
  decisions, an action the table lists outweighs one it does not; the decision is the table's for
  that action. A signal without actions is reported.\<close>

theorem Decide_most_disruptive:
  assumes "wf_table t"
  shows "if s_actions s = [] then o_decision (Decide t s) = Report \<and> o_action (Decide t s) = []
    else first_greatest (weight t) (s_actions s) (o_action (Decide t s)) \<and>
      o_decision (Decide t s) = fst (Lookup t (o_action (Decide t s)))"
  using Decide_no_action Decide_action [OF assms] by auto

definition example_signal :: signal where
  "example_signal = \<lparr>s_origin = OriginNodeCondition, s_node = ''gpu-w-1'', s_check = ''GpuXidError'', s_id = [],
     s_actions = [''MY_FIX'', ''NONE'', ''RESTART_VM'', ''RESTART_BM''], s_error_codes = [], s_gpu_uuids = [],
     s_truncated = True, s_request = []\<rparr>"

theorem Decide_most_disruptive_witness:
  "wf_table Default \<and>
   first_greatest (weight Default) (s_actions example_signal) (o_action (Decide Default example_signal)) \<and>
   o_action (Decide Default example_signal) = ''RESTART_VM''"
proof -
  have "s_actions example_signal \<noteq> []" by (simp add: example_signal_def)
  then have "first_greatest (weight Default) (s_actions example_signal) (o_action (Decide Default example_signal))"
    using Decide_most_disruptive [OF wf_table_Default, of example_signal] by simp
  moreover have "o_action (Decide Default example_signal) = ''RESTART_VM''"
    by code_simp
  ultimately show ?thesis using wf_table_Default by simp
qed

text \<open>A truncated signal is decided exactly as the same signal that is not truncated, so it
  never escalates on what may have been lost; only its reason gains the note that says so.\<close>

theorem Decide_truncated:
  "Decide t (s\<lparr>s_truncated := True\<rparr>) =
   (Decide t (s\<lparr>s_truncated := False\<rparr>))
     \<lparr>o_reason := o_reason (Decide t (s\<lparr>s_truncated := False\<rparr>)) @ truncated_note\<rparr>"
  by (simp add: Decide_def Let_def split: prod.split)

text \<open>A table is built exactly when every override names an action and a decision. Then it is
  well formed, every listed action has the decision its override names, and every other action
  keeps the one it has by default.\<close>

theorem New_overrides:
  assumes "distinct (map (trim_space \<circ> fst) os)"
  shows "case New os of
      Inl _ \<Rightarrow> \<exists>(k, v) \<in> set os. trim_space k = [] \<or> (\<exists>e. ParseDecision v = Inl e)
    | Inr t \<Rightarrow> wf_table t \<and>
        (\<forall>(k, v) \<in> set os. \<exists>d. ParseDecision v = Inr d \<and> Lookup t (trim_space k) = (d, True)) \<and>
        (\<forall>a. a \<notin> (trim_space \<circ> fst) ` set os \<longrightarrow> Lookup t a = Lookup Default a)"
proof (cases "New os")
  case (Inl e)
  then have "\<not> (\<exists>t'. apply_overrides (sort_key fst os) Default = Inr t')"
    by (simp add: New_def)
  then obtain k v where kv: "(k, v) \<in> set os" "trim_space k = [] \<or> (\<nexists>d. ParseDecision v = Inr d)"
    unfolding apply_overrides_ok by auto
  then have "trim_space k = [] \<or> (\<exists>e. ParseDecision v = Inl e)"
    by (cases "ParseDecision v") auto
  with kv(1) Inl show ?thesis by auto
next
  case (Inr t)
  then have ok: "apply_overrides (sort_key fst os) Default = Inr t" by (simp add: New_def)
  have d: "distinct (map (trim_space \<circ> fst) (sort_key fst os))"
    using assms by (metis (no_types) distinct_map distinct_sort set_sort)
  have "\<exists>d. ParseDecision v = Inr d \<and> Lookup t (trim_space k) = (d, True)" if "(k, v) \<in> set os" for k v
    using apply_overrides_listed [OF ok d, of k v] that by (auto intro: Lookup_listed)
  moreover have "Lookup t a = Lookup Default a" if "a \<notin> (trim_space \<circ> fst) ` set os" for a
    using apply_overrides_other [OF ok] that by (simp add: Lookup_def)
  ultimately show ?thesis using Inr apply_overrides_wf [OF ok wf_table_Default] by auto
qed

theorem New_overrides_witness:
  "distinct (map (trim_space \<circ> fst) [(''COMPONENT_RESET'', ''restart'')]) \<and>
   (\<exists>t. New [(''COMPONENT_RESET'', ''restart'')] = Inr t \<and> Lookup t ''REPLACE_VM'' = Lookup Default ''REPLACE_VM'')"
proof -
  have h: "distinct (map (trim_space \<circ> fst) [(''COMPONENT_RESET'', ''restart'')])" by simp
  have t: "trim_space ''COMPONENT_RESET'' = ''COMPONENT_RESET''"
    by (auto intro!: trim_space_clean clean_printable)
  have p: "ParseDecision ''restart'' = Inr Restart" by code_simp
  then obtain u where u: "New [(''COMPONENT_RESET'', ''restart'')] = Inr u"
    using t by (auto simp: New_def)
  with New_overrides [OF h] t show ?thesis by auto
qed

text \<open>What comes out of the overrides, the table or the error and the entry it names, does not
  depend on the order a map of them is gone through.\<close>

theorem New_order_irrelevant:
  assumes "mset os = mset os'" and "distinct (map fst os)"
  shows "New os = New os'"
proof -
  have "sort_key fst os = sort_key fst os'"
    using assms by (intro sort_key_unique) (auto simp: distinct_map)
  then show ?thesis by (simp add: New_def)
qed

theorem New_order_irrelevant_witness:
  "mset [(''B'', ''x''), (''A'', ''y'')] = mset [(''A'', ''y''), (''B'', ''x'')] \<and>
   distinct (map fst [(''B'', ''x''), (''A'', ''y'')]) \<and>
   New [(''B'', ''x''), (''A'', ''y'')] = New [(''A'', ''y''), (''B'', ''x'')]"
proof -
  have "mset [(''B'', ''x''), (''A'', ''y'')] = mset [(''A'', ''y''), (''B'', ''x'')]"
    "distinct (map fst [(''B'', ''x''), (''A'', ''y'')])" by simp_all
  then show ?thesis using New_order_irrelevant by blast
qed

text \<open>Entries written as comma-separated pairs are read back as they were written, in order.\<close>

theorem ParseOverrides_roundtrip:
  assumes "\<forall>p \<in> set ps. writable p" and "distinct (map fst ps)"
  shows "ParseOverrides (join '','' (map render_pair ps)) = Inr ps"
proof (cases "ps = []")
  case True
  then show ?thesis by (simp add: ParseOverrides_def)
next
  case False
  then have "split_on CHR '','' (join '','' (map render_pair ps)) = map render_pair ps"
    using assms(1) by (intro split_on_join) (auto simp: writable_def render_pair_def)
  then show ?thesis using parse_pairs_render [of ps "[]"] assms
    by (simp add: ParseOverrides_def)
qed

theorem ParseOverrides_roundtrip_witness:
  "ParseOverrides (join '','' (map render_pair [(''COMPONENT_RESET'', ''restart''), (''reset-fabric'', ''report'')])) =
     Inr [(''COMPONENT_RESET'', ''restart''), (''reset-fabric'', ''report'')]"
proof -
  have "\<forall>p \<in> set [(''COMPONENT_RESET'', ''restart''), (''reset-fabric'', ''report'')]. writable p"
    by (auto simp: writable_def intro!: clean_printable)
  moreover have "distinct (map fst [(''COMPONENT_RESET'', ''restart''), (''reset-fabric'', ''report'')])"
    by simp
  ultimately show ?thesis using ParseOverrides_roundtrip by blast
qed

text \<open>A decision name is read whatever the case of its letters, and an ASCII name that is read
  is the name of that decision but for case.\<close>

theorem ParseDecision_case_insensitive:
  assumes "ascii name" and "d \<noteq> NoDecision"
  shows "ParseDecision name = Inr d \<longleftrightarrow> map lower name = map lower (decision_string d)"
proof -
  have fold: "equal_fold name (decision_string e) \<longleftrightarrow> map lower name = map lower (decision_string e)" for e
    using assms(1) equal_fold_ascii equal_fold_lower by blast
  have "map lower (decision_string Report) \<noteq> map lower (decision_string Restart)"
    "map lower (decision_string Report) \<noteq> map lower (decision_string Replace)"
    "map lower (decision_string Restart) \<noteq> map lower (decision_string Replace)"
    by code_simp+
  with assms(2) show ?thesis
    by (cases d) (auto simp: ParseDecision_def fold simp del: decision_string.simps)
qed

theorem ParseDecision_case_insensitive_witness:
  "ascii ''rEPLACE'' \<and> ParseDecision ''rEPLACE'' = Inr Replace"
proof -
  have "ascii ''rEPLACE''" by (simp add: ascii_def)
  moreover have "map lower ''rEPLACE'' = map lower (decision_string Replace)" by code_simp
  ultimately show ?thesis using ParseDecision_case_insensitive [of "''rEPLACE''" Replace] by simp
qed

end
