(* ===== verification/Condition.thy ===== *)
theory Condition
  imports Signal
begin

text \<open>
  Package \<open>condition\<close> (\<open>internal/signal/condition/condition.go\<close> and \<open>source.go\<close>): decoding the
  node conditions NVSentinel writes, whose message concatenates events, each ending in its
  recommended action, and may end in an event that was cut.
\<close>

section \<open>The patterns\<close>

definition eventSeparator :: char where
  "eventSeparator = CHR '';''"

definition truncationSuffix :: string where
  "truncationSuffix = ''...''"

definition actionMarker :: string where
  "actionMarker = ''Recommended Action=''"

text \<open>
  The character classes of the patterns: \<open>[A-Z_]\<close> and \<open>\S\<close>, everything but the ASCII white space
  tab, line feed, form feed, carriage return and space.
\<close>

definition action_char :: "char \<Rightarrow> bool" where
  "action_char c \<longleftrightarrow> (65 \<le> (of_char c :: nat) \<and> (of_char c :: nat) \<le> 90) \<or> c = CHR ''_''"

definition re_space :: "char \<Rightarrow> bool" where
  "re_space c \<longleftrightarrow> (of_char c :: nat) \<in> {9, 10, 12, 13, 32}"

definition not_space :: "char \<Rightarrow> bool" where
  "not_space c \<longleftrightarrow> \<not> re_space c"

text \<open>
  A pattern \<open>marker([class]+)\<close> is its marker and its class. \<open>FindAllStringSubmatch\<close> goes through the
  text from the left, takes the longest run of the class after a marker, and goes on behind it.
\<close>

type_synonym pattern = "string \<times> (char \<Rightarrow> bool)"

definition reAction :: pattern where
  "reAction = (actionMarker, action_char)"

definition reErrorCode :: pattern where
  "reErrorCode = (''ErrorCode:'', not_space)"

definition reGpuUUID :: pattern where
  "reGpuUUID = (''GPU_UUID:'', not_space)"

definition run_after :: "pattern \<Rightarrow> string \<Rightarrow> string" where
  "run_after re s = (if prefix (fst re) s then takeWhile (snd re) (drop (length (fst re)) s) else [])"

function find_all :: "pattern \<Rightarrow> string \<Rightarrow> string list" where
  "find_all re [] = []"
| "find_all re (x # s) =
     (let run = run_after re (x # s) in
      if run \<noteq> [] then run # find_all re (drop (length (fst re) + length run) (x # s))
      else find_all re s)"
  by pat_completeness auto
termination
  by (relation "measure (length \<circ> snd)") (auto simp: run_after_def split: if_splits)

text \<open>
  \<open>reTerminalAction\<close> is \<open>Recommended Action=([A-Z_]+)\s*$\<close>: the leftmost marker whose run is followed
  by white space only. The class and the white space share no character, so the run is the longest.
\<close>

fun find_terminal :: "string \<Rightarrow> string option" where
  "find_terminal [] = None"
| "find_terminal (x # s) =
     (let run = run_after reAction (x # s) in
      if run \<noteq> [] \<and> list_all re_space (drop (length actionMarker + length run) (x # s)) then Some run
      else find_terminal s)"

section \<open>Parsing a condition\<close>

definition isComplete :: "string \<Rightarrow> bool" where
  "isComplete event = (case find_terminal event of None \<Rightarrow> False | Some action \<Rightarrow> IsKnownAction action)"

definition events :: "string \<Rightarrow> bool \<Rightarrow> string list" where
  "events message truncated =
     (let message = (if truncated then trim_suffix message truncationSuffix else message);
          out = filter (\<lambda>ev. trim_space ev \<noteq> []) (split_on eventSeparator message)
      in if truncated \<and> out \<noteq> [] \<and> \<not> isComplete (last out) then butlast out else out)"

definition captures :: "pattern \<Rightarrow> string list \<Rightarrow> string list" where
  "captures re evs = dedup_onto [] (concat (map (find_all re) evs))"

definition Parse :: "string \<Rightarrow> string \<Rightarrow> signal option" where
  "Parse conditionType message =
     (if \<not> contains message actionMarker then None
      else
        let truncated = suffix (eventSeparator # truncationSuffix) message;
            evs = events message truncated
        in Some \<lparr>s_origin = OriginNodeCondition, s_node = [], s_check = conditionType, s_id = [],
             s_actions = captures reAction evs, s_error_codes = captures reErrorCode evs,
             s_gpu_uuids = captures reGpuUUID evs, s_truncated = truncated, s_request = []\<rparr>)"

section \<open>The source\<close>

definition SourceName :: string where
  "SourceName = ''NodeCondition''"

text \<open>The signals of one node: its conditions that are True and that NVSentinel wrote.\<close>

definition node_signals :: "node \<Rightarrow> signal list" where
  "node_signals node = List.map_filter (\<lambda>cond.
     if cond_status cond \<noteq> ''True'' then None
     else map_option (\<lambda>sig. sig\<lparr>s_node := n_name node\<rparr>) (Parse (cond_type cond) (cond_message cond)))
     (n_conditions node)"

definition by_node_and_check :: "signal \<Rightarrow> string \<times> string" where
  "by_node_and_check sig = (s_node sig, s_check sig)"

definition condition_signals :: "node list \<Rightarrow> signal list" where
  "condition_signals nodes = sort_key by_node_and_check (concat (map node_signals nodes))"

definition Collect_conditions :: "env \<Rightarrow> ((call, 'w) world_scheme, go_error + signal list) state" where
  "Collect_conditions E = do {
     nodes \<leftarrow> ask ListNodes (list_nodes E);
     State_Monad.return (case nodes of
         Inl err \<Rightarrow> Inl (Wrapped ''list nodes'' err)
       | Inr nodes \<Rightarrow> Inr (condition_signals nodes))
   }"

text \<open>The conditions keep the contract of a source.\<close>

lemma Parse_fields:
  "Parse ty msg = Some sig \<Longrightarrow> s_origin sig = OriginNodeCondition \<and> s_check sig = ty \<and> s_request sig = []"
  by (auto simp: Parse_def Let_def split: if_splits)

lemma node_signals_fields:
  "sig \<in> set (node_signals n) \<Longrightarrow>
     s_origin sig = OriginNodeCondition \<and> s_node sig = n_name n \<and> s_request sig = []"
  by (auto simp: node_signals_def in_set_map_filter dest!: Parse_fields split: if_splits)

interpretation conditions: signal_source condition_signals by_node_and_check node_signals OriginNodeCondition
proof
  fix objs show "sorted (map by_node_and_check (condition_signals objs))"
    by (simp add: condition_signals_def)
next
  fix objs show "mset (condition_signals objs) = (\<Sum>obj \<leftarrow> objs. mset (node_signals obj))"
    by (simp add: condition_signals_def mset_concat comp_def)
qed (simp add: node_signals_fields)

lemma emits_Collect_conditions [emits_rules]:
  "(\<And>r. P (ListNodes r)) \<Longrightarrow> emits P (Collect_conditions E)"
  unfolding Collect_conditions_def by (intro emits_rules)

section \<open>Messages as NVSentinel writes them\<close>

text \<open>An event is a body, which neither separates events nor names an action, and its recommended
  action. The message ends every event in the separator.\<close>

type_synonym event = "string \<times> string"

definition event_text :: "event \<Rightarrow> string" where
  "event_text e = fst e @ actionMarker @ snd e"

definition wf_event :: "event \<Rightarrow> bool" where
  "wf_event e \<longleftrightarrow> \<not> contains (fst e) actionMarker \<and> eventSeparator \<notin> set (fst e) \<and> IsKnownAction (snd e)"

definition message_of :: "string list \<Rightarrow> string" where
  "message_of evs = concat (map (\<lambda>ev. ev @ [eventSeparator]) evs)"

lemma known_action_chars: "IsKnownAction a \<Longrightarrow> a \<noteq> [] \<and> list_all action_char a"
proof -
  have "\<forall>a \<in> set knownActions. a \<noteq> [] \<and> list_all action_char a"
    by (simp add: knownActions_def action_defs action_char_def)
  then show "IsKnownAction a \<Longrightarrow> a \<noteq> [] \<and> list_all action_char a"
    by (auto simp: IsKnownAction_def)
qed

lemma takeWhile_all: "list_all P xs \<Longrightarrow> takeWhile P xs = xs"
  by (simp add: list_all_iff)

text \<open>The marker's first letter occurs in it once, so it never overlaps itself.\<close>

lemma marker_starts_once: "0 < k \<Longrightarrow> k < length actionMarker \<Longrightarrow> actionMarker ! k \<noteq> actionMarker ! 0"
proof -
  have "\<forall>k \<in> set [1 ..< length actionMarker]. actionMarker ! k \<noteq> actionMarker ! 0"
    by (simp add: actionMarker_def upt_rec)
  then show "0 < k \<Longrightarrow> k < length actionMarker \<Longrightarrow> actionMarker ! k \<noteq> actionMarker ! 0"
    by auto
qed

lemma no_marker_before:
  assumes "\<not> contains body actionMarker" and "body \<noteq> []"
  shows "\<not> prefix actionMarker (body @ actionMarker @ rest)"
proof
  assume p: "prefix actionMarker (body @ actionMarker @ rest)"
  show False
  proof (cases "length actionMarker \<le> length body")
    case True
    with p have "prefix actionMarker body"
      by (metis prefix_length_prefix prefixI)
    with assms(1) show False by (auto simp: contains_iff prefix_def)
  next
    case False
    let ?k = "length body"
    obtain zs where zs: "body @ actionMarker @ rest = actionMarker @ zs" using p by (auto simp: prefix_def)
    have "actionMarker ! ?k = (actionMarker @ zs) ! ?k" using False by (simp add: nth_append)
    also have "\<dots> = (body @ actionMarker @ rest) ! ?k" by (simp only: zs)
    also have "\<dots> = actionMarker ! 0" by (simp add: nth_append actionMarker_def)
    finally show False using marker_starts_once [of ?k] assms(2) False by simp
  qed
qed

lemma contains_tail: "\<not> contains (x # s) sub \<Longrightarrow> \<not> contains s sub"
  by simp

lemma no_marker_cut:
  assumes "\<not> contains body actionMarker"
  shows "j < length actionMarker \<Longrightarrow> \<not> contains (body @ take j actionMarker) actionMarker"
  using assms
proof (induction body)
  case Nil
  then show ?case by (auto simp: contains_iff dest!: arg_cong [where f = length])
next
  case (Cons x body)
  have "\<not> prefix actionMarker ((x # body) @ take j actionMarker)"
  proof
    assume "prefix actionMarker ((x # body) @ take j actionMarker)"
    then have "prefix actionMarker (((x # body) @ take j actionMarker) @ drop j actionMarker)"
      by (rule prefix_prefix)
    then show False using no_marker_before [OF Cons.prems(2), of "[]"] by simp
  qed
  with Cons show ?case by simp
qed

lemma run_after_skip:
  "\<not> contains (x # body) actionMarker \<Longrightarrow> run_after reAction ((x # body) @ actionMarker @ rest) = []"
  using no_marker_before [of "x # body" rest] by (simp add: run_after_def reAction_def)

lemma find_all_skip:
  "\<not> contains body actionMarker \<Longrightarrow>
   find_all reAction (body @ actionMarker @ rest) = find_all reAction (actionMarker @ rest)"
  by (induction body) (use run_after_skip in \<open>auto simp: Let_def\<close>)

lemma find_terminal_skip:
  "\<not> contains body actionMarker \<Longrightarrow>
   find_terminal (body @ actionMarker @ rest) = find_terminal (actionMarker @ rest)"
  by (induction body) (use run_after_skip in \<open>auto simp: Let_def\<close>)

lemma find_terminal_no_marker: "\<not> contains s actionMarker \<Longrightarrow> find_terminal s = None"
  by (induction s) (auto simp: Let_def run_after_def reAction_def)

lemma run_after_marker:
  "list_all action_char a \<Longrightarrow> run_after reAction (actionMarker @ a) = a"
  by (simp add: run_after_def reAction_def takeWhile_all)

lemma find_all_marker:
  assumes "list_all action_char a" and "a \<noteq> []"
  shows "find_all reAction (actionMarker @ a) = [a]"
proof -
  obtain c m where m: "actionMarker = c # m" by (simp add: actionMarker_def)
  have "run_after reAction (c # (m @ a)) = a"
    using run_after_marker [OF assms(1)] unfolding m append_Cons .
  moreover have "length (fst reAction) = Suc (length m)"
    unfolding reAction_def fst_conv m by simp
  ultimately show ?thesis using assms(2) unfolding m append_Cons by (simp add: Let_def)
qed

lemma find_terminal_marker:
  assumes "list_all action_char a"
  shows "find_terminal (actionMarker @ a) = (if a = [] then None else Some a)"
proof -
  obtain c m where m: "actionMarker = c # m" by (simp add: actionMarker_def)
  have "run_after reAction (c # (m @ a)) = a"
    using run_after_marker [OF assms(1)] unfolding m append_Cons .
  moreover have len: "length actionMarker = Suc (length m)" unfolding m by simp
  moreover have "find_terminal m = None"
    using len by (intro find_terminal_no_marker) (auto simp: contains_iff)
  ultimately show ?thesis unfolding m append_Cons by (cases "a = []") (auto simp: Let_def len)
qed

lemma event_find_all: "wf_event e \<Longrightarrow> find_all reAction (event_text e) = [snd e]"
  using known_action_chars [of "snd e"]
  by (simp add: event_text_def wf_event_def find_all_skip find_all_marker)

lemma event_complete: "wf_event e \<Longrightarrow> isComplete (event_text e)"
  using known_action_chars [of "snd e"]
  by (simp add: isComplete_def event_text_def wf_event_def find_terminal_skip find_terminal_marker)

lemma captures_events:
  "\<forall>e \<in> set es. wf_event e \<Longrightarrow> captures reAction (map event_text es) = dedup_onto [] (map snd es)"
proof -
  assume "\<forall>e \<in> set es. wf_event e"
  then have "concat (map (find_all reAction) (map event_text es)) = map snd es"
    by (induction es) (auto simp: event_find_all)
  then show ?thesis by (simp add: captures_def)
qed

text \<open>An event cut anywhere before its end does not pass for a complete one.\<close>

lemma cut_event_incomplete:
  assumes "wf_event e" and "k < length (event_text e)"
  shows "\<not> isComplete (take k (event_text e))"
proof -
  let ?b = "length (fst e)" and ?m = "length actionMarker"
  have nb: "\<not> contains (fst e) actionMarker" using assms(1) by (simp add: wf_event_def)
  consider "k < ?b + ?m" | "?b + ?m \<le> k" by linarith
  then show ?thesis
  proof cases
    case 1
    have "take k (event_text e) = take k (fst e) @ take (k - ?b) actionMarker"
      using 1 by (simp add: event_text_def)
    moreover have "\<not> contains (take k (fst e)) actionMarker"
      using nb unfolding contains_iff by (metis append_assoc append_take_drop_id)
    ultimately have "\<not> contains (take k (event_text e)) actionMarker"
      using 1 no_marker_cut [OF nb, of "k - ?b"] by (cases "k \<le> ?b") auto
    then show ?thesis by (simp add: isComplete_def find_terminal_no_marker)
  next
    case 2
    let ?a = "take (k - ?b - ?m) (snd e)"
    have a: "IsKnownAction (snd e)" using assms(1) by (simp add: wf_event_def)
    have t: "take k (event_text e) = fst e @ actionMarker @ ?a"
      using 2 by (simp add: event_text_def)
    have "length ?a < length (snd e)" using 2 assms(2) by (auto simp: event_text_def)
    then have "\<not> IsKnownAction ?a"
      using known_actions_prefix_free [OF _ a, of ?a] by (auto simp: take_is_prefix)
    moreover have "list_all action_char ?a"
      using known_action_chars [OF a] by (auto simp: list_all_iff dest: in_set_takeD)
    ultimately show ?thesis
      by (simp add: t isComplete_def find_terminal_skip [OF nb] find_terminal_marker)
  qed
qed

lemma separator_not_in_marker: "eventSeparator \<notin> set actionMarker"
  by (simp add: eventSeparator_def actionMarker_def)

lemma event_no_separator: "wf_event e \<Longrightarrow> eventSeparator \<notin> set (event_text e)"
  using known_action_chars [of "snd e"] separator_not_in_marker
  by (auto simp: wf_event_def event_text_def list_all_iff action_char_def eventSeparator_def)

lemma split_message:
  "\<forall>ev \<in> set evs. eventSeparator \<notin> set ev \<Longrightarrow>
   split_on eventSeparator (message_of evs @ rest) = evs @ split_on eventSeparator rest"
  by (induction evs) (auto simp: message_of_def split_on_append)

lemma event_not_blank: "wf_event e \<Longrightarrow> trim_space (event_text e) \<noteq> []"
  using space_rune_bytes
  by (intro trim_space_not_Nil [of "CHR ''=''"]) (auto simp: event_text_def actionMarker_def space_runes_no_punctuation)

lemma filter_blank_events:
  "\<forall>e \<in> set es. wf_event e \<Longrightarrow> filter (\<lambda>ev. trim_space ev \<noteq> []) (map event_text es) = map event_text es"
  by (auto simp: filter_id_conv event_not_blank)

lemma trim_space_Nil [simp]: "trim_space [] = []"
  by simp

lemma contains_message:
  "e \<in> set es \<Longrightarrow> contains (message_of (map event_text es) @ rest) actionMarker"
proof (induction es)
  case (Cons x es)
  then show ?case
  proof (cases "e = x")
    case True
    then have "message_of (map event_text (x # es)) @ rest =
        fst x @ actionMarker @ (snd x @ [eventSeparator] @ message_of (map event_text es) @ rest)"
      by (simp add: message_of_def event_text_def)
    then show ?thesis unfolding contains_iff by blast
  next
    case False
    with Cons have "contains (message_of (map event_text es) @ rest) actionMarker" by simp
    then obtain a b where "message_of (map event_text es) @ rest = a @ actionMarker @ b"
      by (auto simp: contains_iff)
    then have "message_of (map event_text (x # es)) @ rest = (event_text x @ [eventSeparator] @ a) @ actionMarker @ b"
      by (simp add: message_of_def)
    then show ?thesis unfolding contains_iff by blast
  qed
qed simp

text \<open>A marker without white space is found on either side of a space, never across it.\<close>

definition spaceless :: "pattern \<Rightarrow> bool" where
  "spaceless re \<longleftrightarrow> fst re \<noteq> [] \<and> CHR '' '' \<notin> set (fst re) \<and> \<not> snd re (CHR '' '')"

lemma spaceless_patterns: "spaceless reErrorCode" "spaceless reGpuUUID"
  by (simp_all add: spaceless_def reErrorCode_def reGpuUUID_def not_space_def re_space_def)

lemma prefix_before_space: "CHR '' '' \<notin> set m \<Longrightarrow> prefix m (t @ CHR '' '' # rest) \<longleftrightarrow> prefix m t"
proof (induction m arbitrary: t)
  case (Cons a m)
  then show ?case by (cases t) auto
qed simp

lemma run_after_space:
  assumes "spaceless re"
  shows "run_after re (t @ CHR '' '' # rest) = run_after re t"
proof (cases "prefix (fst re) t")
  case True
  then have "length (fst re) \<le> length t" by (rule prefix_length_le)
  then show ?thesis using True assms
    by (auto simp: run_after_def spaceless_def prefix_before_space takeWhile_append takeWhile_all list_all_iff)
next
  case False
  then show ?thesis using assms by (simp add: run_after_def spaceless_def prefix_before_space)
qed

lemma run_after_length: "run_after re s \<noteq> [] \<Longrightarrow> length (fst re) + length (run_after re s) \<le> length s"
proof -
  assume "run_after re s \<noteq> []"
  then have "prefix (fst re) s" by (auto simp: run_after_def split: if_splits)
  moreover have "length (takeWhile P xs) \<le> length xs" for P and xs :: string by (rule length_takeWhile_le)
  ultimately show ?thesis by (auto simp: run_after_def prefix_def)
qed

lemma find_all_space:
  assumes "spaceless re"
  shows "find_all re (t @ CHR '' '' # rest) = find_all re t @ find_all re rest"
proof (induction t rule: length_induct)
  case (1 t)
  show ?case
  proof (cases t)
    case Nil
    have "run_after re (CHR '' '' # rest) = []"
      using run_after_space [OF assms, of "[]" rest] assms by (simp add: run_after_def spaceless_def)
    then show ?thesis by (simp add: Nil)
  next
    case (Cons x s)
    note run = run_after_space [OF assms, of t rest]
    show ?thesis
    proof (cases "run_after re t = []")
      case True
      then show ?thesis using run 1 Cons by simp
    next
      case False
      let ?n = "length (fst re) + length (run_after re t)"
      have "?n \<le> length t" using run_after_length [OF False] .
      then have "drop ?n (t @ CHR '' '' # rest) = drop ?n t @ CHR '' '' # rest" by simp
      moreover have "find_all re (drop ?n t @ CHR '' '' # rest) = find_all re (drop ?n t) @ find_all re rest"
        using 1 False Cons by (simp add: run_after_def split: if_splits)
      ultimately have "find_all re (drop ?n (t @ CHR '' '' # rest)) = find_all re (drop ?n t) @ find_all re rest" by metis
      then show ?thesis using run False Cons by (simp add: Let_def)
    qed
  qed
qed

lemma find_all_none: "\<not> contains s (fst re) \<Longrightarrow> find_all re s = []"
  by (induction s) (auto simp: Let_def run_after_def)

lemma find_all_one:
  assumes "fst re \<noteq> []" and "list_all (snd re) a" and "a \<noteq> []"
  shows "find_all re (fst re @ a) = [a]"
proof -
  obtain c m where m: "fst re = c # m" using assms(1) by (cases "fst re") auto
  have "run_after re (c # m @ a) = a" using assms(2) m by (simp add: run_after_def takeWhile_all)
  then show ?thesis using assms(3) m by (simp add: Let_def)
qed

text \<open>What an event tells before its action, as words, each followed by a space: error codes, GPUs by UUID, and other text.\<close>

datatype item = ErrorCode string | GpuUUID string | Words string

fun item_text :: "item \<Rightarrow> string" where
  "item_text (ErrorCode c) = ''ErrorCode:'' @ c"
| "item_text (GpuUUID u) = ''GPU_UUID:'' @ u"
| "item_text (Words t) = t"

fun wf_item :: "item \<Rightarrow> bool" where
  "wf_item (ErrorCode c) \<longleftrightarrow> c \<noteq> [] \<and> list_all not_space c \<and> \<not> contains (item_text (ErrorCode c)) ''GPU_UUID:''"
| "wf_item (GpuUUID u) \<longleftrightarrow> u \<noteq> [] \<and> list_all not_space u \<and> \<not> contains (item_text (GpuUUID u)) ''ErrorCode:''"
| "wf_item (Words t) \<longleftrightarrow> \<not> contains t ''ErrorCode:'' \<and> \<not> contains t ''GPU_UUID:''"

definition written :: "item list \<times> string \<Rightarrow> event" where
  "written d = (concat (map (\<lambda>i. item_text i @ '' '') (fst d)), snd d)"

definition wf_written :: "item list \<times> string \<Rightarrow> bool" where
  "wf_written d \<longleftrightarrow> wf_event (written d) \<and> list_all wf_item (fst d)"

definition codes_told :: "item list \<Rightarrow> string list" where
  "codes_told is = [c. ErrorCode c \<leftarrow> is]"

definition gpus_told :: "item list \<Rightarrow> string list" where
  "gpus_told is = [u. GpuUUID u \<leftarrow> is]"

lemma find_all_items:
  assumes "spaceless re"
  shows "find_all re (concat (map (\<lambda>i. item_text i @ '' '') is) @ rest) = concat (map (\<lambda>i. find_all re (item_text i)) is) @ find_all re rest"
  by (induction "is") (simp_all add: find_all_space [OF assms])

lemma item_codes: "wf_item i \<Longrightarrow> find_all reErrorCode (item_text i) = codes_told [i]"
  using find_all_one [of reErrorCode] find_all_none [of _ reErrorCode]
  by (cases i) (simp_all add: reErrorCode_def codes_told_def del: find_all.simps contains.simps)

lemma item_gpus: "wf_item i \<Longrightarrow> find_all reGpuUUID (item_text i) = gpus_told [i]"
  using find_all_one [of reGpuUUID] find_all_none [of _ reGpuUUID]
  by (cases i) (simp_all add: reGpuUUID_def gpus_told_def del: find_all.simps contains.simps)

lemma action_no_colon: "IsKnownAction a \<Longrightarrow> CHR '':'' \<notin> set (actionMarker @ a)"
  using known_action_chars [of a] by (auto simp: actionMarker_def list_all_iff action_char_def)

lemma written_captures:
  assumes "wf_written d"
  shows "find_all reErrorCode (event_text (written d)) = codes_told (fst d)"
    and "find_all reGpuUUID (event_text (written d)) = gpus_told (fst d)"
proof -
  have colon: "CHR '':'' \<notin> set (actionMarker @ snd d)" using assms by (intro action_no_colon) (auto simp: wf_written_def wf_event_def written_def)
  have tail: "find_all re (actionMarker @ snd d) = []" if "CHR '':'' \<in> set (fst re)" for re
  proof (rule find_all_none)
    show "\<not> contains (actionMarker @ snd d) (fst re)"
    proof
      assume "contains (actionMarker @ snd d) (fst re)"
      then obtain a b where "actionMarker @ snd d = a @ fst re @ b" by (auto simp: contains_iff)
      then have "set (fst re) \<subseteq> set (actionMarker @ snd d)" by (metis Un_upper2 le_supI1 set_append sup_assoc sup_commute)
      with that colon show False by blast
    qed
  qed
  have wf: "\<forall>i \<in> set (fst d). wf_item i" using assms by (simp add: wf_written_def list_all_iff)
  have "concat (map (\<lambda>i. find_all reErrorCode (item_text i)) is) = codes_told is" if "\<forall>i \<in> set is. wf_item i" for "is"
    using that by (induction "is") (auto simp: item_codes codes_told_def)
  with wf tail [of reErrorCode] show "find_all reErrorCode (event_text (written d)) = codes_told (fst d)"
    by (simp add: event_text_def written_def find_all_items [OF spaceless_patterns(1)]) (simp add: reErrorCode_def)
  have "concat (map (\<lambda>i. find_all reGpuUUID (item_text i)) is) = gpus_told is" if "\<forall>i \<in> set is. wf_item i" for "is"
    using that by (induction "is") (auto simp: item_gpus gpus_told_def)
  with wf tail [of reGpuUUID] show "find_all reGpuUUID (event_text (written d)) = gpus_told (fst d)"
    by (simp add: event_text_def written_def find_all_items [OF spaceless_patterns(2)]) (simp add: reGpuUUID_def)
qed

lemma captures_written:
  assumes "list_all wf_written ds"
  shows "captures reErrorCode (map (event_text \<circ> written) ds) = dedup_onto [] (concat (map (codes_told \<circ> fst) ds))"
    and "captures reGpuUUID (map (event_text \<circ> written) ds) = dedup_onto [] (concat (map (gpus_told \<circ> fst) ds))"
proof -
  have "map (find_all reErrorCode) (map (event_text \<circ> written) ds) = map (codes_told \<circ> fst) ds"
    "map (find_all reGpuUUID) (map (event_text \<circ> written) ds) = map (gpus_told \<circ> fst) ds"
    using assms by (simp_all add: list_all_iff written_captures)
  then show "captures reErrorCode (map (event_text \<circ> written) ds) = dedup_onto [] (concat (map (codes_told \<circ> fst) ds))"
    "captures reGpuUUID (map (event_text \<circ> written) ds) = dedup_onto [] (concat (map (gpus_told \<circ> fst) ds))"
    by (simp_all only: captures_def)
qed

text \<open>A message of complete events: it is split into them, and so what is captured of it is what is captured of them.\<close>

lemma Parse_events:
  assumes "es \<noteq> []" and "\<forall>e \<in> set es. wf_event e"
  shows "Parse ty (message_of (map event_text es)) = Some \<lparr>s_origin = OriginNodeCondition, s_node = [], s_check = ty, s_id = [],
    s_actions = dedup_onto [] (map snd es), s_error_codes = captures reErrorCode (map event_text es),
    s_gpu_uuids = captures reGpuUUID (map event_text es), s_truncated = False, s_request = []\<rparr>"
proof -
  let ?msg = "message_of (map event_text es)"
  obtain e es' where es: "es = es' @ [e]" using assms(1) by (meson rev_exhaust)
  have "\<not> suffix (eventSeparator # truncationSuffix) ?msg"
    by (simp add: es message_of_def truncationSuffix_def eventSeparator_def suffix_def)
  moreover have "events ?msg False = map event_text es"
    using split_message [of "map event_text es" "[]"] assms(2)
    by (simp add: events_def event_no_separator filter_blank_events)
  moreover have "contains ?msg actionMarker"
    using contains_message [of e es "[]"] es by simp
  ultimately show ?thesis using assms(2) by (simp add: Parse_def captures_events Let_def)
qed

lemma Parse_message:
  assumes "es \<noteq> []" and "\<forall>e \<in> set es. wf_event e"
  shows "\<exists>sig. Parse ty (message_of (map event_text es)) = Some sig \<and> s_check sig = ty \<and>
    s_actions sig = dedup_onto [] (map snd es) \<and> \<not> s_truncated sig \<and>
    s_request sig = []"
  by (simp add: Parse_events [OF assms])

section \<open>Properties\<close>

text \<open>C38: What NVSentinel writes is read back. A message of complete events, of which each is a text with error codes, GPU UUIDs and other
  words followed by its recommended action, yields a signal for its check with the recommended actions, the error codes and
  the GPU UUIDs of all of them, each in order of first appearance and without repeats; it is not truncated, and there is nothing
  else in it.\<close>

theorem Parse_complete:
  assumes "ds \<noteq> []" and "list_all wf_written ds"
  shows "Parse ty (message_of (map (event_text \<circ> written) ds)) = Some \<lparr>s_origin = OriginNodeCondition, s_node = [], s_check = ty, s_id = [],
    s_actions = dedup_onto [] (map snd ds), s_error_codes = dedup_onto [] (concat (map (codes_told \<circ> fst) ds)),
    s_gpu_uuids = dedup_onto [] (concat (map (gpus_told \<circ> fst) ds)), s_truncated = False, s_request = []\<rparr>"
proof -
  have wf: "map written ds \<noteq> []" "\<forall>e \<in> set (map written ds). wf_event e"
    using assms by (auto simp: list_all_iff wf_written_def)
  have "snd \<circ> written = snd" by (simp add: fun_eq_iff written_def)
  then show ?thesis using Parse_events [OF wf, of ty] captures_written [OF assms(2)] by (simp add: map_map)
qed

text \<open>A message that was cut yields the actions of its complete events and nothing else: an event
  cut at any point before its end adds no action, whole or in part, and one cut right at its end adds
  its own. The signal says that it is truncated.\<close>

theorem Parse_truncated:
  assumes "\<forall>e \<in> set (es @ [e]). wf_event e" and "es \<noteq> []" and "k \<le> length (event_text e)"
  shows "\<exists>sig. Parse ty (message_of (map event_text es @ [take k (event_text e)]) @ truncationSuffix) = Some sig \<and>
    s_actions sig = dedup_onto [] (map snd (if k = length (event_text e) then es @ [e] else es)) \<and>
    s_truncated sig"
proof -
  let ?cut = "take k (event_text e)"
  let ?msg = "message_of (map event_text es @ [?cut]) @ truncationSuffix"
  let ?kept = "if k = length (event_text e) then es @ [e] else es"
  obtain f es' where es: "es = es' @ [f]" using assms(2) by (meson rev_exhaust)
  have wf: "wf_event e" "wf_event f" "\<forall>x \<in> set ?kept. wf_event x" "\<forall>x \<in> set es. wf_event x"
    using assms(1) es by auto
  have seps: "\<forall>ev \<in> set (map event_text es @ [?cut]). eventSeparator \<notin> set ev"
    using assms(1) by (auto simp: event_no_separator dest!: in_set_takeD)
  have "suffix (eventSeparator # truncationSuffix) ?msg"
    by (auto simp: message_of_def suffix_def)
  moreover have "contains ?msg actionMarker"
    using contains_message [of f es "message_of [?cut] @ truncationSuffix"] es by (simp add: message_of_def)
  moreover have "events ?msg True = map event_text ?kept"
  proof -
    have "split_on eventSeparator (message_of (map event_text es @ [?cut])) = map event_text es @ [?cut, []]"
      using split_message [OF seps, of "[]"] by simp
    then have nonblank: "filter (\<lambda>ev. trim_space ev \<noteq> []) (split_on eventSeparator (message_of (map event_text es @ [?cut])))
        = map event_text es @ (if trim_space ?cut = [] then [] else [?cut])"
      using filter_blank_events [OF wf(4)] by simp
    have "last (map event_text es) = event_text f" "map event_text es \<noteq> []" using es by simp_all
    moreover have "k \<noteq> length (event_text e) \<Longrightarrow> \<not> isComplete ?cut"
      using cut_event_incomplete [OF wf(1)] assms(3) by simp
    moreover have "k = length (event_text e) \<Longrightarrow> trim_space ?cut \<noteq> [] \<and> isComplete ?cut"
      using event_not_blank [OF wf(1)] event_complete [OF wf(1)] by simp
    ultimately show ?thesis using nonblank event_complete [OF wf(2)]
      by (auto simp: events_def Let_def)
  qed
  ultimately show ?thesis using captures_events [OF wf(3)] by (simp add: Parse_def Let_def)
qed

definition example_events :: "event list" where
  "example_events = [(''ErrorCode:79 GPU_UUID:GPU-1 '', ActionRestartBM), (''ErrorCode:48 '', ActionReplaceVM)]"

lemma wf_example_events: "\<forall>e \<in> set example_events. wf_event e"
  by (simp add: example_events_def wf_event_def actionMarker_def eventSeparator_def IsKnownAction_def knownActions_def)

text \<open>Two events as the connector writes them; the second repeats the code of the first.\<close>

definition written_example :: "(item list \<times> string) list" where
  "written_example = [([ErrorCode ''79'', GpuUUID ''GPU-1'', Words ''fallen off the bus''], ''RESTART_BM''),
     ([ErrorCode ''79'', ErrorCode ''48'', GpuUUID ''GPU-2''], ''REPLACE_VM'')]"

theorem Parse_complete_witness:
  "list_all wf_written written_example \<and>
   message_of (map (event_text \<circ> written) written_example) =
     ''ErrorCode:79 GPU_UUID:GPU-1 fallen off the bus Recommended Action=RESTART_BM;'' @
     ''ErrorCode:79 ErrorCode:48 GPU_UUID:GPU-2 Recommended Action=REPLACE_VM;'' \<and>
   Parse ''GpuXidError'' (message_of (map (event_text \<circ> written) written_example)) = Some
     \<lparr>s_origin = OriginNodeCondition, s_node = [], s_check = ''GpuXidError'', s_id = [],
      s_actions = [''RESTART_BM'', ''REPLACE_VM''], s_error_codes = [''79'', ''48''], s_gpu_uuids = [''GPU-1'', ''GPU-2''],
      s_truncated = False, s_request = []\<rparr>"
proof -
  have wf: "list_all wf_written written_example"
    by (simp add: written_example_def wf_written_def wf_event_def written_def actionMarker_def eventSeparator_def
        IsKnownAction_def knownActions_def action_defs not_space_def re_space_def)
  moreover have "message_of (map (event_text \<circ> written) written_example) =
     ''ErrorCode:79 GPU_UUID:GPU-1 fallen off the bus Recommended Action=RESTART_BM;'' @
     ''ErrorCode:79 ErrorCode:48 GPU_UUID:GPU-2 Recommended Action=REPLACE_VM;''"
    by (simp add: written_example_def message_of_def event_text_def written_def actionMarker_def eventSeparator_def)
  moreover have "written_example \<noteq> []" by (simp add: written_example_def)
  moreover have "dedup_onto [] (map snd written_example) = [''RESTART_BM'', ''REPLACE_VM'']"
    "dedup_onto [] (concat (map (codes_told \<circ> fst) written_example)) = [''79'', ''48'']"
    "dedup_onto [] (concat (map (gpus_told \<circ> fst) written_example)) = [''GPU-1'', ''GPU-2'']"
    by (simp_all add: written_example_def codes_told_def gpus_told_def append_new_def)
  ultimately show ?thesis using Parse_complete [OF _ wf, of "''GpuXidError''"] by simp
qed

theorem Parse_truncated_witness:
  "list_all wf_event (example_events @ [(''ErrorCode:79 '', ActionReplaceVM)]) \<and>
   (\<exists>sig. Parse ''GpuXidError'' (message_of (map event_text example_events @
        [take 20 (event_text (''ErrorCode:79 '', ActionReplaceVM))]) @ truncationSuffix) = Some sig \<and>
      s_truncated sig)"
proof -
  have w: "\<forall>e \<in> set (example_events @ [(''ErrorCode:79 '', ActionReplaceVM)]). wf_event e"
    using wf_example_events
    by (simp add: wf_event_def actionMarker_def eventSeparator_def IsKnownAction_def knownActions_def)
  have "example_events \<noteq> []" "20 \<le> length (event_text (''ErrorCode:79 '', ActionReplaceVM))"
    by (simp_all add: example_events_def event_text_def actionMarker_def)
  from Parse_truncated [OF w this, of "''GpuXidError''"] w show ?thesis
    unfolding list_all_iff by blast
qed

text \<open>What a condition yields is free of repeats: actions, error codes and GPU UUIDs. Every action is
  made of capital letters and underscores, and neither codes nor UUIDs have white space in them.\<close>

theorem Parse_values:
  assumes "Parse ty msg = Some sig"
  shows "distinct (s_actions sig) \<and> distinct (s_error_codes sig) \<and> distinct (s_gpu_uuids sig) \<and>
    (\<forall>a \<in> set (s_actions sig). a \<noteq> [] \<and> list_all action_char a) \<and>
    (\<forall>c \<in> set (s_error_codes sig) \<union> set (s_gpu_uuids sig). c \<noteq> [] \<and> list_all not_space c)"
proof -
  have run: "c \<in> set (find_all re s) \<Longrightarrow> c \<noteq> [] \<and> list_all (snd re) c" for c re s
    by (induction re s rule: find_all.induct)
      (auto simp: Let_def run_after_def list_all_iff split: if_splits dest: set_takeWhileD)
  have caps: "c \<in> set (captures re evs) \<Longrightarrow> c \<noteq> [] \<and> list_all (snd re) c" for c re evs
    using run [of c re] by (auto simp: captures_def)
  have d: "distinct (captures re evs)" for re evs by (simp add: captures_def)
  from assms obtain evs where "s_actions sig = captures reAction evs"
      "s_error_codes sig = captures reErrorCode evs" "s_gpu_uuids sig = captures reGpuUUID evs"
    by (auto simp: Parse_def Let_def split: if_splits)
  moreover have "snd reAction = action_char" "snd reErrorCode = not_space" "snd reGpuUUID = not_space"
    by (simp_all add: reAction_def reErrorCode_def reGpuUUID_def)
  moreover have "\<forall>c \<in> set (captures re evs). c \<noteq> [] \<and> list_all (snd re) c" for re
    using caps by blast
  ultimately show ?thesis using d by (metis Un_iff)
qed

theorem Parse_values_witness:
  "\<exists>sig. Parse ''GpuXidError'' ''ErrorCode:79 Recommended Action=NONE;'' = Some sig \<and> distinct (s_actions sig)"
proof -
  have "contains ''ErrorCode:79 Recommended Action=NONE;'' actionMarker"
    by (simp add: actionMarker_def)
  then obtain sig where "Parse ''GpuXidError'' ''ErrorCode:79 Recommended Action=NONE;'' = Some sig"
    by (simp add: Parse_def Let_def)
  with Parse_values show ?thesis by blast
qed

text \<open>Collecting from a workload cluster yields, sorted by node and check, exactly one signal for each
  condition that is True and carries NVSentinel's marker, under the node it was read from.\<close>

theorem Collect_conditions_exact:
  "sorted (map by_node_and_check (condition_signals nodes)) \<and>
   mset (condition_signals nodes) = mset [sig\<lparr>s_node := n_name n\<rparr>.
     n \<leftarrow> nodes, c \<leftarrow> n_conditions n, cond_status c = ''True'', contains (cond_message c) actionMarker,
     sig \<leftarrow> [the (Parse (cond_type c) (cond_message c))]]"
proof -
  have parses: "Parse ty msg = None \<longleftrightarrow> \<not> contains msg actionMarker" for ty msg
    by (simp add: Parse_def Let_def)
  have ns: "node_signals n = [sig\<lparr>s_node := n_name n\<rparr>. c \<leftarrow> n_conditions n, cond_status c = ''True'',
      contains (cond_message c) actionMarker, sig \<leftarrow> [the (Parse (cond_type c) (cond_message c))]]" for n
  proof -
    have "List.map_filter (\<lambda>c. if cond_status c \<noteq> ''True'' then None
        else map_option (\<lambda>sig. sig\<lparr>s_node := n_name n\<rparr>) (Parse (cond_type c) (cond_message c))) cs =
      concat (map (\<lambda>c. if cond_status c = ''True'' then if contains (cond_message c) actionMarker
        then [(the (Parse (cond_type c) (cond_message c)))\<lparr>s_node := n_name n\<rparr>] else [] else []) cs)" for cs
    proof (induction cs)
      case (Cons c cs)
      then show ?case using parses [of "cond_type c" "cond_message c"]
        by (cases "Parse (cond_type c) (cond_message c)") (auto simp: map_filter_simps)
    qed (simp add: map_filter_simps)
    then show ?thesis by (simp add: node_signals_def if_distrib cong: if_cong)
  qed
  show ?thesis using conditions.render_sorted [of nodes]
    by (simp add: condition_signals_def ns [abs_def])
qed

end
