(* ===== verification/Extrr.thy ===== *)
theory Extrr
  imports Signal Examples
begin

text \<open>
  Package \<open>extrr\<close> (\<open>internal/signal/extrr/extrr.go\<close> and \<open>answer.go\<close>): decoding
  ExternalRemediationRequests, which of them are pending, and answering one. The readers of
  unstructured objects are the API machinery's; what the code does itself with the maps and lists
  they return is written out on \<open>json\<close>. The event of a request is its entries, none when it has no
  event.
\<close>

section \<open>Names\<close>

definition SourceName_requests :: string where
  "SourceName_requests = ''ExternalRemediationRequest''"

definition GroupVersionKind :: "string \<times> string \<times> string" where
  "GroupVersionKind = (''nvsentinel.dgxc.nvidia.com'', ''v1'', ''ExternalRemediationRequest'')"

definition request_kind :: string where
  "request_kind = snd (snd GroupVersionKind)"

definition ConditionOwnershipReleased :: string where
  "ConditionOwnershipReleased = ''NVSentinelOwnershipReleased''"

definition ConditionComplete :: string where
  "ConditionComplete = ''ExternalRemediationComplete''"

definition gpuUUIDEntity :: string where
  "gpuUUIDEntity = ''GPU_UUID''"

section \<open>The recommended action\<close>

definition actionNames :: "(int \<times> string) list" where
  "actionNames =
    [(0, ActionNone), (2, ActionComponentReset), (5, ActionContactSupport), (6, ActionRunFieldDiag),
     (15, ActionRestartVM), (24, ActionRestartBM), (25, ActionReplaceVM), (26, ActionRunDCGMEUD),
     (27, ActionCustom), (99, ActionUnknown)]"

definition numberedAction :: "int \<Rightarrow> string" where
  "numberedAction v = (case map_of actionNames v of Some name \<Rightarrow> name | None \<Rightarrow> ActionUnknown)"

text \<open>
  \<open>float_integer m e\<close> is the value of \<open>m * 2 ^ e\<close> when it is its own truncation. The conversion to
  \<open>int64\<close> keeps a value in range; for others the language leaves the result open, and the usual
  processors give the least one.
\<close>

definition float_integer :: "int \<Rightarrow> int \<Rightarrow> int option" where
  "float_integer m e =
     (if 0 \<le> e then Some (m * 2 ^ nat e)
      else if 2 ^ nat (- e) dvd m then Some (m div 2 ^ nat (- e)) else None)"

definition to_int64 :: "int \<Rightarrow> int" where
  "to_int64 v = (if - (2 ^ 63) \<le> v \<and> v < 2 ^ 63 then v else - (2 ^ 63))"

definition action_name :: "json option \<Rightarrow> string option" where
  "action_name v = (case v of
     Some (JString s) \<Rightarrow> Some s
   | Some (JInt n) \<Rightarrow> Some (numberedAction n)
   | Some (JFloat m e) \<Rightarrow> Some (case float_integer m e of
         Some n \<Rightarrow> numberedAction (to_int64 n) | None \<Rightarrow> ActionUnknown)
   | _ \<Rightarrow> None)"

definition recommendedAction :: "kube \<Rightarrow> (string \<times> json) list \<Rightarrow> string \<times> bool" where
  "recommendedAction K event = (case action_name (map_of event ''recommendedAction'') of
     None \<Rightarrow> ([], False)
   | Some name \<Rightarrow>
       (let custom = string_or_empty (nested_string K (JObject event) [''customRecommendedAction''])
        in if name = ActionCustom \<and> custom \<noteq> [] then (custom, True) else (name, name \<noteq> [])))"

section \<open>Parsing a request\<close>

definition gpuUUIDs :: "(string \<times> json) list \<Rightarrow> string list" where
  "gpuUUIDs event = List.map_filter (\<lambda>x. case x of
       JObject entity \<Rightarrow>
         if map_of entity ''entityType'' \<noteq> Some (JString gpuUUIDEntity) then None
         else (case map_of entity ''entityValue'' of
             Some (JString v) \<Rightarrow> if v \<noteq> [] then Some v else None
           | _ \<Rightarrow> None)
     | _ \<Rightarrow> None)
     (as_array (map_of event ''entitiesImpacted''))"

definition health_event :: "kube \<Rightarrow> unstructured \<Rightarrow> (string \<times> json) list" where
  "health_event K obj = as_object (nested_field K (u_content obj) [''spec'', ''healthEvent''])"

definition Parse_request :: "kube \<Rightarrow> unstructured \<Rightarrow> signal option" where
  "Parse_request K obj =
     (let event = health_event K obj;
          node = string_or_empty (nested_string K (JObject event) [''nodeName''])
      in if node = [] then None
         else
           let check = string_or_empty (nested_string K (JObject event) [''checkName'']);
               check = (if check = [] then u_name obj else check)
           in Some \<lparr>s_origin = OriginExternalRemediationRequest, s_node = node, s_check = check,
                s_id = string_or_empty (nested_string K (JObject event) [''id'']),
                s_actions = (case recommendedAction K event of (action, ok) \<Rightarrow> if ok then [action] else []),
                s_error_codes = nested_string_slice K (JObject event) [''errorCode''],
                s_gpu_uuids = gpuUUIDs event, s_truncated = False, s_request = u_name obj\<rparr>)"

section \<open>Pending requests\<close>

fun status_among :: "json list \<Rightarrow> string \<Rightarrow> string" where
  "status_among [] conditionType = []"
| "status_among (JObject condition # rest) conditionType =
     (if map_of condition ''type'' \<noteq> Some (JString conditionType) then status_among rest conditionType
      else as_string (map_of condition ''status''))"
| "status_among (_ # rest) conditionType = status_among rest conditionType"

definition ConditionStatus :: "kube \<Rightarrow> unstructured \<Rightarrow> string \<Rightarrow> string" where
  "ConditionStatus K obj conditionType =
     status_among (as_array (nested_field K (u_content obj) [''status'', ''conditions''])) conditionType"

definition Answered :: "kube \<Rightarrow> unstructured \<Rightarrow> bool" where
  "Answered K obj = (let status = ConditionStatus K obj ConditionComplete
     in status = ''True'' \<or> status = ''False'')"

definition Pending :: "kube \<Rightarrow> unstructured \<Rightarrow> bool" where
  "Pending K obj \<longleftrightarrow> u_deletion_timestamp obj = None \<and>
     ConditionStatus K obj ConditionOwnershipReleased = ''True'' \<and> \<not> Answered K obj"

section \<open>The source\<close>

definition request_signals_of :: "kube \<Rightarrow> unstructured \<Rightarrow> signal list" where
  "request_signals_of K obj =
     (if \<not> Pending K obj then []
      else (case Parse_request K obj of None \<Rightarrow> [] | Some sig \<Rightarrow> [sig]))"

definition by_node_check_and_request :: "signal \<Rightarrow> string \<times> string \<times> string" where
  "by_node_check_and_request sig = (s_node sig, s_check sig, s_request sig)"

definition request_signals :: "kube \<Rightarrow> unstructured list \<Rightarrow> signal list" where
  "request_signals K objs = sort_key by_node_check_and_request (concat (map (request_signals_of K) objs))"

definition Collect_requests :: "env \<Rightarrow> kube \<Rightarrow> ((call, 'w) world_scheme, go_error + signal list) state" where
  "Collect_requests E K = do {
     objs \<leftarrow> ask ListRequests (list_requests E);
     State_Monad.return (case objs of
         Inl err \<Rightarrow> Inl (Wrapped (''list '' @ request_kind) err)
       | Inr objs \<Rightarrow> Inr (request_signals K objs))
   }"

section \<open>Answering\<close>

definition get_request_error :: "string \<Rightarrow> go_error \<Rightarrow> go_error" where
  "get_request_error name err = Wrapped (''get '' @ request_kind @ '' '' @ name) err"

definition IsPending :: "env \<Rightarrow> kube \<Rightarrow> string \<Rightarrow> ((call, 'w) world_scheme, go_error + bool) state" where
  "IsPending E K name = do {
     r \<leftarrow> ask (GetRequest name) (\<lambda>h. get_request E h name);
     State_Monad.return (case r of
         Inl err \<Rightarrow> if kind_of err = NotFound then Inr False else Inl (get_request_error name err)
       | Inr obj \<Rightarrow> Inr (Pending K obj))
   }"

text \<open>The condition of the answer, and the list with every one of its type replaced by it, or with it at
  the end.\<close>

definition answer_condition :: "kube \<Rightarrow> unstructured \<Rightarrow> bool \<Rightarrow> string \<Rightarrow> string \<Rightarrow> int \<Rightarrow> json" where
  "answer_condition K obj complete reason message now = JObject
     [(''type'', JString ConditionComplete),
      (''status'', JString (if complete then ''True'' else ''False'')),
      (''reason'', JString reason),
      (''message'', JString message),
      (''lastTransitionTime'', JString (rfc3339 K now)),
      (''observedGeneration'', JInt (u_generation obj))]"

fun is_complete_condition :: "json \<Rightarrow> bool" where
  "is_complete_condition (JObject condition) = (map_of condition ''type'' = Some (JString ConditionComplete))"
| "is_complete_condition _ = False"

definition with_answer :: "json \<Rightarrow> json list \<Rightarrow> json list" where
  "with_answer ans conditions =
     (if \<exists>c \<in> set conditions. is_complete_condition c
      then map (\<lambda>c. if is_complete_condition c then ans else c) conditions
      else conditions @ [ans])"

definition answered_object :: "kube \<Rightarrow> unstructured \<Rightarrow> json \<Rightarrow> unstructured" where
  "answered_object K obj ans = obj\<lparr>u_content := set_nested_slice K (u_content obj)
     (with_answer ans (nested_slice K (u_content obj) [''status'', ''conditions''])) [''status'', ''conditions'']\<rparr>"

definition Answer ::
  "env \<Rightarrow> kube \<Rightarrow> string \<Rightarrow> bool \<Rightarrow> string \<Rightarrow> string \<Rightarrow> ((call, 'w) world_scheme, go_error + bool) state" where
  "Answer E K name complete reason message = do {
     r \<leftarrow> ask (GetRequest name) (\<lambda>h. get_request E h name);
     case r of
       Inl err \<Rightarrow> State_Monad.return
         (if kind_of err = NotFound then Inr False else Inl (get_request_error name err))
     | Inr obj \<Rightarrow>
         if \<not> Pending K obj then State_Monad.return (Inr False)
         else do {
           now \<leftarrow> read_clock E;
           let updated = answered_object K obj (answer_condition K obj complete reason message now);
           p \<leftarrow> ask (PatchRequestStatus obj updated) (\<lambda>h. patch_request_status E h obj updated);
           State_Monad.return (case p of
               Some err \<Rightarrow> Inl (Wrapped (''answer '' @ request_kind @ '' '' @ name) err)
             | None \<Rightarrow> Inr True)
         }
   }"

lemma emits_Collect_requests [emits_rules]:
  "(\<And>r. P (ListRequests r)) \<Longrightarrow> emits P (Collect_requests E K)"
  unfolding Collect_requests_def by (intro emits_rules)

lemma emits_IsPending [emits_rules]: "(\<And>n r. P (GetRequest n r)) \<Longrightarrow> emits P (IsPending E K name)"
  unfolding IsPending_def by (intro emits_rules)

lemma emits_Answer:
  assumes "\<And>n r. P (GetRequest n r)" and "\<And>t. P (ReadClock t)"
    and "\<And>o1 now r. Pending K o1 \<Longrightarrow> P (PatchRequestStatus o1
        (answered_object K o1 (answer_condition K o1 complete reason message now)) r)"
  shows "emits P (Answer E K name complete reason message)"
  unfolding Answer_def by (intro emits_rules) (use assms in auto)

section \<open>The contract of a source\<close>

lemma Parse_request_fields:
  "Parse_request K obj = Some sig \<Longrightarrow>
     s_origin sig = OriginExternalRemediationRequest \<and> s_node sig \<noteq> [] \<and> s_request sig = u_name obj \<and> \<not> s_truncated sig"
  by (auto simp: Parse_request_def Let_def split: if_splits)

lemma in_request_signals_of:
  "sig \<in> set (request_signals_of K obj) \<longleftrightarrow> Pending K obj \<and> Parse_request K obj = Some sig"
  by (auto simp: request_signals_of_def split: option.splits)

interpretation requests: signal_source "request_signals K" by_node_check_and_request "request_signals_of K"
    OriginExternalRemediationRequest for K
proof
  fix objs show "sorted (map by_node_check_and_request (request_signals K objs))"
    by (simp add: request_signals_def)
next
  fix objs show "mset (request_signals K objs) = (\<Sum>obj \<leftarrow> objs. mset (request_signals_of K obj))"
    by (simp add: request_signals_def mset_concat comp_def)
qed (auto simp: in_request_signals_of dest: Parse_request_fields)

section \<open>The API machinery\<close>

text \<open>
  What the code relies on of the readers and the writer of nested fields: a string read from an object is
  the one there, or nothing; a list that is there is read as it is, and one written in its place is what is
  there afterwards, with every field as it was that is neither on the way to the list nor inside it.
\<close>

definition documented_strings :: "kube \<Rightarrow> bool" where
  "documented_strings K \<longleftrightarrow> (\<forall>kvs k. string_or_empty (nested_string K (JObject kvs) [k]) = as_string (map_of kvs k))"

definition documented_slices :: "kube \<Rightarrow> bool" where
  "documented_slices K \<longleftrightarrow> (\<forall>j path xs. nested_field K j path = Some (JArray xs) \<longrightarrow>
     nested_slice K j path = xs \<and> (\<forall>ys. nested_field K (set_nested_slice K j ys path) path = Some (JArray ys) \<and>
       (\<forall>p. \<not> prefix p path \<and> \<not> prefix path p \<longrightarrow> nested_field K (set_nested_slice K j ys path) p = nested_field K j p)))"

lemma plain_kube_strings: "documented_strings plain_kube"
proof -
  have "string_or_empty (nested_string plain_kube (JObject kvs) [k]) = as_string (map_of kvs k)" for kvs k
    by (cases "map_of kvs k") (auto simp: string_or_empty_def split: json.split)
  then show ?thesis by (simp add: documented_strings_def)
qed

lemma set_field_read:
  "field_at j path = Some (JArray xs) \<Longrightarrow> field_at (set_field j v path) path = Some v"
  by (induction j path arbitrary: v rule: field_at.induct) (auto simp: update_conv' split: option.splits)

lemma set_field_other:
  "field_at j path = Some x \<Longrightarrow> \<not> prefix p path \<Longrightarrow> \<not> prefix path p \<Longrightarrow> field_at (set_field j v path) p = field_at j p"
proof (induction j path arbitrary: v p rule: field_at.induct)
  case (2 kvs k ks)
  then obtain q ps where p: "p = q # ps" by (cases p) auto
  from 2(2) obtain w where w: "map_of kvs k = Some w" "field_at w ks = Some x" by (auto split: option.splits)
  show ?case
  proof (cases "q = k")
    case True
    with 2(3,4) p have "field_at (set_field w v ks) ps = field_at w ps" by (intro 2(1) [OF w]) auto
    then show ?thesis using w p True by (simp add: update_conv')
  next
    case False
    then show ?thesis using p by (simp add: update_conv')
  qed
qed auto

lemma plain_kube_slices: "documented_slices plain_kube"
  by (auto simp: documented_slices_def set_field_read set_field_other)

section \<open>What an answer changes\<close>

lemma ConditionComplete_neq [simp]: "ConditionComplete \<noteq> ConditionOwnershipReleased"
  "ConditionOwnershipReleased \<noteq> ConditionComplete"
  by (simp_all add: ConditionComplete_def ConditionOwnershipReleased_def)

lemma status_among_answer:
  assumes "map_of a ''type'' = Some (JString ConditionComplete)"
  shows "status_among (with_answer (JObject a) cs) ConditionComplete = as_string (map_of a ''status'')"
proof (cases "\<exists>c \<in> set cs. is_complete_condition c")
  case True
  then have "status_among (map (\<lambda>c. if is_complete_condition c then JObject a else c) cs) ConditionComplete =
      as_string (map_of a ''status'')"
    using assms by (induction cs ConditionComplete rule: status_among.induct) auto
  then show ?thesis using True by (simp add: with_answer_def)
next
  case False
  then have "status_among (cs @ [JObject a]) ConditionComplete = as_string (map_of a ''status'')"
    using assms by (induction cs ConditionComplete rule: status_among.induct) auto
  then show ?thesis using False by (simp add: with_answer_def)
qed

lemma status_among_other:
  assumes "map_of a ''type'' = Some (JString ConditionComplete)" and "ty \<noteq> ConditionComplete"
  shows "status_among (with_answer (JObject a) cs) ty = status_among cs ty"
proof -
  have "status_among (map (\<lambda>c. if is_complete_condition c then JObject a else c) cs) ty = status_among cs ty"
    using assms by (induction cs ty rule: status_among.induct) auto
  moreover have "status_among (cs @ [JObject a]) ty = status_among cs ty"
    using assms by (induction cs ty rule: status_among.induct) auto
  ultimately show ?thesis by (simp add: with_answer_def)
qed

lemma as_array_not_Nil: "as_array v \<noteq> [] \<Longrightarrow> \<exists>xs. v = Some (JArray xs)"
  by (cases v rule: as_array.cases) auto

lemma pending_conditions:
  assumes "Pending K obj"
  shows "\<exists>xs. nested_field K (u_content obj) [''status'', ''conditions''] = Some (JArray xs)"
proof -
  have "as_array (nested_field K (u_content obj) [''status'', ''conditions'']) \<noteq> []"
    using assms by (auto simp: Pending_def ConditionStatus_def)
  then show ?thesis by (rule as_array_not_Nil)
qed

text \<open>The list of conditions that is written, and that nothing else of the content is changed.\<close>

lemma answered_object_content:
  assumes "documented_slices K" and "nested_field K (u_content obj) [''status'', ''conditions''] = Some (JArray xs)"
  shows "nested_field K (u_content (answered_object K obj ans)) [''status'', ''conditions''] = Some (JArray (with_answer ans xs))"
    and "\<not> prefix p [''status'', ''conditions''] \<Longrightarrow> \<not> prefix [''status'', ''conditions''] p \<Longrightarrow>
      nested_field K (u_content (answered_object K obj ans)) p = nested_field K (u_content obj) p"
proof -
  have "nested_slice K (u_content obj) [''status'', ''conditions''] = xs"
    using assms unfolding documented_slices_def by blast
  then have u: "u_content (answered_object K obj ans) =
      set_nested_slice K (u_content obj) (with_answer ans xs) [''status'', ''conditions'']"
    by (simp add: answered_object_def)
  show "nested_field K (u_content (answered_object K obj ans)) [''status'', ''conditions''] = Some (JArray (with_answer ans xs))"
    using assms unfolding u documented_slices_def by blast
  show "nested_field K (u_content (answered_object K obj ans)) p = nested_field K (u_content obj) p"
    if "\<not> prefix p [''status'', ''conditions'']" "\<not> prefix [''status'', ''conditions''] p"
    using assms that unfolding u documented_slices_def by blast
qed

lemma answered_object_conditions:
  assumes "documented_slices K" and "Pending K obj"
  shows "as_array (nested_field K (u_content (answered_object K obj ans)) [''status'', ''conditions'']) =
    with_answer ans (as_array (nested_field K (u_content obj) [''status'', ''conditions'']))"
  using pending_conditions [OF assms(2)] answered_object_content(1) [OF assms(1)] by fastforce

lemma answered_object_status:
  fixes complete :: bool and reason message :: string and now :: int
  assumes "documented_slices K" and "Pending K obj"
  defines "updated \<equiv> answered_object K obj (answer_condition K obj complete reason message now)"
  shows "ConditionStatus K updated ConditionComplete = (if complete then ''True'' else ''False'')"
    and "ty \<noteq> ConditionComplete \<Longrightarrow> ConditionStatus K updated ty = ConditionStatus K obj ty"
    and "\<not> Pending K updated"
proof -
  show "ConditionStatus K updated ConditionComplete = (if complete then ''True'' else ''False'')"
    unfolding updated_def answer_condition_def ConditionStatus_def
    by (simp add: answered_object_conditions [OF assms(1,2)] status_among_answer)
  then show "\<not> Pending K updated" by (simp add: Pending_def Answered_def Let_def split: if_splits)
  show "ty \<noteq> ConditionComplete \<Longrightarrow> ConditionStatus K updated ty = ConditionStatus K obj ty"
    unfolding updated_def answer_condition_def ConditionStatus_def
    by (simp add: answered_object_conditions [OF assms(1,2)] status_among_other)
qed

text \<open>What an answer changes: the conditions of its own type become the answer, or it is added at the end; and no field is changed
  but those on the way to the list of conditions and inside it.\<close>

definition only_answered :: "kube \<Rightarrow> bool \<Rightarrow> string \<Rightarrow> string \<Rightarrow> int \<Rightarrow> unstructured \<Rightarrow> unstructured \<Rightarrow> bool" where
  "only_answered K complete reason message now obj updated \<longleftrightarrow>
     (let path = [''status'', ''conditions''];
          ans = JObject
            [(''type'', JString ''ExternalRemediationComplete''),
             (''status'', JString (if complete then ''True'' else ''False'')),
             (''reason'', JString reason),
             (''message'', JString message),
             (''lastTransitionTime'', JString (rfc3339 K now)),
             (''observedGeneration'', JInt (u_generation obj))];
          own = (\<lambda>c. \<exists>kvs. c = JObject kvs \<and> map_of kvs ''type'' = Some (JString ''ExternalRemediationComplete''))
      in (\<exists>xs. nested_field K (u_content obj) path = Some (JArray xs) \<and>
            nested_field K (u_content updated) path = Some (JArray
              (if \<exists>c \<in> set xs. own c then map (\<lambda>c. if own c then ans else c) xs else xs @ [ans]))) \<and>
         (\<forall>p. \<not> prefix p path \<and> \<not> prefix path p \<longrightarrow> nested_field K (u_content updated) p = nested_field K (u_content obj) p) \<and>
         updated = obj\<lparr>u_content := u_content updated\<rparr>)"

lemma answered_object_exact:
  assumes "documented_slices K" and "Pending K obj"
  shows "only_answered K complete reason message now obj
    (answered_object K obj (answer_condition K obj complete reason message now))"
proof -
  obtain xs where xs: "nested_field K (u_content obj) [''status'', ''conditions''] = Some (JArray xs)"
    using pending_conditions [OF assms(2)] by blast
  have own: "is_complete_condition = (\<lambda>c. \<exists>kvs. c = JObject kvs \<and> map_of kvs ''type'' = Some (JString ''ExternalRemediationComplete''))"
  proof (rule ext)
    show "is_complete_condition c = (\<exists>kvs. c = JObject kvs \<and> map_of kvs ''type'' = Some (JString ''ExternalRemediationComplete''))" for c
      by (cases c) (simp_all add: ConditionComplete_def)
  qed
  note content = answered_object_content [OF assms(1) xs, where ans = "answer_condition K obj complete reason message now"]
  have list: "\<exists>xs. nested_field K (u_content obj) [''status'', ''conditions''] = Some (JArray xs) \<and>
      nested_field K (u_content (answered_object K obj (answer_condition K obj complete reason message now)))
        [''status'', ''conditions''] = Some (JArray (with_answer (answer_condition K obj complete reason message now) xs))"
    using xs content(1) by blast
  have frame: "answered_object K obj (answer_condition K obj complete reason message now) =
      obj\<lparr>u_content := u_content (answered_object K obj (answer_condition K obj complete reason message now))\<rparr>"
    by (simp add: answered_object_def)
  show ?thesis
    unfolding only_answered_def Let_def own [symmetric] with_answer_def [symmetric] answer_condition_def [unfolded ConditionComplete_def, symmetric]
    using list content(2) frame by blast
qed

text \<open>An answer that is accepted: what was read, and what was written.\<close>

lemma Answer_accepted:
  assumes "run_state (Answer E K name complete reason message) s = (Inr True, s')"
  shows "\<exists>obj now updated. Pending K obj \<and> updated = answered_object K obj (answer_condition K obj complete reason message now) \<and>
    history s' = history s @ [GetRequest name (Inr obj), ReadClock now, PatchRequestStatus obj updated None]"
  using assms by (auto simp: Answer_def Let_def split: sum.splits if_splits option.splits)

section \<open>The actions of requests\<close>

lemma actionNames_known: "map_of actionNames n = Some name \<Longrightarrow> IsKnownAction name"
  by (auto simp: actionNames_def IsKnownAction_def knownActions_def split: if_splits)

lemma numberedAction_known: "IsKnownAction (numberedAction n)"
  by (auto simp: numberedAction_def IsKnownAction_def knownActions_def dest: actionNames_known split: option.split)

lemma actionNames_range: "map_of actionNames n = Some name \<Longrightarrow> 0 \<le> n \<and> n < 100"
  by (auto simp: actionNames_def split: if_splits)

lemma numberedAction_int64: "numberedAction (to_int64 n) = numberedAction n"
  using actionNames_range [of n] actionNames_range [of "- (2 ^ 63)"]
  by (cases "map_of actionNames n"; cases "map_of actionNames (- (2 ^ 63))")
    (auto simp: numberedAction_def to_int64_def)

section \<open>Properties\<close>

text \<open>C29: Answering a request replaces its own condition and nothing else. There is one attempt. Only a request that was just
  read as pending is answered. The object that is written then has the conditions that were read, with every
  one of the type ExternalRemediationComplete replaced by the answer, or with the answer at the end when there is none;
  the answer carries the type, the status that was asked for, the reason and the message that were given, the time
  and the generation of the object; every other field of the object, inside its content and outside, is as it was
  read; and what is written is no longer pending. Answering reports success exactly when that patch was accepted, and a patch that was refused as an error.\<close>

theorem Answer_answers:
  assumes "documented_slices K"
    and "run_state (Answer E K name complete reason message) s = (r, s')"
  shows "\<exists>cs. history s' = history s @ cs \<and>
    (if r = Inr True
     then \<exists>obj now updated. cs = [GetRequest name (Inr obj), ReadClock now, PatchRequestStatus obj updated None] \<and>
       Pending K obj \<and> \<not> Pending K updated \<and>
       ConditionStatus K updated ConditionComplete = (if complete then ''True'' else ''False'') \<and>
       (\<forall>ty. ty \<noteq> ConditionComplete \<longrightarrow> ConditionStatus K updated ty = ConditionStatus K obj ty) \<and>
       only_answered K complete reason message now obj updated
     else \<forall>obj updated p. PatchRequestStatus obj updated p \<in> set cs \<longrightarrow> (\<exists>err err'. p = Some err \<and> r = Inl err'))"
proof (cases "get_request E (history s) name")
  case (Inl err)
  then show ?thesis using assms(2) by (auto simp: Answer_def split: if_splits)
next
  case (Inr obj)
  show ?thesis
  proof (cases "Pending K obj")
    case False
    then show ?thesis using assms(2) Inr by (auto simp: Answer_def)
  next
    case True
    let ?h = "history s @ [GetRequest name (Inr obj)]"
    let ?u = "answered_object K obj (answer_condition K obj complete reason message (clock E ?h))"
    let ?p = "patch_request_status E (?h @ [ReadClock (clock E ?h)]) obj ?u"
    have run: "r = (case ?p of Some err \<Rightarrow> Inl (Wrapped (''answer '' @ request_kind @ '' '' @ name) err) | None \<Rightarrow> Inr True)"
      "history s' = history s @ [GetRequest name (Inr obj), ReadClock (clock E ?h), PatchRequestStatus obj ?u ?p]"
      using assms(2) Inr True by (auto simp: Answer_def Let_def)
    show ?thesis
    proof (cases ?p)
      case None
      then show ?thesis
        using run answered_object_status [OF assms(1) True] True answered_object_exact [OF assms(1) True] by auto
    next
      case (Some err)
      then show ?thesis using run by auto
    qed
  qed
qed

definition example_request :: unstructured where
  "example_request = \<lparr>u_api_version = ''nvsentinel.dgxc.nvidia.com/v1'', u_kind = request_kind, u_namespace = [],
     u_name = ''q'', u_uid = ''u-q'', u_generation = 1, u_deletion_timestamp = None, u_labels = Map.empty,
     u_annotations = Map.empty, u_content = JObject
       [(''spec'', JObject [(''healthEvent'', JObject [(''nodeName'', JString ''gpu-w-1''),
          (''recommendedAction'', JInt 25)])]),
        (''status'', JObject [(''conditions'', JArray
          [JObject [(''type'', JString ConditionOwnershipReleased), (''status'', JString ''True'')]])])]\<rparr>"

lemma example_request_pending: "Pending plain_kube example_request"
  by (simp add: Pending_def Answered_def ConditionStatus_def example_request_def)

theorem Answer_answers_witness:
  "\<exists>s' obj now updated. run_state (Answer (quiet_env\<lparr>get_request := \<lambda>_ _. Inr example_request\<rparr>) plain_kube ''q'' True
       ''Restarted'' ''the node is back'') \<lparr>history = []\<rparr> = (Inr True, s' :: call world) \<and>
     history s' = [GetRequest ''q'' (Inr obj), ReadClock now, PatchRequestStatus obj updated None] \<and>
     ConditionStatus plain_kube updated ConditionComplete = ''True'' \<and>
     only_answered plain_kube True ''Restarted'' ''the node is back'' now obj updated"
proof -
  obtain s' where run: "run_state (Answer (quiet_env\<lparr>get_request := \<lambda>_ _. Inr example_request\<rparr>) plain_kube ''q'' True
      ''Restarted'' ''the node is back'') \<lparr>history = []\<rparr> = (Inr True, s' :: call world)"
    using example_request_pending by (simp add: Answer_def Let_def)
  from Answer_answers [OF plain_kube_slices run] run show ?thesis by auto
qed

text \<open>What a request says, read off its fields: the status of the first condition of a type, whether it waits for the
  external system, the texts of its health event, the action recommended and the GPUs named.\<close>

definition first_status :: "json list \<Rightarrow> string \<Rightarrow> string" where
  "first_status cs ty = (case find (\<lambda>c. \<exists>kvs. c = JObject kvs \<and> map_of kvs ''type'' = Some (JString ty)) cs of
     Some (JObject kvs) \<Rightarrow> as_string (map_of kvs ''status'') | _ \<Rightarrow> [])"

definition awaits_answer :: "kube \<Rightarrow> unstructured \<Rightarrow> bool" where
  "awaits_answer K obj \<longleftrightarrow>
     (let conditions = as_array (nested_field K (u_content obj) [''status'', ''conditions''])
      in u_deletion_timestamp obj = None \<and> first_status conditions ''NVSentinelOwnershipReleased'' = ''True'' \<and>
         first_status conditions ''ExternalRemediationComplete'' \<notin> {''True'', ''False''})"

definition event_field :: "kube \<Rightarrow> unstructured \<Rightarrow> string \<Rightarrow> json option" where
  "event_field K obj k = map_of (as_object (nested_field K (u_content obj) [''spec'', ''healthEvent''])) k"

definition event_text_of :: "kube \<Rightarrow> unstructured \<Rightarrow> string \<Rightarrow> string" where
  "event_text_of K obj k = as_string (event_field K obj k)"

definition recommended :: "kube \<Rightarrow> unstructured \<Rightarrow> string" where
  "recommended K obj =
     (let name = (case event_field K obj ''recommendedAction'' of
          Some (JString s) \<Rightarrow> s
        | Some (JInt n) \<Rightarrow> numberedAction n
        | Some (JFloat m e) \<Rightarrow> (case float_integer m e of Some n \<Rightarrow> numberedAction n | None \<Rightarrow> ''UNKNOWN'')
        | _ \<Rightarrow> [])
      in if name = ''CUSTOM'' \<and> event_text_of K obj ''customRecommendedAction'' \<noteq> []
         then event_text_of K obj ''customRecommendedAction'' else name)"

definition gpus_named :: "kube \<Rightarrow> unstructured \<Rightarrow> string list" where
  "gpus_named K obj = [as_string (map_of kvs ''entityValue'').
     JObject kvs \<leftarrow> as_array (event_field K obj ''entitiesImpacted''),
     map_of kvs ''entityType'' = Some (JString ''GPU_UUID''), as_string (map_of kvs ''entityValue'') \<noteq> []]"

lemma status_among_first: "status_among cs ty = first_status cs ty"
  by (induction cs ty rule: status_among.induct) (auto simp: first_status_def)

lemma Pending_awaits: "Pending K obj \<longleftrightarrow> awaits_answer K obj"
  by (auto simp: Pending_def awaits_answer_def Answered_def ConditionStatus_def status_among_first Let_def
      ConditionOwnershipReleased_def ConditionComplete_def)

lemma gpuUUIDs_named: "gpuUUIDs (health_event K obj) = gpus_named K obj"
proof -
  have "List.map_filter (\<lambda>x. case x of
       JObject entity \<Rightarrow>
         if map_of entity ''entityType'' \<noteq> Some (JString gpuUUIDEntity) then None
         else (case map_of entity ''entityValue'' of
             Some (JString v) \<Rightarrow> if v \<noteq> [] then Some v else None
           | _ \<Rightarrow> None)
     | _ \<Rightarrow> None) xs =
    [as_string (map_of kvs ''entityValue''). JObject kvs \<leftarrow> xs,
      map_of kvs ''entityType'' = Some (JString ''GPU_UUID''), as_string (map_of kvs ''entityValue'') \<noteq> []]" for xs
    by (induction xs) (auto simp: map_filter_simps gpuUUIDEntity_def split: json.split option.split)
  then show ?thesis by (simp add: gpuUUIDs_def gpus_named_def event_field_def health_event_def)
qed

lemma recommendedAction_recommended:
  assumes "documented_strings K"
  shows "(case recommendedAction K (health_event K obj) of (action, ok) \<Rightarrow> if ok then [action] else []) =
    (if recommended K obj = [] then [] else [recommended K obj])"
  using assms
  by (auto simp: recommendedAction_def recommended_def action_name_def event_field_def event_text_of_def health_event_def
      documented_strings_def numberedAction_int64 action_defs Let_def split: option.splits json.splits)

lemma Parse_request_reads:
  assumes "documented_strings K"
  shows "Parse_request K obj = (if event_text_of K obj ''nodeName'' = [] then None else Some
    \<lparr>s_origin = OriginExternalRemediationRequest, s_node = event_text_of K obj ''nodeName'',
     s_check = (if event_text_of K obj ''checkName'' = [] then u_name obj else event_text_of K obj ''checkName''),
     s_id = event_text_of K obj ''id'', s_actions = (if recommended K obj = [] then [] else [recommended K obj]),
     s_error_codes = nested_string_slice K (JObject (health_event K obj)) [''errorCode''],
     s_gpu_uuids = gpus_named K obj, s_truncated = False, s_request = u_name obj\<rparr>)"
  using assms recommendedAction_recommended [OF assms, of obj]
  by (simp add: Parse_request_def documented_strings_def event_text_of_def event_field_def health_event_def [symmetric]
      gpuUUIDs_named Let_def)

text \<open>C37: Collecting from a workload cluster yields, sorted by node, check and request, exactly one signal for each request that is
  not being deleted, whose first condition NVSentinelOwnershipReleased is True, whose first condition ExternalRemediationComplete is neither True
  nor False, and whose health event names a node; none is left out and none is added. Each signal is made of the fields of its own request: the node
  it names, its check, or the name of the request when it gives none, its id, the action it recommends, by name, its error
  codes, the UUIDs of the entities that are GPUs, and the request's name.\<close>

theorem Collect_requests_exact:
  assumes "documented_strings K"
    and "run_state (Collect_requests E K) s = (r, s')"
  shows "case list_requests E (history s) of
      Inl _ \<Rightarrow> \<exists>err. r = Inl err
    | Inr objs \<Rightarrow> \<exists>sigs. r = Inr sigs \<and> sorted (map (\<lambda>sig. (s_node sig, s_check sig, s_request sig)) sigs) \<and>
        mset sigs = mset (map (\<lambda>obj.
            \<lparr>s_origin = OriginExternalRemediationRequest, s_node = event_text_of K obj ''nodeName'',
             s_check = (if event_text_of K obj ''checkName'' = [] then u_name obj else event_text_of K obj ''checkName''),
             s_id = event_text_of K obj ''id'', s_actions = (if recommended K obj = [] then [] else [recommended K obj]),
             s_error_codes = nested_string_slice K (JObject (health_event K obj)) [''errorCode''],
             s_gpu_uuids = gpus_named K obj, s_truncated = False, s_request = u_name obj\<rparr>)
          (filter (\<lambda>obj. awaits_answer K obj \<and> event_text_of K obj ''nodeName'' \<noteq> []) objs))"
proof -
  let ?sig = "\<lambda>obj. \<lparr>s_origin = OriginExternalRemediationRequest, s_node = event_text_of K obj ''nodeName'',
             s_check = (if event_text_of K obj ''checkName'' = [] then u_name obj else event_text_of K obj ''checkName''),
             s_id = event_text_of K obj ''id'', s_actions = (if recommended K obj = [] then [] else [recommended K obj]),
             s_error_codes = nested_string_slice K (JObject (health_event K obj)) [''errorCode''],
             s_gpu_uuids = gpus_named K obj, s_truncated = False, s_request = u_name obj\<rparr>"
  have "concat (map (request_signals_of K) objs) =
      map ?sig (filter (\<lambda>obj. awaits_answer K obj \<and> event_text_of K obj ''nodeName'' \<noteq> []) objs)" for objs
    by (induction objs) (simp_all add: request_signals_of_def Pending_awaits Parse_request_reads [OF assms(1)])
  then have "mset (request_signals K objs) =
      mset (map ?sig (filter (\<lambda>obj. awaits_answer K obj \<and> event_text_of K obj ''nodeName'' \<noteq> []) objs))" for objs
    by (simp add: request_signals_def)
  then show ?thesis using assms(2) requests.render_sorted [of K]
    by (auto simp: Collect_requests_def by_node_check_and_request_def [abs_def] split: sum.splits)
qed

text \<open>Of three requests one waits and names a node: the second was answered, and the third is being deleted.\<close>

definition answered_example :: unstructured where
  "answered_example = example_request\<lparr>u_name := ''a'', u_content := JObject
     [(''spec'', JObject [(''healthEvent'', JObject [(''nodeName'', JString ''gpu-w-2'')])]),
      (''status'', JObject [(''conditions'', JArray
        [JObject [(''type'', JString ''ExternalRemediationComplete''), (''status'', JString ''False'')],
         JObject [(''type'', JString ''NVSentinelOwnershipReleased''), (''status'', JString ''True'')]])])]\<rparr>"

theorem Collect_requests_exact_witness:
  "\<exists>sigs s'. run_state (Collect_requests (quiet_env\<lparr>list_requests := \<lambda>_. Inr
       [answered_example, example_request, example_request\<lparr>u_deletion_timestamp := Some 1\<rparr>]\<rparr>) plain_kube)
       \<lparr>history = []\<rparr> = (Inr sigs, s' :: call world) \<and>
     map (\<lambda>sig. (s_node sig, s_check sig, s_request sig, s_actions sig)) sigs = [(''gpu-w-1'', ''q'', ''q'', [''REPLACE_VM''])]"
proof -
  let ?objs = "[answered_example, example_request, example_request\<lparr>u_deletion_timestamp := Some 1\<rparr>]"
  obtain r and s' :: "call world" where run:
    "run_state (Collect_requests (quiet_env\<lparr>list_requests := \<lambda>_. Inr ?objs\<rparr>) plain_kube) \<lparr>history = []\<rparr> = (r, s')"
    by (metis prod.exhaust)
  have fields: "event_text_of plain_kube example_request ''nodeName'' = ''gpu-w-1''"
    "event_text_of plain_kube example_request ''checkName'' = []" "u_name example_request = ''q''"
    by (simp_all add: event_text_of_def event_field_def example_request_def)
  have action: "recommended plain_kube example_request = ''REPLACE_VM''"
    by (simp add: recommended_def event_text_of_def event_field_def example_request_def numberedAction_def actionNames_def action_defs)
  have waits: "\<not> awaits_answer plain_kube answered_example"
    "\<not> awaits_answer plain_kube (example_request\<lparr>u_deletion_timestamp := Some 1\<rparr>)" "awaits_answer plain_kube example_request"
    using example_request_pending
    by (simp_all add: Pending_awaits) (simp_all add: awaits_answer_def answered_example_def first_status_def)
  from Collect_requests_exact [OF plain_kube_strings run] run show ?thesis
    by (auto simp: waits fields action)
qed

text \<open>A recommended action means the same in all the forms a request may carry it in: its number, as an
  integer or as a decimal number, and its name. A number outside the enumeration is UNKNOWN, and a custom
  action goes by its own name in every form.\<close>

theorem recommendedAction_forms:
  assumes "documented_strings K" and "map_of event ''recommendedAction'' = Some v"
    and "v = JInt n \<or> (\<exists>m e. v = JFloat m e \<and> float_integer m e = Some n)"
  shows "recommendedAction K event =
    (case map_of actionNames n of
       None \<Rightarrow> (ActionUnknown, True)
     | Some name \<Rightarrow> recommendedAction K (AList.update ''recommendedAction'' (JString name) event))"
proof -
  have read: "string_or_empty (nested_string K (JObject event) [''customRecommendedAction'']) =
      string_or_empty (nested_string K (JObject (AList.update ''recommendedAction'' x event)) [''customRecommendedAction''])" for x
    using assms(1) by (simp add: documented_strings_def update_conv')
  have "action_name (Some v) = Some (numberedAction n)"
    using assms(3) by (auto simp: action_name_def numberedAction_int64)
  then show ?thesis using assms(2) read
    by (auto simp: recommendedAction_def update_conv' numberedAction_def action_name_def Let_def action_defs
        split: option.split)
qed

theorem recommendedAction_forms_witness:
  "recommendedAction plain_kube [(''recommendedAction'', JFloat 50 (-1))] = (ActionReplaceVM, True)"
proof -
  have "JFloat 50 (-1) = JInt 25 \<or> (\<exists>m e. JFloat 50 (-1) = JFloat m e \<and> float_integer m e = Some 25)"
    by (simp add: float_integer_def)
  from recommendedAction_forms [OF plain_kube_strings _ this, of "[(''recommendedAction'', JFloat 50 (-1))]"]
  show ?thesis
    by (simp add: actionNames_def recommendedAction_def action_name_def string_or_empty_def
        action_defs Let_def)
qed

end
