(* ===== verification/Guard.thy ===== *)
theory Guard
  imports Kube
begin

text \<open>
  Package \<open>capi\<close>, its names (\<open>internal/capi/capi.go\<close>) and its guards (\<open>guard.go\<close>): the annotations
  the operator owns, fitting a note into an Event, and what keeps a Machine from being touched.
\<close>

section \<open>Names\<close>

definition AnnotationPrefix :: string where
  "AnnotationPrefix = ''nvsentinel.petasus.io''"

definition RemediationReasonAnnotation :: string where
  "RemediationReasonAnnotation = AnnotationPrefix @ ''/remediation-reason''"

definition RemediationActionAnnotation :: string where
  "RemediationActionAnnotation = AnnotationPrefix @ ''/remediation-action''"

definition RemediationBootIDAnnotation :: string where
  "RemediationBootIDAnnotation = AnnotationPrefix @ ''/remediation-boot-id''"

definition RemediationRequestAnnotation :: string where
  "RemediationRequestAnnotation = AnnotationPrefix @ ''/remediation-request''"

definition ActionRemediate :: string where "ActionRemediate = ''Remediate''"
definition ActionRestart :: string where "ActionRestart = ''Restart''"
definition EventMarkedForRemediation :: string where "EventMarkedForRemediation = ''MarkedForRemediation''"
definition EventRemediationSkipped :: string where "EventRemediationSkipped = ''RemediationSkipped''"
definition EventRemediationReleased :: string where "EventRemediationReleased = ''RemediationReleased''"

text \<open>The annotations of the operator and of Cluster API that matter here are all different.\<close>

lemma annotation_names_neq [simp]:
  "remediate_annotation \<noteq> paused_annotation" "remediate_annotation \<noteq> skip_remediation_annotation"
  "remediate_annotation \<noteq> RemediationReasonAnnotation" "remediate_annotation \<noteq> RemediationActionAnnotation"
  "remediate_annotation \<noteq> RemediationBootIDAnnotation" "remediate_annotation \<noteq> RemediationRequestAnnotation"
  "paused_annotation \<noteq> remediate_annotation" "paused_annotation \<noteq> skip_remediation_annotation"
  "paused_annotation \<noteq> RemediationReasonAnnotation" "paused_annotation \<noteq> RemediationActionAnnotation"
  "paused_annotation \<noteq> RemediationBootIDAnnotation" "paused_annotation \<noteq> RemediationRequestAnnotation"
  "skip_remediation_annotation \<noteq> remediate_annotation" "skip_remediation_annotation \<noteq> paused_annotation"
  "skip_remediation_annotation \<noteq> RemediationReasonAnnotation" "skip_remediation_annotation \<noteq> RemediationActionAnnotation"
  "skip_remediation_annotation \<noteq> RemediationBootIDAnnotation" "skip_remediation_annotation \<noteq> RemediationRequestAnnotation"
  "RemediationReasonAnnotation \<noteq> remediate_annotation" "RemediationReasonAnnotation \<noteq> paused_annotation"
  "RemediationReasonAnnotation \<noteq> skip_remediation_annotation" "RemediationReasonAnnotation \<noteq> RemediationActionAnnotation"
  "RemediationReasonAnnotation \<noteq> RemediationBootIDAnnotation" "RemediationReasonAnnotation \<noteq> RemediationRequestAnnotation"
  "RemediationActionAnnotation \<noteq> remediate_annotation" "RemediationActionAnnotation \<noteq> paused_annotation"
  "RemediationActionAnnotation \<noteq> skip_remediation_annotation" "RemediationActionAnnotation \<noteq> RemediationReasonAnnotation"
  "RemediationActionAnnotation \<noteq> RemediationBootIDAnnotation" "RemediationActionAnnotation \<noteq> RemediationRequestAnnotation"
  "RemediationBootIDAnnotation \<noteq> remediate_annotation" "RemediationBootIDAnnotation \<noteq> paused_annotation"
  "RemediationBootIDAnnotation \<noteq> skip_remediation_annotation" "RemediationBootIDAnnotation \<noteq> RemediationReasonAnnotation"
  "RemediationBootIDAnnotation \<noteq> RemediationActionAnnotation" "RemediationBootIDAnnotation \<noteq> RemediationRequestAnnotation"
  "RemediationRequestAnnotation \<noteq> remediate_annotation" "RemediationRequestAnnotation \<noteq> paused_annotation"
  "RemediationRequestAnnotation \<noteq> skip_remediation_annotation" "RemediationRequestAnnotation \<noteq> RemediationReasonAnnotation"
  "RemediationRequestAnnotation \<noteq> RemediationActionAnnotation" "RemediationRequestAnnotation \<noteq> RemediationBootIDAnnotation"
  by (simp_all add: remediate_annotation_def paused_annotation_def skip_remediation_annotation_def
      RemediationReasonAnnotation_def RemediationActionAnnotation_def RemediationBootIDAnnotation_def
      RemediationRequestAnnotation_def AnnotationPrefix_def)

lemma actions_neq [simp]: "ActionRemediate \<noteq> ActionRestart" "ActionRestart \<noteq> ActionRemediate"
  by (simp_all add: ActionRemediate_def ActionRestart_def)

section \<open>Notes\<close>

definition EventNoteLimit :: nat where
  "EventNoteLimit = 1024"

text \<open>The loop that moves the cut back to where a rune starts.\<close>

fun cut_back :: "string \<Rightarrow> nat \<Rightarrow> nat" where
  "cut_back note 0 = 0"
| "cut_back note (Suc n) = (if rune_start (note ! Suc n) then Suc n else cut_back note n)"

definition EventNote :: "string \<Rightarrow> string" where
  "EventNote note =
     (if length note \<le> EventNoteLimit then note
      else take (cut_back note (EventNoteLimit - 3)) note @ ''...'')"

lemma cut_back_le: "cut_back note n \<le> n"
  by (induction n) auto

lemma cut_back_start: "cut_back note n = 0 \<or> rune_start (note ! cut_back note n)"
  by (induction n) auto

lemma cut_back_last: "cut_back note n < i \<Longrightarrow> i \<le> n \<Longrightarrow> \<not> rune_start (note ! i)"
  by (induction n) (auto simp: le_Suc_eq split: if_splits)

lemma EventNote_le [simp]: "length (EventNote nt) \<le> EventNoteLimit"
proof -
  have "length (EventNote nt) \<le> EventNoteLimit - 3 + 3" if "EventNoteLimit < length nt"
    using that cut_back_le [of nt "EventNoteLimit - 3"] by (simp add: EventNote_def)
  then show ?thesis by (cases "length nt \<le> EventNoteLimit") (auto simp: EventNote_def EventNoteLimit_def)
qed

section \<open>Why a Machine is left alone\<close>

text \<open>\<open>NoSkip\<close> is the empty string: the Machine may be remediated.\<close>

datatype skip_reason =
  NoSkip | SkipDeleting | SkipAlreadyMarked | SkipControlPlane | SkipPaused | SkipOptedOut | SkipEarlierMark

fun skip_string :: "skip_reason \<Rightarrow> string" where
  "skip_string NoSkip = []"
| "skip_string SkipDeleting = ''MachineDeleting''"
| "skip_string SkipAlreadyMarked = ''AlreadyMarkedForRemediation''"
| "skip_string SkipControlPlane = ''ControlPlaneMachine''"
| "skip_string SkipPaused = ''MachinePaused''"
| "skip_string SkipOptedOut = ''MachineOptedOutOfRemediation''"
| "skip_string SkipEarlierMark = ''EarlierRemediationNotCleared''"

fun skip_Message :: "skip_reason \<Rightarrow> string" where
  "skip_Message SkipDeleting = ''the Machine is already being deleted''"
| "skip_Message SkipAlreadyMarked = ''the Machine is already marked for remediation''"
| "skip_Message SkipControlPlane = ''the Machine is a control plane member''"
| "skip_Message SkipPaused = ''the Machine is paused''"
| "skip_Message SkipOptedOut = ''the Machine has opted out of remediation''"
| "skip_Message SkipEarlierMark = ''the MachineHealthChecks still show the mark the Machine carried before''"
| "skip_Message s = skip_string s"

definition InProgress :: "skip_reason \<Rightarrow> bool" where
  "InProgress s \<longleftrightarrow> s = SkipDeleting \<or> s = SkipAlreadyMarked"

definition IsControlPlane :: "machine \<Rightarrow> bool" where
  "IsControlPlane m \<longleftrightarrow> m_labels m control_plane_label \<noteq> None"

definition IsMarkedForRemediation :: "machine \<Rightarrow> bool" where
  "IsMarkedForRemediation m \<longleftrightarrow> m_annotations m remediate_annotation \<noteq> None"

definition IsPaused :: "machine \<Rightarrow> bool" where
  "IsPaused m \<longleftrightarrow> m_annotations m paused_annotation \<noteq> None"

definition IsOptedOut :: "machine \<Rightarrow> bool" where
  "IsOptedOut m \<longleftrightarrow> m_annotations m skip_remediation_annotation \<noteq> None"

definition deleting :: "machine \<Rightarrow> bool" where
  "deleting m \<longleftrightarrow> m_deletion_timestamp m \<noteq> None"

definition Guard :: "machine \<Rightarrow> skip_reason" where
  "Guard m =
     (if deleting m then SkipDeleting
      else if IsMarkedForRemediation m then SkipAlreadyMarked
      else if IsControlPlane m then SkipControlPlane
      else if IsPaused m then SkipPaused
      else if IsOptedOut m then SkipOptedOut
      else NoSkip)"

definition EarlierMarkPending :: "kube \<Rightarrow> machine \<Rightarrow> bool" where
  "EarlierMarkPending K m =
     (if IsMarkedForRemediation m then False
      else (case find_status_condition K (m_conditions m) health_check_succeeded of
              None \<Rightarrow> False
            | Some c \<Rightarrow> cond_status c = ''False'' \<and> cond_reason c = has_remediate_reason K))"

text \<open>A reading of an annotation that gives the empty string when it is missing.\<close>

definition annotation :: "machine \<Rightarrow> string \<Rightarrow> string" where
  "annotation m k = (case m_annotations m k of None \<Rightarrow> [] | Some v \<Rightarrow> v)"

lemma Guard_NoSkip_iff:
  "Guard m = NoSkip \<longleftrightarrow> \<not> deleting m \<and> \<not> IsMarkedForRemediation m \<and> \<not> IsControlPlane m \<and>
     \<not> IsPaused m \<and> \<not> IsOptedOut m"
  by (simp add: Guard_def)

lemma Guard_not_EarlierMark [simp]: "Guard m \<noteq> SkipEarlierMark"
  by (simp add: Guard_def)

lemma marked_not_pending: "IsMarkedForRemediation m \<Longrightarrow> \<not> EarlierMarkPending K m"
  by (simp add: EarlierMarkPending_def)

section \<open>Properties\<close>

text \<open>A note always fits the events API. One that already does is kept; a longer one is cut to a
  prefix that ends where a rune ends, not more than a rune short of the limit, and marked with dots.\<close>

theorem EventNote_fits:
  "length (EventNote note) \<le> EventNoteLimit \<and>
   (if length note \<le> EventNoteLimit then EventNote note = note
    else \<exists>n \<le> EventNoteLimit - 3. EventNote note = take n note @ ''...'' \<and>
      (n = 0 \<or> rune_start (note ! n)) \<and> (\<forall>i. n < i \<and> i \<le> EventNoteLimit - 3 \<longrightarrow> \<not> rune_start (note ! i)))"
proof (cases "length note \<le> EventNoteLimit")
  case True
  then show ?thesis by (simp add: EventNote_def)
next
  case False
  let ?n = "cut_back note (EventNoteLimit - 3)"
  have le: "?n \<le> EventNoteLimit - 3" by (rule cut_back_le)
  then have "length (EventNote note) \<le> EventNoteLimit"
    using False by (simp add: EventNote_def EventNoteLimit_def)
  moreover have "\<exists>n \<le> EventNoteLimit - 3. EventNote note = take n note @ ''...'' \<and>
      (n = 0 \<or> rune_start (note ! n)) \<and> (\<forall>i. n < i \<and> i \<le> EventNoteLimit - 3 \<longrightarrow> \<not> rune_start (note ! i))"
    using False le cut_back_start [of "note"] cut_back_last [of "note"]
    by (intro exI [of _ ?n]) (auto simp: EventNote_def)
  ultimately show ?thesis using False by simp
qed

theorem EventNote_fits_witness:
  "EventNoteLimit < length (replicate 2000 CHR ''x'') \<and>
   length (EventNote (replicate 2000 CHR ''x'')) \<le> EventNoteLimit"
  using EventNote_fits [of "replicate 2000 CHR ''x''"] by (simp add: EventNoteLimit_def)

end
