(* ===== verification/Coverage.thy ===== *)
theory Coverage
  imports Guard Examples
begin

text \<open>
  Coverage (\<open>internal/capi/coverage.go\<close>): which MachineHealthChecks select a Machine, and so what
  marking it does.
\<close>

record covering_check =
  cc_name :: string
  cc_template :: "template_ref option"
  cc_paused :: bool

text \<open>\<open>Coverage\<close> is a struct of one field, the checks.\<close>

type_synonym coverage = "covering_check list"

fun Covered :: "coverage \<Rightarrow> bool" where
  "Covered [] = False"
| "Covered (check # rest) = (if \<not> cc_paused check then True else Covered rest)"

fun all_templates :: "coverage \<Rightarrow> bool" where
  "all_templates [] = True"
| "all_templates (check # rest) = (if cc_template check = None then False else all_templates rest)"

definition TemplatesOnly :: "coverage \<Rightarrow> bool" where
  "TemplatesOnly c = (if \<not> Covered c then False else all_templates c)"

definition IgnoringPause :: "coverage \<Rightarrow> coverage" where
  "IgnoringPause c = map (\<lambda>check. check\<lparr>cc_paused := False\<rparr>) c"

definition describe_check :: "covering_check \<Rightarrow> string" where
  "describe_check check = ''MachineHealthCheck '' @ cc_name check @ '' '' @
     (case cc_template check of
        None \<Rightarrow> ''remediates by replacement''
      | Some t \<Rightarrow> ''remediates through '' @ t_kind t @ '' '' @ t_name t) @
     (if cc_paused check then '' (paused)'' else [])"

definition Describe :: "coverage \<Rightarrow> string" where
  "Describe c =
     (if c = [] then ''no MachineHealthCheck selects the Machine''
      else join ''; '' (map describe_check c))"

text \<open>Whether one check selects the Machine, and what is kept of it when it does.\<close>

definition selects :: "kube \<Rightarrow> machine \<Rightarrow> health_check \<Rightarrow> bool" where
  "selects K m mhc =
     (if h_namespace mhc \<noteq> m_namespace m \<or> h_cluster mhc \<noteq> m_cluster m then False
      else (case selector_matches K (h_selector mhc) (cluster_name_label K) (h_cluster mhc) of
              None \<Rightarrow> False
            | Some matches \<Rightarrow> matches (m_labels m)))"

definition covering :: "kube \<Rightarrow> health_check \<Rightarrow> covering_check" where
  "covering K mhc = \<lparr>cc_name = h_name mhc, cc_template = h_template mhc, cc_paused = has_paused K (h_annotations mhc)\<rparr>"

definition CoverageOf :: "kube \<Rightarrow> health_check list \<Rightarrow> machine \<Rightarrow> coverage" where
  "CoverageOf K checks m = sort_key cc_name (map (covering K) (filter (selects K m) checks))"

definition ListHealthChecks :: "env \<Rightarrow> cluster \<Rightarrow> ((call, 'w) world_scheme, go_error + health_check list) state" where
  "ListHealthChecks E cluster = do {
     r \<leftarrow> ask (ListChecks (c_namespace cluster)) (\<lambda>h. list_health_checks E h (c_namespace cluster));
     State_Monad.return (case r of
         Inl err \<Rightarrow> Inl (Wrapped (''list machinehealthchecks of '' @ c_namespace cluster @ ''/'' @ c_name cluster) err)
       | Inr items \<Rightarrow> Inr (filter (\<lambda>mhc. h_cluster mhc = c_name cluster) items))
   }"

section \<open>What the checks will do\<close>

lemma Covered_iff: "Covered c \<longleftrightarrow> (\<exists>check \<in> set c. \<not> cc_paused check)"
  by (induction c) auto

lemma all_templates_iff: "all_templates c \<longleftrightarrow> (\<forall>check \<in> set c. cc_template check \<noteq> None)"
  by (induction c) auto

lemma TemplatesOnly_iff:
  "TemplatesOnly c \<longleftrightarrow> (\<exists>check \<in> set c. \<not> cc_paused check) \<and> (\<forall>check \<in> set c. cc_template check \<noteq> None)"
  by (simp add: TemplatesOnly_def Covered_iff all_templates_iff)

lemma TemplatesOnly_Covered: "TemplatesOnly c \<Longrightarrow> Covered c"
  by (simp add: TemplatesOnly_def split: if_splits)

lemma set_CoverageOf:
  "set (CoverageOf K checks m) = covering K ` {mhc \<in> set checks. selects K m mhc}"
  by (auto simp: CoverageOf_def)

lemma Covered_CoverageOf:
  "Covered (CoverageOf K checks m) \<longleftrightarrow> (\<exists>mhc \<in> set checks. selects K m mhc \<and> \<not> has_paused K (h_annotations mhc))"
  by (auto simp: Covered_iff set_CoverageOf covering_def)

lemma TemplatesOnly_CoverageOf:
  "TemplatesOnly (CoverageOf K checks m) \<longleftrightarrow> Covered (CoverageOf K checks m) \<and>
     (\<forall>mhc \<in> set checks. selects K m mhc \<longrightarrow> h_template mhc \<noteq> None)"
  by (auto simp: TemplatesOnly_iff Covered_iff set_CoverageOf covering_def)

lemma IgnoringPause_Covered: "Covered (IgnoringPause c) \<longleftrightarrow> c \<noteq> []"
  by (cases c) (auto simp: IgnoringPause_def)

lemma IgnoringPause_TemplatesOnly:
  "TemplatesOnly (IgnoringPause c) \<longleftrightarrow> c \<noteq> [] \<and> (\<forall>check \<in> set c. cc_template check \<noteq> None)"
proof -
  have "all_templates (IgnoringPause c) \<longleftrightarrow> (\<forall>check \<in> set c. cc_template check \<noteq> None)"
    by (simp add: all_templates_iff IgnoringPause_def)
  then show ?thesis by (simp add: TemplatesOnly_def IgnoringPause_Covered)
qed

lemma IgnoringPause_idem: "IgnoringPause (IgnoringPause c) = IgnoringPause c"
  by (simp add: IgnoringPause_def)

lemma emits_ListHealthChecks [emits_rules]:
  "(\<And>ns r. P (ListChecks ns r)) \<Longrightarrow> emits P (ListHealthChecks E cluster)"
  unfolding ListHealthChecks_def by (intro emits_rules)

section \<open>Properties\<close>

text \<open>C40: The coverage of a Machine lists, by name, exactly the checks of its namespace and Cluster whose
  selector, with the Cluster's name added, parses and matches its labels. It says that the Machine is
  covered when one of those is not paused, and that marking it asks for templates only when, besides,
  every one of those, paused or not, has a template.\<close>

theorem CoverageOf_exact:
  "let cov = CoverageOf K checks m; those = filter (selects K m) checks in
     mset cov = mset (map (covering K) those) \<and> sorted (map cc_name cov) \<and>
     (Covered cov \<longleftrightarrow> (\<exists>mhc \<in> set those. \<not> has_paused K (h_annotations mhc))) \<and>
     (TemplatesOnly cov \<longleftrightarrow> Covered cov \<and> (\<forall>mhc \<in> set those. h_template mhc \<noteq> None))"
  by (auto simp: Let_def Covered_CoverageOf TemplatesOnly_CoverageOf) (simp_all add: CoverageOf_def)

definition example_check :: health_check where
  "example_check = \<lparr>h_namespace = ''ns'', h_name = ''gpu-np'', h_annotations = Map.empty, h_cluster = ''c'',
     h_selector = \<lparr>match_labels = [], match_expressions = []\<rparr>, h_template = Some \<lparr>t_kind = ''RebootTemplate'', t_name = ''reboot''\<rparr>\<rparr>"

theorem CoverageOf_exact_witness:
  "let there = example_machine\<lparr>m_labels := [''cluster.x-k8s.io/cluster-name'' \<mapsto> ''c'']\<rparr> in
     map cc_name (CoverageOf plain_kube [example_check] there) = [''gpu-np''] \<and>
     TemplatesOnly (CoverageOf plain_kube [example_check] there)"
proof -
  let ?there = "example_machine\<lparr>m_labels := [''cluster.x-k8s.io/cluster-name'' \<mapsto> ''c'']\<rparr>"
  have "filter (selects plain_kube ?there) [example_check] = [example_check]"
    by (simp add: selects_def example_check_def example_machine_def plain_kube_def)
  with CoverageOf_exact [of plain_kube "[example_check]" ?there] show ?thesis
    by (simp add: Let_def CoverageOf_def covering_def) (simp add: example_check_def plain_kube_def)
qed

text \<open>Lifting the pause of checks never takes a remediation away: what a coverage can carry out now it
  can carry out once its checks are unpaused, and then nothing more changes.\<close>

theorem IgnoringPause_monotone:
  "(Covered c \<longrightarrow> Covered (IgnoringPause c)) \<and> (TemplatesOnly c \<longrightarrow> TemplatesOnly (IgnoringPause c)) \<and>
   IgnoringPause (IgnoringPause c) = IgnoringPause c"
proof -
  have "Covered c \<Longrightarrow> c \<noteq> []" by (cases c) auto
  then show ?thesis
    by (metis IgnoringPause_Covered IgnoringPause_TemplatesOnly IgnoringPause_idem TemplatesOnly_iff TemplatesOnly_Covered)
qed

theorem IgnoringPause_monotone_witness:
  "TemplatesOnly [\<lparr>cc_name = ''a'', cc_template = Some \<lparr>t_kind = ''k'', t_name = ''t''\<rparr>, cc_paused = False\<rparr>] \<and>
   TemplatesOnly (IgnoringPause [\<lparr>cc_name = ''a'', cc_template = Some \<lparr>t_kind = ''k'', t_name = ''t''\<rparr>, cc_paused = False\<rparr>])"
  using IgnoringPause_monotone
    [of "[\<lparr>cc_name = ''a'', cc_template = Some \<lparr>t_kind = ''k'', t_name = ''t''\<rparr>, cc_paused = False\<rparr>]"]
  by (simp add: TemplatesOnly_def)

end
