(* ===== verification/Actuator.thy ===== *)
theory Actuator
  imports Guard Examples
begin

text \<open>
  The actuator of package \<open>capi\<close> (\<open>internal/capi/remediate.go\<close> and \<open>release.go\<close>): marking a Machine
  for remediation, turning a restart mark into a replacement mark, and removing a mark again. The
  fields of \<open>Actuator\<close> are its client, in the environment, and \<open>DryRun\<close>, an argument. An operation
  that updates the Machine in place returns it.
\<close>

section \<open>Marks\<close>

record restart_record =
  r_boot_id :: string
  r_request :: string

definition MarkedAction :: "machine \<Rightarrow> string option" where
  "MarkedAction m =
     (if \<not> IsMarkedForRemediation m then None else m_annotations m RemediationActionAnnotation)"

text \<open>The annotations a mark is made of.\<close>

definition marked_annotations :: "labels \<Rightarrow> string \<Rightarrow> string \<Rightarrow> restart_record \<Rightarrow> labels" where
  "marked_annotations a action reason restart =
     (let a1 = a(remediate_annotation \<mapsto> [], RemediationReasonAnnotation \<mapsto> reason,
                 RemediationActionAnnotation \<mapsto> action);
          a2 = (if r_boot_id restart \<noteq> [] then a1(RemediationBootIDAnnotation \<mapsto> r_boot_id restart) else a1)
      in (if r_request restart \<noteq> [] then a2(RemediationRequestAnnotation \<mapsto> r_request restart) else a2))"

definition released_annotations :: "labels \<Rightarrow> labels" where
  "released_annotations a = a(remediate_annotation := None, RemediationReasonAnnotation := None,
     RemediationActionAnnotation := None, RemediationBootIDAnnotation := None,
     RemediationRequestAnnotation := None)"

definition escalated_annotations :: "labels \<Rightarrow> string \<Rightarrow> labels" where
  "escalated_annotations a reason = a(RemediationActionAnnotation \<mapsto> ActionRemediate,
     RemediationReasonAnnotation \<mapsto> reason, RemediationBootIDAnnotation := None,
     RemediationRequestAnnotation := None)"

section \<open>Operations\<close>

definition patch :: "env \<Rightarrow> machine \<Rightarrow> machine \<Rightarrow> bool \<Rightarrow> ((call, 'w) world_scheme, go_error + machine) state" where
  "patch E base updated lock = ask (PatchMachine base updated lock) (\<lambda>h. patch_machine E h base updated lock)"

definition patch_error :: "machine \<Rightarrow> go_error \<Rightarrow> go_error" where
  "patch_error m err = Wrapped (''patch machine '' @ m_namespace m @ ''/'' @ m_name m) err"

definition MarkForRemediation ::
  "env \<Rightarrow> bool \<Rightarrow> machine \<Rightarrow> string \<Rightarrow> string \<Rightarrow> restart_record \<Rightarrow>
   ((call, 'w) world_scheme, (go_error + skip_reason) \<times> machine) state" where
  "MarkForRemediation E dryRun m action reason restart =
     (if Guard m \<noteq> NoSkip then State_Monad.return (Inr (Guard m), m)
      else if dryRun then State_Monad.return (Inr NoSkip, m)
      else do {
        r \<leftarrow> patch E m (m\<lparr>m_annotations := marked_annotations (m_annotations m) action reason restart\<rparr>) False;
        case r of
          Inl err \<Rightarrow> State_Monad.return (Inl (patch_error m err), m)
        | Inr updated \<Rightarrow> do {
            emit_event (on_machine updated) WarningEvent EventMarkedForRemediation action
              (EventNote (''Marked for remediation: '' @ reason));
            State_Monad.return (Inr NoSkip, updated)
          }
      })"

definition RecordSkipped ::
  "bool \<Rightarrow> machine \<Rightarrow> skip_reason \<Rightarrow> string \<Rightarrow> string \<Rightarrow> ((call, 'w) world_scheme, unit) state" where
  "RecordSkipped dryRun m skip action reason =
     (if dryRun \<or> skip = NoSkip \<or> InProgress skip then State_Monad.return ()
      else emit_event (on_machine m) WarningEvent EventRemediationSkipped action
        (EventNote (''Remediation skipped because '' @ skip_Message skip @ '': '' @ reason)))"

definition Release ::
  "env \<Rightarrow> bool \<Rightarrow> machine \<Rightarrow> string \<Rightarrow> ((call, 'w) world_scheme, (go_error + bool) \<times> machine) state" where
  "Release E dryRun m reason =
     (case MarkedAction m of
        None \<Rightarrow> State_Monad.return (Inr False, m)
      | Some action \<Rightarrow>
          if deleting m then State_Monad.return (Inr False, m)
          else if dryRun then State_Monad.return (Inr True, m)
          else do {
            r \<leftarrow> patch E m (m\<lparr>m_annotations := released_annotations (m_annotations m)\<rparr>) True;
            case r of
              Inl err \<Rightarrow> State_Monad.return (Inl (patch_error m err), m)
            | Inr updated \<Rightarrow> do {
                emit_event (on_machine updated) NormalEvent EventRemediationReleased action
                  (EventNote (''Released from remediation: '' @ reason));
                State_Monad.return (Inr True, updated)
              }
          })"

definition RestartCompleted :: "machine \<Rightarrow> node option \<Rightarrow> bool" where
  "RestartCompleted m node =
     (case node of
        None \<Rightarrow> False
      | Some n \<Rightarrow>
          if MarkedAction m \<noteq> Some ActionRestart then False
          else
            let recorded = annotation m RemediationBootIDAnnotation; current = n_boot_id n in
            if recorded = [] \<or> current = [] \<or> current = recorded then False
            else (case find (\<lambda>c. cond_type c = ''Ready'') (n_conditions n) of
                    None \<Rightarrow> False
                  | Some c \<Rightarrow> cond_status c = ''True''))"

definition RestartAnswers :: "machine \<Rightarrow> string \<Rightarrow> bool" where
  "RestartAnswers m request =
     (let asked = annotation m RemediationRequestAnnotation in asked = [] \<or> asked = request)"

definition Escalate ::
  "env \<Rightarrow> bool \<Rightarrow> machine \<Rightarrow> string \<Rightarrow> ((call, 'w) world_scheme, (go_error + bool) \<times> machine) state" where
  "Escalate E dryRun m reason =
     (if MarkedAction m \<noteq> Some ActionRestart \<or> deleting m then State_Monad.return (Inr False, m)
      else if dryRun then State_Monad.return (Inr True, m)
      else do {
        r \<leftarrow> patch E m (m\<lparr>m_annotations := escalated_annotations (m_annotations m) reason\<rparr>) True;
        case r of
          Inl err \<Rightarrow> State_Monad.return (Inl (patch_error m err), m)
        | Inr updated \<Rightarrow> do {
            emit_event (on_machine updated) WarningEvent EventMarkedForRemediation ActionRemediate
              (EventNote (''Restart escalated to a replacement: '' @ reason));
            State_Monad.return (Inr True, updated)
          }
      })"

section \<open>The calls each operation makes\<close>

lemma emits_patch [emits_rules]: "(\<And>r. P (PatchMachine b u l r)) \<Longrightarrow> emits P (patch E b u l)"
  unfolding patch_def by (intro emits_rules)

lemma run_patch [simp]:
  "run_state (patch E b u l) s = (patch_machine E (history s) b u l,
     s\<lparr>history := history s @ [PatchMachine b u l (patch_machine E (history s) b u l)]\<rparr>)"
  by (simp add: patch_def)

text \<open>What may be written to a Machine: the three patches below, each under the conditions that the
  actuator checks on the Machine it patches.\<close>

definition mark_patch :: "machine \<Rightarrow> machine \<Rightarrow> bool" where
  "mark_patch b u \<longleftrightarrow> Guard b = NoSkip \<and> (\<exists>action reason restart.
     u = b\<lparr>m_annotations := marked_annotations (m_annotations b) action reason restart\<rparr>)"

definition release_patch :: "machine \<Rightarrow> machine \<Rightarrow> bool" where
  "release_patch b u \<longleftrightarrow> MarkedAction b \<noteq> None \<and> \<not> deleting b \<and>
     u = b\<lparr>m_annotations := released_annotations (m_annotations b)\<rparr>"

definition escalate_patch :: "machine \<Rightarrow> machine \<Rightarrow> bool" where
  "escalate_patch b u \<longleftrightarrow> MarkedAction b = Some ActionRestart \<and> \<not> deleting b \<and>
     (\<exists>reason. u = b\<lparr>m_annotations := escalated_annotations (m_annotations b) reason\<rparr>)"

text \<open>The operations do not write in dry run, and otherwise write these patches and Events only.\<close>

lemma emits_MarkForRemediation:
  assumes "\<And>r. \<not> dryRun \<Longrightarrow> Guard m = NoSkip \<Longrightarrow> P (PatchMachine m
      (m\<lparr>m_annotations := marked_annotations (m_annotations m) action reason restart\<rparr>) False r)"
    and "\<And>obj ty ac nt. \<not> dryRun \<Longrightarrow> P (EmitEvent obj ty EventMarkedForRemediation ac (EventNote nt))"
  shows "emits P (MarkForRemediation E dryRun m action reason restart)"
  unfolding MarkForRemediation_def by (intro emits_rules) (use assms in auto)

lemma emits_RecordSkipped:
  assumes "\<And>obj ty rs ac nt. \<not> dryRun \<Longrightarrow> P (EmitEvent obj ty rs ac (EventNote nt))"
  shows "emits P (RecordSkipped dryRun m skip action reason)"
  unfolding RecordSkipped_def by (intro emits_rules) (use assms in auto)

lemma emits_Release:
  assumes "\<And>r. \<not> dryRun \<Longrightarrow> MarkedAction m \<noteq> None \<Longrightarrow> \<not> deleting m \<Longrightarrow> P (PatchMachine m
      (m\<lparr>m_annotations := released_annotations (m_annotations m)\<rparr>) True r)"
    and "\<And>obj ty rs ac nt. \<not> dryRun \<Longrightarrow> P (EmitEvent obj ty rs ac (EventNote nt))"
  shows "emits P (Release E dryRun m reason)"
  unfolding Release_def by (intro emits_rules) (use assms in auto)

lemma emits_Escalate:
  assumes "\<And>r. \<not> dryRun \<Longrightarrow> MarkedAction m = Some ActionRestart \<Longrightarrow> \<not> deleting m \<Longrightarrow> P (PatchMachine m
      (m\<lparr>m_annotations := escalated_annotations (m_annotations m) reason\<rparr>) True r)"
    and "\<And>obj ty ac nt. \<not> dryRun \<Longrightarrow> P (EmitEvent obj ty EventMarkedForRemediation ac (EventNote nt))"
  shows "emits P (Escalate E dryRun m reason)"
  unfolding Escalate_def by (intro emits_rules) (use assms in auto)

section \<open>What the patches change\<close>

text \<open>The annotations of a mark; the first is Cluster API's, the others are the operator's.\<close>

definition mark_annotations :: "string list" where
  "mark_annotations = [remediate_annotation, RemediationReasonAnnotation, RemediationActionAnnotation,
     RemediationBootIDAnnotation, RemediationRequestAnnotation]"

definition own_patch :: "machine \<Rightarrow> machine \<Rightarrow> bool" where
  "own_patch b u \<longleftrightarrow> mark_patch b u \<or> release_patch b u \<or> escalate_patch b u"

lemma marked_annotations_other [simp]:
  "k \<notin> set mark_annotations \<Longrightarrow> marked_annotations a action reason restart k = a k"
  by (simp add: marked_annotations_def mark_annotations_def Let_def)

lemma released_annotations_apply:
  "released_annotations a k = (if k \<in> set mark_annotations then None else a k)"
  by (simp add: released_annotations_def mark_annotations_def)

lemma escalated_annotations_other [simp]: "k \<notin> set mark_annotations \<Longrightarrow> escalated_annotations a reason k = a k"
  by (simp add: escalated_annotations_def mark_annotations_def)

lemma own_patch_frame:
  assumes "own_patch b u"
  shows "u = b\<lparr>m_annotations := m_annotations u\<rparr> \<and>
    (\<forall>k. k \<notin> set mark_annotations \<longrightarrow> m_annotations u k = m_annotations b k)"
  using assms unfolding own_patch_def mark_patch_def release_patch_def escalate_patch_def
  by (auto simp: released_annotations_apply)

lemma mark_patchI:
  "Guard b = NoSkip \<Longrightarrow> mark_patch b (b\<lparr>m_annotations := marked_annotations (m_annotations b) action reason restart\<rparr>)"
  by (auto simp: mark_patch_def)

lemma mark_patch_marks: "mark_patch b u \<Longrightarrow> \<not> IsMarkedForRemediation b \<and> IsMarkedForRemediation u"
  by (auto simp: mark_patch_def Guard_NoSkip_iff IsMarkedForRemediation_def marked_annotations_def Let_def)

lemma release_patch_unmarks: "release_patch b u \<Longrightarrow> IsMarkedForRemediation b \<and> \<not> IsMarkedForRemediation u"
  by (auto simp: release_patch_def MarkedAction_def IsMarkedForRemediation_def released_annotations_def
      split: if_splits)

lemma escalate_patch_keeps_mark:
  "escalate_patch b u \<Longrightarrow> IsMarkedForRemediation b \<and> IsMarkedForRemediation u \<and> MarkedAction u = Some ActionRemediate"
  by (auto simp: escalate_patch_def MarkedAction_def IsMarkedForRemediation_def escalated_annotations_def
      split: if_splits)

lemma MarkedAction_marked: "MarkedAction m = Some a \<Longrightarrow> IsMarkedForRemediation m"
  by (auto simp: MarkedAction_def split: if_splits)

lemma RestartCompleted_marked: "RestartCompleted m n \<Longrightarrow> MarkedAction m = Some ActionRestart"
  by (auto simp: RestartCompleted_def split: option.splits if_splits)

lemma released_not_marked [simp]: "MarkedAction (m\<lparr>m_annotations := released_annotations a\<rparr>) = None"
  by (simp add: MarkedAction_def IsMarkedForRemediation_def released_annotations_def)

lemma MarkedAction_marked_annotations [simp]:
  "MarkedAction (m\<lparr>m_annotations := marked_annotations a action reason restart\<rparr>) = Some action"
  by (simp add: MarkedAction_def IsMarkedForRemediation_def marked_annotations_def Let_def)

lemma released_marked_annotations:
  "released_annotations (marked_annotations a action reason restart) = released_annotations a"
  by (rule ext) (simp add: released_annotations_apply)

lemma released_annotations_id:
  "(\<And>k. k \<in> set mark_annotations \<Longrightarrow> a k = None) \<Longrightarrow> released_annotations a = a"
  by (rule ext) (simp add: released_annotations_apply)

section \<open>The API server\<close>

text \<open>
  What the code relies on of the API server: a patch it accepts changes the annotations that differ
  between the Machine it was made from and the updated one to what the latter has, in the same
  object; and with the resource version in it, it is only accepted while the Machine is still the
  one it was made from, so that the answer has exactly the updated annotations.
\<close>

definition documented_patch :: "env \<Rightarrow> bool" where
  "documented_patch E \<longleftrightarrow> (\<forall>h b u l m. patch_machine E h b u l = Inr m \<longrightarrow>
     (\<forall>k. m_annotations b k \<noteq> m_annotations u k \<longrightarrow> m_annotations m k = m_annotations u k) \<and>
     (l \<longrightarrow> m_annotations m = m_annotations u) \<and>
     m_namespace m = m_namespace u \<and> m_name m = m_name u)"

text \<open>Nobody else writes the Machine meanwhile: every patch is accepted as it is.\<close>

definition undisturbed :: "env \<Rightarrow> bool" where
  "undisturbed E \<longleftrightarrow> (\<forall>h b u l. \<exists>v. patch_machine E h b u l = Inr (u\<lparr>m_resource_version := v\<rparr>))"

lemma documented_patch_locked:
  "documented_patch E \<Longrightarrow> patch_machine E h b u True = Inr m \<Longrightarrow> m_annotations m = m_annotations u"
  by (auto simp: documented_patch_def)

lemma documented_patch_changed:
  "documented_patch E \<Longrightarrow> patch_machine E h b u l = Inr m \<Longrightarrow> m_annotations b k \<noteq> m_annotations u k \<Longrightarrow>
   m_annotations m k = m_annotations u k"
  by (auto simp: documented_patch_def)

lemma quiet_env_documented: "documented_patch quiet_env"
  by (simp add: documented_patch_def quiet_env_def)

lemma quiet_env_undisturbed: "undisturbed quiet_env"
proof -
  have "\<exists>v. u = u\<lparr>m_resource_version := v\<rparr>" for u :: machine
    by (rule exI [of _ "m_resource_version u"]) simp
  then show ?thesis by (simp add: undisturbed_def quiet_env_def)
qed

lemma example_machine_unmarked:
  "Guard example_machine = NoSkip \<and> (\<forall>k \<in> set mark_annotations. m_annotations example_machine k = None)"
  by (simp add: Guard_NoSkip_iff deleting_def IsMarkedForRemediation_def IsControlPlane_def IsPaused_def
      IsOptedOut_def example_machine_def)

section \<open>Properties\<close>

text \<open>Marking a Machine that no guard protects and that carries nothing of an earlier mark ends in one of
  two ways. When the patch fails, the Machine is as it was and no Event is recorded. When it succeeds, the
  Machine is marked with the action asked for, the reason, and the boot ID and the request of the restart
  where there are any, one Event says so, and the guards from then on report it as already marked.\<close>

theorem MarkForRemediation_marks:
  assumes "documented_patch E" and "Guard m = NoSkip"
    and "\<forall>k \<in> set mark_annotations. m_annotations m k = None"
    and "run_state (MarkForRemediation E False m action reason restart) s = ((r, m'), s')"
  shows "case r of
      Inl _ \<Rightarrow> m' = m \<and> (\<exists>u e. history s' = history s @ [PatchMachine m u False (Inl e)])
    | Inr skip \<Rightarrow> skip = NoSkip \<and> MarkedAction m' = Some action \<and>
        annotation m' RemediationReasonAnnotation = reason \<and>
        (r_boot_id restart \<noteq> [] \<longrightarrow> annotation m' RemediationBootIDAnnotation = r_boot_id restart) \<and>
        (r_request restart \<noteq> [] \<longrightarrow> annotation m' RemediationRequestAnnotation = r_request restart) \<and>
        Guard m' \<in> {SkipDeleting, SkipAlreadyMarked} \<and>
        (\<exists>u e. history s' = history s @ [PatchMachine m u False (Inr m'), e] \<and> is_write e)"
proof -
  let ?u = "m\<lparr>m_annotations := marked_annotations (m_annotations m) action reason restart\<rparr>"
  show ?thesis
  proof (cases "patch_machine E (history s) m ?u False")
    case (Inl e)
    then show ?thesis using assms by (auto simp: MarkForRemediation_def)
  next
    case (Inr v)
    have v: "m_annotations v k = m_annotations ?u k" if "m_annotations m k \<noteq> m_annotations ?u k" for k
      using documented_patch_changed [OF assms(1) Inr that] .
    have none: "m_annotations m k = None" if "k \<in> set mark_annotations" for k
      using assms(3) that by blast
    note fresh = none [unfolded mark_annotations_def]
    have "m_annotations v remediate_annotation = Some []" "m_annotations v RemediationActionAnnotation = Some action"
      "m_annotations v RemediationReasonAnnotation = Some reason"
      using v [of remediate_annotation] v [of RemediationActionAnnotation] v [of RemediationReasonAnnotation]
      by (simp_all add: marked_annotations_def Let_def fresh)
    moreover have "r_boot_id restart \<noteq> [] \<Longrightarrow> m_annotations v RemediationBootIDAnnotation = Some (r_boot_id restart)"
      "r_request restart \<noteq> [] \<Longrightarrow> m_annotations v RemediationRequestAnnotation = Some (r_request restart)"
      using v [of RemediationBootIDAnnotation] v [of RemediationRequestAnnotation]
      by (simp_all add: marked_annotations_def Let_def fresh)
    ultimately show ?thesis using assms(2,4) Inr
      by (auto simp: MarkForRemediation_def MarkedAction_def IsMarkedForRemediation_def annotation_def Guard_def)
  qed
qed

theorem MarkForRemediation_marks_witness:
  "\<exists>m' s'. run_state (MarkForRemediation quiet_env False example_machine ActionRestart ''why''
       \<lparr>r_boot_id = ''b'', r_request = ''q''\<rparr>) \<lparr>history = []\<rparr> = ((Inr NoSkip, m'), s' :: call world) \<and>
     MarkedAction m' = Some ActionRestart"
proof -
  obtain m' s' where run: "run_state (MarkForRemediation quiet_env False example_machine ActionRestart ''why''
       \<lparr>r_boot_id = ''b'', r_request = ''q''\<rparr>) \<lparr>history = []\<rparr> = ((Inr NoSkip, m'), s' :: call world)"
    using example_machine_unmarked by (simp add: MarkForRemediation_def quiet_env_def)
  with MarkForRemediation_marks [OF quiet_env_documented _ _ run] example_machine_unmarked show ?thesis by auto
qed

text \<open>Marking a Machine and releasing it again leaves it as it was, but for its resource version, as
  long as it carried nothing of an earlier mark and nobody else wrote it meanwhile.\<close>

theorem mark_release_roundtrip:
  assumes "undisturbed E" and "Guard m = NoSkip"
    and "\<forall>k \<in> set mark_annotations. m_annotations m k = None"
    and "run_state (do { (r1, m1) \<leftarrow> MarkForRemediation E False m action reason restart;
           Release E False m1 why }) s = ((r, m'), s')"
  shows "r = Inr True \<and> m' = m\<lparr>m_resource_version := m_resource_version m'\<rparr>"
proof -
  let ?a = "marked_annotations (m_annotations m) action reason restart"
  obtain v where v: "patch_machine E (history s) m (m\<lparr>m_annotations := ?a\<rparr>) False =
      Inr (m\<lparr>m_annotations := ?a, m_resource_version := v\<rparr>)"
    using assms(1) unfolding undisturbed_def by metis
  let ?m1 = "m\<lparr>m_annotations := ?a, m_resource_version := v\<rparr>"
  have ma: "MarkedAction ?m1 = Some action"
    by (simp add: MarkedAction_def IsMarkedForRemediation_def marked_annotations_def Let_def)
  have id: "released_annotations ?a = m_annotations m"
    using assms(3) by (simp add: released_marked_annotations released_annotations_id)
  have nd: "\<not> deleting ?m1" using assms(2) by (simp add: Guard_NoSkip_iff deleting_def)
  obtain s1 where s1: "run_state (MarkForRemediation E False m action reason restart) s = ((Inr NoSkip, ?m1), s1)"
    using assms(2) v by (simp add: MarkForRemediation_def)
  obtain w where w: "patch_machine E (history s1) ?m1 (?m1\<lparr>m_annotations := m_annotations m\<rparr>) True =
      Inr (?m1\<lparr>m_annotations := m_annotations m, m_resource_version := w\<rparr>)"
    using assms(1) unfolding undisturbed_def by metis
  obtain s2 where s2: "run_state (Release E False ?m1 why) s1 =
      ((Inr True, ?m1\<lparr>m_annotations := m_annotations m, m_resource_version := w\<rparr>), s2)"
    using ma nd w by (simp add: Release_def id)
  show ?thesis using assms(4) s1 s2 by auto
qed

theorem mark_release_roundtrip_witness:
  "\<exists>s' :: call world. run_state (do { (r1, m1) \<leftarrow> MarkForRemediation quiet_env False example_machine ActionRestart ''why''
       \<lparr>r_boot_id = ''b'', r_request = ''q''\<rparr>; Release quiet_env False m1 ''done'' }) \<lparr>history = []\<rparr> =
     ((Inr True, example_machine), s')"
proof -
  let ?p = "do { (r1, m1) \<leftarrow> MarkForRemediation quiet_env False example_machine ActionRestart ''why''
       \<lparr>r_boot_id = ''b'', r_request = ''q''\<rparr>; Release quiet_env False m1 ''done'' }"
  obtain r m' and s' :: "call world" where run: "run_state ?p \<lparr>history = []\<rparr> = ((r, m'), s')"
    by (metis prod.exhaust)
  have rv: "m_resource_version m' = m_resource_version example_machine" if "r = Inr True"
    using run that example_machine_unmarked
    by (auto simp: MarkForRemediation_def Release_def quiet_env_def split: option.splits if_splits)
  from mark_release_roundtrip [OF quiet_env_undisturbed _ _ run] example_machine_unmarked
  have "r = Inr True" "m' = example_machine\<lparr>m_resource_version := m_resource_version m'\<rparr>" by auto
  with rv have "m' = example_machine" by (metis machine.surjective machine.update_convs(4))
  with run \<open>r = Inr True\<close> show ?thesis by blast
qed

text \<open>An escalation applies to a restart mark of a Machine that is not being deleted, and to nothing else.
  When its patch succeeds, the Machine is still marked, for a replacement, what was recorded for the restart is
  gone, and no node of its can complete the restart any more, so that it is never released for having restarted.\<close>

theorem Escalate_replaces_restart:
  assumes "documented_patch E"
    and "run_state (Escalate E False m reason) s = ((Inr escalated, m'), s')"
  shows "(escalated \<longleftrightarrow> MarkedAction m = Some ActionRestart \<and> \<not> deleting m) \<and>
    (if escalated
     then MarkedAction m' = Some ActionRemediate \<and> IsMarkedForRemediation m' \<and>
       annotation m' RemediationReasonAnnotation = reason \<and>
       annotation m' RemediationBootIDAnnotation = [] \<and> annotation m' RemediationRequestAnnotation = [] \<and>
       (\<forall>node. \<not> RestartCompleted m' node)
     else m' = m \<and> history s' = history s)"
proof (cases "MarkedAction m = Some ActionRestart \<and> \<not> deleting m")
  case False
  then show ?thesis using assms(2) by (auto simp: Escalate_def)
next
  case True
  let ?u = "m\<lparr>m_annotations := escalated_annotations (m_annotations m) reason\<rparr>"
  from assms(2) True have p: "escalated" "patch_machine E (history s) m ?u True = Inr m'"
    by (auto simp: Escalate_def split: sum.splits)
  have a: "m_annotations m' = escalated_annotations (m_annotations m) reason"
    using documented_patch_locked [OF assms(1) p(2)] by simp
  have marked: "IsMarkedForRemediation m" using True by (simp add: MarkedAction_marked)
  have action: "MarkedAction m' = Some ActionRemediate"
    using marked a by (simp add: MarkedAction_def IsMarkedForRemediation_def escalated_annotations_def)
  moreover have "\<not> RestartCompleted m' node" for node
    using action RestartCompleted_marked by force
  ultimately show ?thesis using p(1) True a
    by (simp add: MarkedAction_marked annotation_def escalated_annotations_def)
qed

definition restarting_machine :: machine where
  "restarting_machine = example_machine\<lparr>m_annotations := marked_annotations Map.empty ActionRestart ''why''
     \<lparr>r_boot_id = ''b'', r_request = ''q''\<rparr>\<rparr>"

theorem Escalate_replaces_restart_witness:
  "\<exists>m' s'. run_state (Escalate quiet_env False restarting_machine ''worse'') \<lparr>history = []\<rparr> = ((Inr True, m'), s' :: call world) \<and>
     MarkedAction m' = Some ActionRemediate"
proof -
  have "MarkedAction restarting_machine = Some ActionRestart" "\<not> deleting restarting_machine"
    unfolding restarting_machine_def by simp (simp add: deleting_def example_machine_def)
  then obtain m' s' where run: "run_state (Escalate quiet_env False restarting_machine ''worse'') \<lparr>history = []\<rparr> =
      ((Inr True, m'), s' :: call world)"
    by (simp add: Escalate_def quiet_env_def)
  with Escalate_replaces_restart [OF quiet_env_documented run] show ?thesis by auto
qed

end
