(* ===== verification/Mode.thy ===== *)
theory Mode
  imports Condition Extrr Decision
begin

text \<open>
  The mode of a workload cluster (\<open>internal/controller/mode.go\<close>), chosen from the resources it serves:
  where its signals are read from and whether they may be acted on.
\<close>

datatype mode = NoMode | ModeExternalRemediationRequest | ModeReportOnly | ModeNodeCondition

fun mode_string :: "mode \<Rightarrow> string" where
  "mode_string NoMode = []"
| "mode_string ModeExternalRemediationRequest = ''ExternalRemediationRequest''"
| "mode_string ModeReportOnly = ''ReportOnly''"
| "mode_string ModeNodeCondition = ''NodeCondition''"

definition janitorGroupVersionKind :: "string \<times> string \<times> string" where
  "janitorGroupVersionKind = (''janitor.dgxc.nvidia.com'', ''v1alpha1'', ''RebootNode'')"

definition group_kind_of :: "string \<times> string \<times> string \<Rightarrow> group_kind" where
  "group_kind_of gvk = (fst gvk, snd (snd gvk))"

definition version_of :: "string \<times> string \<times> string \<Rightarrow> string" where
  "version_of gvk = fst (snd gvk)"

text \<open>\<open>fmt\<close> writes a group and kind as the kind, a dot and the group.\<close>

definition group_kind_text :: "group_kind \<Rightarrow> string" where
  "group_kind_text gk = (if fst gk = [] then snd gk else snd gk @ ''.'' @ fst gk)"

definition served_result :: "group_kind \<Rightarrow> go_error option \<Rightarrow> go_error + bool" where
  "served_result gk e = (case e of
     None \<Rightarrow> Inr True
   | Some err \<Rightarrow> if kind_of err = NoMatch then Inr False
                 else Inl (Wrapped (''look up '' @ group_kind_text gk) err))"

definition isServed :: "env \<Rightarrow> group_kind \<Rightarrow> string \<Rightarrow> ((call, 'w) world_scheme, go_error + bool) state" where
  "isServed E gk version = do {
     e \<leftarrow> ask (LookUpWorkload gk version) (\<lambda>h. look_up_workload E h gk version);
     State_Monad.return (served_result gk e)
   }"

definition selectMode :: "env \<Rightarrow> ((call, 'w) world_scheme, go_error + mode) state" where
  "selectMode E = do {
     served \<leftarrow> isServed E (group_kind_of GroupVersionKind) (version_of GroupVersionKind);
     case served of
       Inl err \<Rightarrow> State_Monad.return (Inl err)
     | Inr True \<Rightarrow> State_Monad.return (Inr ModeExternalRemediationRequest)
     | Inr False \<Rightarrow> do {
         served \<leftarrow> isServed E (group_kind_of janitorGroupVersionKind) (version_of janitorGroupVersionKind);
         State_Monad.return (case served of
             Inl err \<Rightarrow> Inl err
           | Inr janitor \<Rightarrow> Inr (if janitor then ModeReportOnly else ModeNodeCondition))
       }
   }"

text \<open>The source of a mode, by its two methods.\<close>

definition source_Name :: "mode \<Rightarrow> string" where
  "source_Name m = (if m = ModeExternalRemediationRequest then SourceName_requests else SourceName)"

definition source_Collect :: "env \<Rightarrow> kube \<Rightarrow> mode \<Rightarrow> ((call, 'w) world_scheme, go_error + signal list) state" where
  "source_Collect E K m = (if m = ModeExternalRemediationRequest then Collect_requests E K else Collect_conditions E)"

definition describe_mode :: "mode \<Rightarrow> string" where
  "describe_mode m =
     (if m = ModeExternalRemediationRequest
      then ''reading NVSentinel's ExternalRemediationRequests; faults not routed to one are left to NVSentinel's janitor''
      else if m = ModeReportOnly
      then ''reading NVSentinel's node conditions and only reporting them, since NVSentinel's janitor remediates this cluster itself''
      else ''reading NVSentinel's node conditions'')"

text \<open>\<open>reportOnly\<close> of \<open>cluster_controller.go\<close>: why a decision taken in the mode is only reported, if it is.\<close>

definition reportOnly :: "mode \<Rightarrow> decision \<Rightarrow> string" where
  "reportOnly m d = (if m = ModeReportOnly \<and> d \<noteq> Report then ''NVSentinel's janitor remediates this cluster itself'' else [])"

section \<open>Calls\<close>

lemma emits_isServed [emits_rules]: "(\<And>gk v r. P (LookUpWorkload gk v r)) \<Longrightarrow> emits P (isServed E gk v)"
  unfolding isServed_def by (intro emits_rules)

lemma emits_selectMode [emits_rules]: "(\<And>gk v r. P (LookUpWorkload gk v r)) \<Longrightarrow> emits P (selectMode E)"
  unfolding selectMode_def by (intro emits_rules emits_bind) (auto split: bool.split intro!: emits_rules)

lemma emits_source_Collect [emits_rules]:
  "(\<And>r. P (ListRequests r)) \<Longrightarrow> (\<And>r. P (ListNodes r)) \<Longrightarrow> emits P (source_Collect E K m)"
  unfolding source_Collect_def by (intro emits_rules)

text \<open>Only requests give signals that name one, so a signal that does has the mode of requests.\<close>

lemma Collect_conditions_no_request:
  "run_state (Collect_conditions E) s = (Inr sigs, s') \<Longrightarrow> sig \<in> set sigs \<Longrightarrow> s_request sig = []"
  by (auto simp: Collect_conditions_def conditions.render_set node_signals_fields split: sum.splits)

lemma source_Collect_request:
  "run_state (source_Collect E K m) s = (Inr sigs, s') \<Longrightarrow> sig \<in> set sigs \<Longrightarrow> s_request sig \<noteq> [] \<Longrightarrow>
   m = ModeExternalRemediationRequest"
  by (auto simp: source_Collect_def dest: Collect_conditions_no_request split: if_splits)

section \<open>Properties\<close>

text \<open>The mode follows from what the cluster serves and from nothing else: requests when it serves them, so
  that the janitor's own remediation is never doubled; reporting only when it serves the janitor's resources
  without them; conditions when it serves neither. When a lookup that matters fails otherwise, there is no mode.\<close>

theorem selectMode_by_served:
  assumes "run_state (selectMode E) s = (r, s')"
  defines "requests \<equiv> look_up_workload E (history s) (group_kind_of GroupVersionKind) (version_of GroupVersionKind)"
    and "janitor \<equiv> \<lambda>h. look_up_workload E h (group_kind_of janitorGroupVersionKind) (version_of janitorGroupVersionKind)"
  shows "case requests of
      None \<Rightarrow> r = Inr ModeExternalRemediationRequest
    | Some e \<Rightarrow>
        if kind_of e \<noteq> NoMatch then \<exists>err. r = Inl err \<and> kind_of err = kind_of e
        else (case janitor (history s @ [LookUpWorkload (group_kind_of GroupVersionKind) (version_of GroupVersionKind) requests]) of
            None \<Rightarrow> r = Inr ModeReportOnly
          | Some e2 \<Rightarrow> if kind_of e2 \<noteq> NoMatch then \<exists>err. r = Inl err \<and> kind_of err = kind_of e2
                       else r = Inr ModeNodeCondition)"
  using assms(1) unfolding requests_def janitor_def
  by (auto simp: selectMode_def isServed_def served_result_def split: option.splits if_splits)

theorem selectMode_by_served_witness:
  "fst (run_state (selectMode (quiet_env\<lparr>look_up_workload := \<lambda>h gk v.
      if gk = group_kind_of GroupVersionKind then Some (ApiError NoMatch ''no match'') else None\<rparr>))
      (\<lparr>history = []\<rparr> :: call world)) = Inr ModeReportOnly"
proof -
  let ?E = "quiet_env\<lparr>look_up_workload := \<lambda>h gk v.
      if gk = group_kind_of GroupVersionKind then Some (ApiError NoMatch ''no match'') else None\<rparr>"
  obtain r and s' :: "call world" where run: "run_state (selectMode ?E) \<lparr>history = []\<rparr> = (r, s')"
    by (metis prod.exhaust)
  have "group_kind_of janitorGroupVersionKind \<noteq> group_kind_of GroupVersionKind"
    by (simp add: group_kind_of_def janitorGroupVersionKind_def GroupVersionKind_def)
  with selectMode_by_served [OF run] run show ?thesis by simp
qed

end
