(* ===== verification/Memory.thy ===== *)
theory Memory
  imports Mode Guard Examples
begin

text \<open>
  What the cluster controller is configured with and what it remembers between reconciles
  (\<open>internal/controller/cluster_controller.go\<close>): the conclusions about signals, the mode each Cluster was
  last read in, what a dry run found ready to be released, and the waits for checks that still show an
  earlier mark. A map per Cluster that is absent or nil is \<open>None\<close>; a set of Machine names is a list
  without repeats. Durations and times are nanoseconds.
\<close>

section \<open>Configuration\<close>

definition second :: int where
  "second = 1000000000"

definition DefaultPollInterval :: int where
  "DefaultPollInterval = 120 * second"

definition earlierMarkGrace :: int where
  "earlierMarkGrace = 60 * second"

text \<open>\<open>NoFallback\<close> is the empty string.\<close>

datatype restart_fallback = NoFallback | RestartFallbackReport | RestartFallbackReplace

fun fallback_string :: "restart_fallback \<Rightarrow> string" where
  "fallback_string NoFallback = []"
| "fallback_string RestartFallbackReport = ''report''"
| "fallback_string RestartFallbackReplace = ''replace''"

definition RestartFallbackAnnotation :: string where
  "RestartFallbackAnnotation = AnnotationPrefix @ ''/restart-fallback''"

definition ParseRestartFallback :: "kube \<Rightarrow> string \<Rightarrow> go_error + restart_fallback" where
  "ParseRestartFallback K s =
     (if s = fallback_string RestartFallbackReport then Inr RestartFallbackReport
      else if s = fallback_string RestartFallbackReplace then Inr RestartFallbackReplace
      else Inl (Plain (''restart fallback '' @ quote K s @ '' is neither '' @
        quote K (fallback_string RestartFallbackReport) @ '' nor '' @ quote K (fallback_string RestartFallbackReplace))))"

text \<open>The fields of \<open>ClusterReconciler\<close> that do not change; \<open>cf_watcher\<close> says whether it was set up with a
  manager, which gives it something to wake.\<close>

record config =
  cf_table :: table
  cf_dry_run :: bool
  cf_poll_interval :: int
  cf_selector :: "(labels \<Rightarrow> bool) option"
  cf_fallback :: restart_fallback
  cf_watcher :: bool

definition pollInterval :: "config \<Rightarrow> int" where
  "pollInterval cfg = (if 0 < cf_poll_interval cfg then cf_poll_interval cfg else DefaultPollInterval)"

definition restartFallback :: "kube \<Rightarrow> config \<Rightarrow> cluster \<Rightarrow> restart_fallback \<times> string" where
  "restartFallback K cfg cluster =
     (let fallback = (if cf_fallback cfg = NoFallback then RestartFallbackReport else cf_fallback cfg)
      in case c_annotations cluster RestartFallbackAnnotation of
          None \<Rightarrow> (fallback, [])
        | Some v \<Rightarrow> (case ParseRestartFallback K v of
              Inl err \<Rightarrow> (fallback, ''; the Cluster's '' @ RestartFallbackAnnotation @ '' annotation is ignored: '' @ error_text err)
            | Inr override \<Rightarrow> (override, [])))"

section \<open>Conclusions\<close>

record answer =
  an_complete :: bool
  an_reason :: string
  an_message :: string

definition zero_answer :: answer where
  "zero_answer = \<lparr>an_complete = False, an_reason = [], an_message = []\<rparr>"

definition given :: "answer \<Rightarrow> bool" where
  "given a \<longleftrightarrow> an_reason a \<noteq> []"

definition decline :: "signal \<Rightarrow> string \<Rightarrow> string \<Rightarrow> answer" where
  "decline sig reason message =
     (if s_request sig = [] then zero_answer
      else \<lparr>an_complete = False, an_reason = reason, an_message = message\<rparr>)"

record observation =
  ob_decision :: decision
  ob_action :: string
  ob_truncated :: bool
  ob_machine :: string
  ob_request :: string
  ob_skip :: skip_reason
  ob_coverage :: string
  ob_fallback :: string
  ob_answer :: answer

definition zero_observation :: observation where
  "zero_observation = \<lparr>ob_decision = NoDecision, ob_action = [], ob_truncated = False, ob_machine = [],
     ob_request = [], ob_skip = NoSkip, ob_coverage = [], ob_fallback = [], ob_answer = zero_answer\<rparr>"

text \<open>Reading a map of observations gives the zero value for a key that is not there.\<close>

definition observed :: "(string \<times> observation) list \<Rightarrow> string \<Rightarrow> observation" where
  "observed seen k = (case map_of seen k of None \<Rightarrow> zero_observation | Some obs \<Rightarrow> obs)"

section \<open>The memory\<close>

record checks_wait =
  w_since :: int
  w_over :: bool

record reconciler = "call world" +
  seen :: "cluster_key \<rightharpoonup> (string \<times> observation) list"
  would_release :: "cluster_key \<rightharpoonup> string list"
  modes :: "cluster_key \<rightharpoonup> mode"
  waiting :: "cluster_key \<rightharpoonup> (string \<times> checks_wait) list"

text \<open>What is remembered of one Cluster; nothing when there is nothing.\<close>

definition remembered :: "(cluster_key \<rightharpoonup> 'a list) \<Rightarrow> cluster_key \<Rightarrow> 'a list" where
  "remembered m key = (case m key of None \<Rightarrow> [] | Some xs \<Rightarrow> xs)"

definition observations :: "cluster_key \<Rightarrow> (reconciler, (string \<times> observation) list) state" where
  "observations key = gets (\<lambda>s. remembered (seen s) key)"

text \<open>A map is stored unless it is empty, in which case the key is dropped.\<close>

definition store :: "cluster_key \<Rightarrow> 'a list \<Rightarrow> (cluster_key \<rightharpoonup> 'a list) \<Rightarrow> (cluster_key \<rightharpoonup> 'a list)" where
  "store key xs m = (if xs = [] then m(key := None) else m(key \<mapsto> xs))"

definition remember ::
  "cluster_key \<Rightarrow> (string \<times> observation) list \<Rightarrow> (string \<times> observation) list \<Rightarrow> (reconciler, unit) state" where
  "remember key previous current = do {
     loop (\<lambda>(k, prev) _. if map_of current k = None then log_line Info ''health signal cleared'' else State_Monad.return ())
       previous ();
     modify (\<lambda>s. s\<lparr>seen := store key current (seen s)\<rparr>)
   }"

definition forget :: "cluster_key \<Rightarrow> (reconciler, unit) state" where
  "forget key = modify (\<lambda>s. s\<lparr>seen := (seen s)(key := None), would_release := (would_release s)(key := None),
     modes := (modes s)(key := None), waiting := (waiting s)(key := None)\<rparr>)"

definition releasableBefore :: "cluster_key \<Rightarrow> string \<Rightarrow> (reconciler, bool) state" where
  "releasableBefore key name = gets (\<lambda>s. name \<in> set (remembered (would_release s) key))"

definition rememberWouldRelease :: "cluster_key \<Rightarrow> string list \<Rightarrow> (reconciler, unit) state" where
  "rememberWouldRelease key names = modify (\<lambda>s. s\<lparr>would_release := store key names (would_release s)\<rparr>)"

subsection \<open>Waits\<close>

text \<open>
  \<open>heldForChecks\<close>, for the Machine's wait at a time: the wait afterwards, whether the restart is held, and
  how long the sign has been shown, when the bound lets a restart through for the first time.
\<close>

definition wait_step :: "int \<Rightarrow> checks_wait option \<Rightarrow> checks_wait \<times> bool \<times> int" where
  "wait_step now wait = (case wait of
     None \<Rightarrow> (\<lparr>w_since = now, w_over = False\<rparr>, True, 0)
   | Some w \<Rightarrow>
       if now - w_since w < earlierMarkGrace then (w, True, 0)
       else if w_over w then (w, False, 0)
       else (w\<lparr>w_over := True\<rparr>, False, now - w_since w))"

definition heldForChecks :: "env \<Rightarrow> kube \<Rightarrow> cluster_key \<Rightarrow> machine \<Rightarrow> (reconciler, bool \<times> int) state" where
  "heldForChecks E K key m =
     (if \<not> EarlierMarkPending K m then do {
        modify (\<lambda>s. s\<lparr>waiting := (waiting s)(key := map_option (AList.delete (m_name m)) (waiting s key))\<rparr>);
        State_Monad.return (False, 0)
      } else do {
        now \<leftarrow> read_clock E;
        wait \<leftarrow> gets (\<lambda>s. map_of (remembered (waiting s) key) (m_name m));
        (case wait_step now wait of (w, held, shown) \<Rightarrow> do {
          modify (\<lambda>s. s\<lparr>waiting := (waiting s)(key \<mapsto> AList.update (m_name m) w (remembered (waiting s) key))\<rparr>);
          State_Monad.return (held, shown)
        })
      })"

definition wait_left :: "int \<Rightarrow> checks_wait \<Rightarrow> int" where
  "wait_left now w = earlierMarkGrace - (now - w_since w)"

fun soonest :: "int \<Rightarrow> (string \<times> checks_wait) list \<Rightarrow> int \<Rightarrow> int" where
  "soonest now [] limit = limit"
| "soonest now ((_, w) # rest) limit =
     (let left = wait_left now w
      in if \<not> w_over w \<and> 0 < left \<and> left < limit then soonest now rest left else soonest now rest limit)"

definition nextLook :: "env \<Rightarrow> config \<Rightarrow> cluster_key \<Rightarrow> (reconciler, int) state" where
  "nextLook E cfg key = do {
     now \<leftarrow> read_clock E;
     waits \<leftarrow> gets (\<lambda>s. remembered (waiting s) key);
     State_Monad.return (soonest now waits (pollInterval cfg))
   }"

definition forgetWaits :: "kube \<Rightarrow> cluster_key \<Rightarrow> (string \<times> machine) list \<Rightarrow> (reconciler, unit) state" where
  "forgetWaits K key machines =
     (let pending = map m_name (filter (EarlierMarkPending K) (map snd machines))
      in modify (\<lambda>s. s\<lparr>waiting := store key
           (filter (\<lambda>(name, _). name \<in> set pending) (remembered (waiting s) key)) (waiting s)\<rparr>))"

subsection \<open>Modes\<close>

definition EventSignalSourceSelected :: string where "EventSignalSourceSelected = ''SignalSourceSelected''"
definition ActionSelectSource :: string where "ActionSelectSource = ''SelectSource''"

definition noteMode :: "config \<Rightarrow> cluster \<Rightarrow> mode \<Rightarrow> (reconciler, unit) state" where
  "noteMode cfg cluster mode =
     (let key = cluster_key cluster in do {
        previous \<leftarrow> gets (\<lambda>s. modes s key);
        modify (\<lambda>s. s\<lparr>modes := (modes s)(key \<mapsto> mode)\<rparr>);
        (if previous \<noteq> None \<and> previous \<noteq> Some mode
         then modify (\<lambda>s. s\<lparr>seen := (seen s)(key := None), would_release := (would_release s)(key := None)\<rparr>)
         else State_Monad.return ());
        (if previous = Some mode then State_Monad.return ()
         else do {
           log_line Info ''signal source selected'';
           (if cf_dry_run cfg then State_Monad.return ()
            else emit_event (on_cluster cluster) NormalEvent EventSignalSourceSelected ActionSelectSource
              (EventNote (mode_string mode @ '': '' @ describe_mode mode)))
         })
      })"

section \<open>The calls\<close>

lemma emits_remember: "(\<And>l msg. P (LogLine l msg)) \<Longrightarrow> emits P (remember key previous current)"
  unfolding remember_def by (intro emits_rules) (auto split: prod.split intro!: emits_rules)

lemma emits_noteMode:
  assumes "\<And>l msg. P (LogLine l msg)"
    and "\<And>obj ty rs ac nt. \<not> cf_dry_run cfg \<Longrightarrow> P (EmitEvent obj ty rs ac (EventNote nt))"
  shows "emits P (noteMode cfg cluster mode)"
  unfolding noteMode_def Let_def by (intro emits_rules) (use assms in auto)

section \<open>Facts about the memory\<close>

lemma pollInterval_pos [simp]: "0 < pollInterval cfg"
  by (simp add: pollInterval_def DefaultPollInterval_def second_def)

lemma grace_pos [simp]: "0 < earlierMarkGrace"
  by (simp add: earlierMarkGrace_def second_def)

lemma remembered_store [simp]: "remembered (store key xs m) key = xs"
  by (simp add: remembered_def store_def)

lemma remembered_store_other [simp]: "k \<noteq> key \<Longrightarrow> remembered (store key xs m) k = remembered m k"
  by (simp add: remembered_def store_def)

lemma remembered_upd [simp]: "remembered (m(key := v)) k = (if k = key then (case v of None \<Rightarrow> [] | Some xs \<Rightarrow> xs) else remembered m k)"
  by (simp add: remembered_def)

lemma soonest_bounds: "0 < limit \<Longrightarrow> 0 < soonest now waits limit \<and> soonest now waits limit \<le> limit"
  by (induction now waits limit rule: soonest.induct) (auto simp: Let_def)

lemma soonest_wait:
  "(name, w) \<in> set waits \<Longrightarrow> \<not> w_over w \<Longrightarrow> 0 < wait_left now w \<Longrightarrow> 0 < limit \<Longrightarrow>
   soonest now waits limit \<le> wait_left now w"
proof (induction waits arbitrary: limit)
  case (Cons p rest)
  obtain name' w' where p: "p = (name', w')" by fastforce
  define limit' where "limit' = (if \<not> w_over w' \<and> 0 < wait_left now w' \<and> wait_left now w' < limit then wait_left now w' else limit)"
  have pos: "0 < limit'" and step: "soonest now (p # rest) limit = soonest now rest limit'"
    using Cons.prems(4) by (auto simp: limit'_def p Let_def)
  show ?case
  proof (cases "p = (name, w)")
    case True
    then have "limit' \<le> wait_left now w" using Cons.prems(2,3) p by (auto simp: limit'_def)
    then show ?thesis using soonest_bounds [OF pos, of now rest] step by simp
  next
    case False
    then have "(name, w) \<in> set rest" using Cons.prems(1) by auto
    then show ?thesis using Cons.IH Cons.prems(2,3) pos step by simp
  qed
qed simp

section \<open>Properties\<close>

text \<open>C33: A restart is held back for the checks exactly while they show the earlier mark and less than the grace has
  passed since that was first seen; the start of the wait is kept from one look to the next, so that nothing but the
  sign going away ends or restarts it. That the bound let the restart through is reported once. The waits of other
  Machines and Clusters are not touched.\<close>

theorem heldForChecks_bounded:
  assumes "run_state (heldForChecks E K key m) s = ((held, shown), s')"
  defines "now \<equiv> clock E (history s)" and "before \<equiv> map_of (remembered (waiting s) key) (m_name m)"
    and "after \<equiv> map_of (remembered (waiting s') key) (m_name m)"
  defines "since \<equiv> (case before of None \<Rightarrow> now | Some w \<Rightarrow> w_since w)"
    and "over \<equiv> (case before of None \<Rightarrow> False | Some w \<Rightarrow> w_over w)"
  shows "(held = (EarlierMarkPending K m \<and> now - since < earlierMarkGrace)) \<and>
      (shown = (if EarlierMarkPending K m \<and> \<not> held \<and> \<not> over then now - since else 0)) \<and>
      (after = (if EarlierMarkPending K m then Some \<lparr>w_since = since, w_over = over \<or> \<not> held\<rparr> else None)) \<and>
      (\<forall>k name. (k, name) \<noteq> (key, m_name m) \<longrightarrow>
        map_of (remembered (waiting s') k) name = map_of (remembered (waiting s) k) name)"
proof -
  note run = assms(1) [unfolded heldForChecks_def]
  show ?thesis
  proof (cases "EarlierMarkPending K m")
    case False
    then show ?thesis using run unfolding after_def
      by (cases "waiting s key") (auto simp: remembered_def delete_conv')
  next
    case True
    then show ?thesis
    proof (cases before)
      case None
      then show ?thesis using run True unfolding after_def since_def over_def now_def before_def
        by (auto simp: wait_step_def update_conv')
    next
      case (Some w)
      then show ?thesis using run True unfolding after_def since_def over_def now_def before_def
        by (cases w) (auto simp: wait_step_def update_conv' split: if_splits)
    qed
  qed
qed

definition earlier_marked :: machine where
  "earlier_marked = example_machine\<lparr>m_conditions := [\<lparr>cond_type = health_check_succeeded, cond_status = ''False'',
     cond_reason = ''HasRemediateAnnotation'', cond_message = []\<rparr>]\<rparr>"

lemma earlier_marked_pending [simp]: "EarlierMarkPending plain_kube earlier_marked"
  by (simp add: EarlierMarkPending_def earlier_marked_def IsMarkedForRemediation_def example_machine_def)

theorem heldForChecks_bounded_witness:
  "\<exists>s'. run_state (heldForChecks (quiet_env\<lparr>clock := \<lambda>_. 90 * second\<rparr>) plain_kube (''ns'', ''c'') earlier_marked)
     \<lparr>history = [], seen = Map.empty, would_release = Map.empty, modes = Map.empty,
       waiting = [(''ns'', ''c'') \<mapsto> [(''m'', \<lparr>w_since = 20 * second, w_over = False\<rparr>)]]\<rparr> = ((False, 70 * second), s')"
proof -
  let ?s = "\<lparr>history = [], seen = Map.empty, would_release = Map.empty, modes = Map.empty,
       waiting = [(''ns'', ''c'') \<mapsto> [(''m'', \<lparr>w_since = 20 * second, w_over = False\<rparr>)]]\<rparr> :: reconciler"
  obtain held shown s' where run: "run_state (heldForChecks (quiet_env\<lparr>clock := \<lambda>_. 90 * second\<rparr>) plain_kube (''ns'', ''c'')
      earlier_marked) ?s = ((held, shown), s')" by (metis prod.exhaust)
  have "m_name earlier_marked = ''m''" by (simp add: earlier_marked_def example_machine_def)
  with heldForChecks_bounded [OF run] have "held = False \<and> shown = 70 * second"
    by (simp add: remembered_def earlierMarkGrace_def second_def)
  with run show ?thesis by auto
qed

text \<open>The next look is always in the future and never later than the poll interval; and it is not later than the
  end of any wait that its bound has not ended yet.\<close>

theorem nextLook_bounds:
  assumes "run_state (nextLook E cfg key) s = (d, s')"
  shows "0 < d \<and> d \<le> pollInterval cfg \<and>
    (\<forall>(name, w) \<in> set (remembered (waiting s) key). \<not> w_over w \<and> 0 < wait_left (clock E (history s)) w \<longrightarrow>
      d \<le> wait_left (clock E (history s)) w)"
proof -
  have d: "d = soonest (clock E (history s)) (remembered (waiting s) key) (pollInterval cfg)"
    using assms by (auto simp: nextLook_def)
  show ?thesis unfolding d
    using soonest_bounds [OF pollInterval_pos] soonest_wait [OF _ _ _ pollInterval_pos] by fast
qed

theorem nextLook_bounds_witness:
  "\<exists>d s'. run_state (nextLook (quiet_env\<lparr>clock := \<lambda>_. 30 * second\<rparr>)
       \<lparr>cf_table = [], cf_dry_run = False, cf_poll_interval = 0, cf_selector = None, cf_fallback = NoFallback, cf_watcher = True\<rparr>
       (''ns'', ''c''))
     \<lparr>history = [], seen = Map.empty, would_release = Map.empty, modes = Map.empty,
       waiting = [(''ns'', ''c'') \<mapsto> [(''m'', \<lparr>w_since = 20 * second, w_over = False\<rparr>)]]\<rparr> = (d, s') \<and>
     0 < d \<and> d \<le> 50 * second"
proof -
  let ?s = "\<lparr>history = [], seen = Map.empty, would_release = Map.empty, modes = Map.empty,
       waiting = [(''ns'', ''c'') \<mapsto> [(''m'', \<lparr>w_since = 20 * second, w_over = False\<rparr>)]]\<rparr> :: reconciler"
  let ?cfg = "\<lparr>cf_table = [], cf_dry_run = False, cf_poll_interval = 0, cf_selector = None, cf_fallback = NoFallback, cf_watcher = True\<rparr>"
  obtain d s' where run: "run_state (nextLook (quiet_env\<lparr>clock := \<lambda>_. 30 * second\<rparr>) ?cfg (''ns'', ''c'')) ?s = (d, s')"
    by (metis prod.exhaust)
  from nextLook_bounds [OF run] have "0 < d \<and> d \<le> 50 * second"
    by (simp add: remembered_def wait_left_def earlierMarkGrace_def second_def)
  with run show ?thesis by blast
qed

text \<open>Forgetting waits keeps exactly those of Machines that are still unmarked with their checks showing the
  earlier mark, as they are, and drops all of them when no Machines are given; other Clusters keep theirs.\<close>

theorem forgetWaits_exact:
  assumes "run_state (forgetWaits K key machines) s = (u, s')"
  shows "set (remembered (waiting s') key) = {(name, w) \<in> set (remembered (waiting s) key).
      \<exists>m \<in> snd ` set machines. EarlierMarkPending K m \<and> m_name m = name} \<and>
    (machines = [] \<longrightarrow> waiting s' key = None) \<and> (\<forall>k. k \<noteq> key \<longrightarrow> waiting s' k = waiting s k)"
proof -
  let ?pending = "map m_name (filter (EarlierMarkPending K) (map snd machines))"
  have s': "waiting s' = store key (filter (\<lambda>(name, _). name \<in> set ?pending) (remembered (waiting s) key)) (waiting s)"
    using assms by (auto simp: forgetWaits_def Let_def)
  have "set (remembered (waiting s') key) = {(name, w) \<in> set (remembered (waiting s) key). name \<in> set ?pending}"
    unfolding s' by auto
  moreover have "name \<in> set ?pending \<longleftrightarrow> (\<exists>m \<in> snd ` set machines. EarlierMarkPending K m \<and> m_name m = name)" for name
    by auto
  moreover have "waiting s' key = None" if "machines = []" unfolding s' using that by (simp add: store_def)
  moreover have "waiting s' k = waiting s k" if "k \<noteq> key" for k unfolding s' using that by (simp add: store_def)
  ultimately show ?thesis by simp
qed

theorem forgetWaits_exact_witness:
  "\<exists>s'. run_state (forgetWaits plain_kube (''ns'', ''c'') [(''gpu-w-1'', earlier_marked)])
     \<lparr>history = [], seen = Map.empty, would_release = Map.empty, modes = Map.empty,
       waiting = [(''ns'', ''c'') \<mapsto> [(''m'', \<lparr>w_since = 1, w_over = False\<rparr>), (''gone'', \<lparr>w_since = 2, w_over = False\<rparr>)]]\<rparr> = ((), s') \<and>
     set (remembered (waiting s') (''ns'', ''c'')) = {(''m'', \<lparr>w_since = 1, w_over = False\<rparr>)}"
proof -
  let ?s = "\<lparr>history = [], seen = Map.empty, would_release = Map.empty, modes = Map.empty,
       waiting = [(''ns'', ''c'') \<mapsto> [(''m'', \<lparr>w_since = 1, w_over = False\<rparr>), (''gone'', \<lparr>w_since = 2, w_over = False\<rparr>)]]\<rparr> :: reconciler"
  obtain s' where run: "run_state (forgetWaits plain_kube (''ns'', ''c'') [(''gpu-w-1'', earlier_marked)]) ?s = ((), s')"
    by (cases "run_state (forgetWaits plain_kube (''ns'', ''c'') [(''gpu-w-1'', earlier_marked)]) ?s") auto
  have "m_name earlier_marked = ''m''" by (simp add: earlier_marked_def example_machine_def)
  with forgetWaits_exact [OF run] have "set (remembered (waiting s') (''ns'', ''c'')) = {(''m'', \<lparr>w_since = 1, w_over = False\<rparr>)}"
    by (auto simp: remembered_def)
  with run show ?thesis by blast
qed

end
