(* ===== verification/Handle.thy ===== *)
theory Handle
  imports Memory Coverage Actuator
begin

text \<open>
  Handling one signal (\<open>handle\<close>, \<open>remediate\<close>, \<open>report\<close> and \<open>describe\<close> of
  \<open>internal/controller/cluster_controller.go\<close>): from the decision to what is concluded, what is written and
  what the request it came from is to be answered. The Machine is the caller's, so the operations return it
  as the actuator left it.
\<close>

section \<open>Names\<close>

definition ActionReport :: string where "ActionReport = ''Report''"
definition EventNodeHealthReported :: string where "EventNodeHealthReported = ''NodeHealthReported''"
definition EventReplaceUnavailable :: string where "EventReplaceUnavailable = ''ReplaceUnavailable''"
definition EventRestartUnavailable :: string where "EventRestartUnavailable = ''RestartUnavailable''"
definition EventMachineNotFound :: string where "EventMachineNotFound = ''MachineNotFound''"
definition AnswerRestarted :: string where "AnswerRestarted = ''Restarted''"
definition AnswerNotRemediated :: string where "AnswerNotRemediated = ''NotRemediated''"
definition AnswerMachineNotFound :: string where "AnswerMachineNotFound = ''MachineNotFound''"
definition AnswerRemediationUnavailable :: string where "AnswerRemediationUnavailable = ''RemediationUnavailable''"

section \<open>Messages\<close>

definition describe :: "signal \<Rightarrow> string" where
  "describe s = s_check s @
     (if s_error_codes s \<noteq> [] then '' '' @ join '','' (s_error_codes s) else []) @
     (if s_gpu_uuids s \<noteq> [] then '' gpu '' @ join '','' (s_gpu_uuids s) else []) @
     (if s_actions s \<noteq> [] then '' ('' @ join '','' (s_actions s) @ '')'' else []) @
     (if s_truncated s then '' [truncated]'' else [])"

definition unavailable :: "bool \<Rightarrow> string" where
  "unavailable waits = (if waits then ''waiting for the paused checks'' else ''reported only'')"

text \<open>The note of a mark and of a skip: where the signal comes from, what it is and why.\<close>

definition because :: "signal \<Rightarrow> string \<Rightarrow> string" where
  "because sig reason = origin_string (s_origin sig) @ '' '' @ describe sig @ '': '' @ reason"

section \<open>Reporting\<close>

definition report ::
  "config \<Rightarrow> bool \<Rightarrow> event_object option \<Rightarrow> string \<Rightarrow> string \<Rightarrow> string \<Rightarrow> (reconciler, unit) state" where
  "report cfg news object eventReason action message =
     (if \<not> news then log_line Debug ''health signal unchanged''
      else do {
        log_line Info message;
        (case object of
           None \<Rightarrow> State_Monad.return ()
         | Some obj \<Rightarrow>
             if cf_dry_run cfg then State_Monad.return ()
             else emit_event obj WarningEvent eventReason action (EventNote message))
      })"

section \<open>What marking is to ask for\<close>

text \<open>
  The variables \<open>remediate\<close> settles before it touches anything: whether a restart is asked for, whether no
  template can carry one out, the fallback applied then, the action and how it is called, the outcome with its
  reason, and the coverage.
\<close>

record plan =
  pl_restart :: bool
  pl_unavailable :: bool
  pl_fallback :: restart_fallback
  pl_note :: string
  pl_action :: string
  pl_verb :: string
  pl_outcome :: outcome
  pl_coverage :: coverage

definition plan_of :: "kube \<Rightarrow> config \<Rightarrow> cluster \<Rightarrow> health_check list \<Rightarrow> outcome \<Rightarrow> machine \<Rightarrow> plan" where
  "plan_of K cfg cluster checks outcome m =
     (let restart = (o_decision outcome = Restart);
          cov = CoverageOf K checks m;
          restartUnavailable = (restart \<and> \<not> TemplatesOnly cov);
          (fallback, note) = (if restartUnavailable then restartFallback K cfg cluster else (NoFallback, []))
      in if restartUnavailable \<and> fallback = RestartFallbackReplace \<and> Covered cov
         then \<lparr>pl_restart = False, pl_unavailable = True, pl_fallback = fallback, pl_note = note,
           pl_action = ActionRemediate, pl_verb = ''a replacement in place of a restart'',
           pl_outcome = outcome\<lparr>o_reason := o_reason outcome @
             '', which no remediation template can carry out; falling back to a replacement'' @ note\<rparr>,
           pl_coverage = cov\<rparr>
         else \<lparr>pl_restart = restart, pl_unavailable = restartUnavailable, pl_fallback = fallback, pl_note = note,
           pl_action = (if restart then ActionRestart else ActionRemediate),
           pl_verb = (if restart then ''a restart'' else ''a replacement''),
           pl_outcome = outcome, pl_coverage = cov\<rparr>)"

section \<open>Remediating\<close>

text \<open>The last part of \<open>remediate\<close>: the checks can carry out what is asked for and nothing holds it back.\<close>

definition mark_machine ::
  "env \<Rightarrow> config \<Rightarrow> signal \<Rightarrow> plan \<Rightarrow> machine \<Rightarrow> node option \<Rightarrow> observation \<Rightarrow> observation \<Rightarrow>
   (reconciler, observation \<times> machine) state" where
  "mark_machine E cfg sig p m node obs previous =
     (if cf_dry_run cfg then do {
        report cfg (obs \<noteq> previous) None [] [] (''would mark Machine for remediation, asking for '' @ pl_verb p @ pl_note p);
        State_Monad.return (obs, m)
      } else do {
        let reason = because sig (o_reason (pl_outcome p)) @ ''; '' @ ob_coverage obs;
        let record = (if pl_restart p
          then \<lparr>r_boot_id = (case node of None \<Rightarrow> [] | Some n \<Rightarrow> n_boot_id n), r_request = s_request sig\<rparr>
          else \<lparr>r_boot_id = [], r_request = []\<rparr>);
        (r, m) \<leftarrow> MarkForRemediation E (cf_dry_run cfg) m (pl_action p) reason record;
        (case r of
           Inl err \<Rightarrow> do {
             log_line Error ''marking Machine for remediation failed'';
             State_Monad.return (zero_observation, m)
           }
         | Inr _ \<Rightarrow> do {
             log_line Info ''Machine marked for remediation'';
             State_Monad.return (obs, m)
           })
      })"

text \<open>The part after the guards: what the checks cannot carry out is reported or waits, and a restart is held
  back while they still show an earlier mark.\<close>

definition remediate_covered ::
  "env \<Rightarrow> kube \<Rightarrow> config \<Rightarrow> cluster \<Rightarrow> signal \<Rightarrow> plan \<Rightarrow> machine \<Rightarrow> node option \<Rightarrow> observation \<Rightarrow> observation \<Rightarrow>
   (reconciler, observation \<times> machine) state" where
  "remediate_covered E K cfg cluster sig p m node obs previous =
     (let cov = pl_coverage p;
          obs = obs\<lparr>ob_coverage := Describe cov\<rparr>;
          obs = (if pl_unavailable p then obs\<lparr>ob_fallback := fallback_string (pl_fallback p) @ pl_note p\<rparr> else obs);
          unpaused = IgnoringPause cov
      in if pl_restart p \<and> pl_unavailable p then
           let waits = (TemplatesOnly unpaused \<or> (pl_fallback p = RestartFallbackReplace \<and> Covered unpaused));
               message = describe sig @ '' calls for a restart of node '' @ s_node sig @ '', but '' @ ob_coverage obs @
                 ''; '' @ unavailable waits @ '' (restart fallback '' @ ob_fallback obs @ '')'';
               obs = (if waits then obs else obs\<lparr>ob_answer := decline sig AnswerRemediationUnavailable message\<rparr>)
           in do {
             report cfg (obs \<noteq> previous) (Some (on_machine m)) EventRestartUnavailable ActionRestart message;
             State_Monad.return (obs, m)
           }
         else if \<not> pl_restart p \<and> \<not> Covered cov then
           let waits = Covered unpaused;
               message = describe sig @ '' calls for a replacement of node '' @ s_node sig @ '', but '' @ ob_coverage obs @
                 ''; '' @ unavailable waits;
               obs = (if waits then obs else obs\<lparr>ob_answer := decline sig AnswerRemediationUnavailable message\<rparr>)
           in do {
             report cfg (obs \<noteq> previous) (Some (on_machine m)) EventReplaceUnavailable ActionRemediate message;
             State_Monad.return (obs, m)
           }
         else if \<not> pl_restart p then mark_machine E cfg sig p m node obs previous
         else do {
           (held, shown) \<leftarrow> heldForChecks E K (cluster_key cluster) m;
           (if held then
              let obs = obs\<lparr>ob_skip := SkipEarlierMark\<rparr>
              in do {
                (if obs \<noteq> previous then log_line Info ''remediation skipped''
                 else log_line Debug ''remediation still skipped'');
                State_Monad.return (obs, m)
              }
            else do {
              (if 0 < shown
               then log_line Info ''the checks still show the mark the Machine carried before, not holding the restart back''
               else State_Monad.return ());
              mark_machine E cfg sig p m node obs previous
            })
         })"

text \<open>The guards.\<close>

definition remediate_guarded ::
  "env \<Rightarrow> kube \<Rightarrow> config \<Rightarrow> cluster \<Rightarrow> signal \<Rightarrow> plan \<Rightarrow> machine \<Rightarrow> node option \<Rightarrow> observation \<Rightarrow> observation \<Rightarrow>
   (reconciler, observation \<times> machine) state" where
  "remediate_guarded E K cfg cluster sig p m node obs previous =
     (let skip = Guard m
      in if skip \<noteq> NoSkip then
           let obs = obs\<lparr>ob_skip := skip\<rparr>;
               obs = (if \<not> InProgress skip \<and> skip \<noteq> SkipPaused
                 then obs\<lparr>ob_answer := decline sig (skip_string skip)
                   (describe sig @ '' on node '' @ s_node sig @ '': remediation skipped because '' @ skip_Message skip)\<rparr>
                 else obs)
           in do {
             (if obs \<noteq> previous then do {
                log_line Info ''remediation skipped'';
                RecordSkipped (cf_dry_run cfg) m skip (pl_action p) (because sig (o_reason (pl_outcome p)))
              } else log_line Debug ''remediation still skipped'');
             State_Monad.return (obs, m)
           }
         else remediate_covered E K cfg cluster sig p m node obs previous)"

definition completed_answer :: "signal \<Rightarrow> answer" where
  "completed_answer sig = \<lparr>an_complete = True, an_reason = AnswerRestarted,
     an_message = ''node '' @ s_node sig @ '' restarted and is Ready''\<rparr>"

definition remediate ::
  "env \<Rightarrow> kube \<Rightarrow> config \<Rightarrow> cluster \<Rightarrow> health_check list \<Rightarrow> signal \<Rightarrow> outcome \<Rightarrow> machine \<Rightarrow> node option \<Rightarrow>
   observation \<Rightarrow> observation \<Rightarrow> (reconciler, observation \<times> machine) state" where
  "remediate E K cfg cluster checks sig outcome m node obs previous =
     (if o_decision outcome = Restart \<and> s_request sig \<noteq> [] \<and> RestartCompleted m node \<and> RestartAnswers m (s_request sig)
      then let obs = obs\<lparr>ob_answer := completed_answer sig\<rparr>
        in do {
          (if obs \<noteq> previous then log_line Info ''restart completed'' else State_Monad.return ());
          State_Monad.return (obs, m)
        }
      else
        let p = plan_of K cfg cluster checks outcome m;
            held = (IsPaused m \<or> IsOptedOut m)
        in do {
          (r, m) \<leftarrow> (if \<not> pl_restart p \<and> (o_decision outcome = Replace \<or> \<not> held)
            then Escalate E (cf_dry_run cfg) m (because sig (o_reason (pl_outcome p)))
            else State_Monad.return (Inr False, m));
          (case r of
             Inl err \<Rightarrow> do {
               log_line Error ''escalating the restart to a replacement failed'';
               State_Monad.return (zero_observation, m)
             }
           | Inr escalated \<Rightarrow> do {
               (if escalated \<and> \<not> cf_dry_run cfg then log_line Info ''restart escalated to a replacement''
                else State_Monad.return ());
               remediate_guarded E K cfg cluster sig p m node obs previous
             })
        })"

section \<open>Handling\<close>

text \<open>The decision, reported only where the mode says so.\<close>

definition decide_in :: "mode \<Rightarrow> table \<Rightarrow> signal \<Rightarrow> outcome" where
  "decide_in mode t sig =
     (let outcome = Decide t sig; why = reportOnly mode (o_decision outcome)
      in if why \<noteq> [] then outcome\<lparr>o_reason := o_reason outcome @ ''; reported only since '' @ why, o_decision := Report\<rparr>
         else outcome)"

definition handle ::
  "env \<Rightarrow> kube \<Rightarrow> config \<Rightarrow> cluster \<Rightarrow> mode \<Rightarrow> health_check list \<Rightarrow> signal \<Rightarrow> machine option \<Rightarrow> node option \<Rightarrow>
   observation \<Rightarrow> (reconciler, observation \<times> machine option) state" where
  "handle E K cfg cluster mode checks sig machine node previous =
     (let outcome = decide_in mode (cf_table cfg) sig;
          obs = zero_observation\<lparr>ob_decision := o_decision outcome, ob_action := o_action outcome,
            ob_truncated := s_truncated sig, ob_request := s_request sig,
            ob_machine := (case machine of None \<Rightarrow> [] | Some m \<Rightarrow> m_name m)\<rparr>
      in if node = None \<and> s_request sig \<noteq> [] then do {
           log_line Debug ''the request's node no longer exists, leaving the request to be deleted with it'';
           State_Monad.return (obs, machine)
         }
         else (case machine of
             None \<Rightarrow>
               let message = ''node '' @ s_node sig @ '' reports '' @ describe sig @ '' but no Machine owns it'';
                   obs = obs\<lparr>ob_answer := decline sig AnswerMachineNotFound message\<rparr>
               in do {
                 report cfg (obs \<noteq> previous) (Some (on_cluster cluster)) EventMachineNotFound ActionReport message;
                 State_Monad.return (obs, None)
               }
           | Some m \<Rightarrow>
               if o_decision outcome = Replace \<or> o_decision outcome = Restart then do {
                 (obs, m) \<leftarrow> remediate E K cfg cluster checks sig outcome m node obs previous;
                 State_Monad.return (obs, Some m)
               }
               else
                 let message = describe sig @ '' on node '' @ s_node sig @ '': '' @ o_reason outcome;
                     obs = obs\<lparr>ob_answer := decline sig AnswerNotRemediated message\<rparr>
                 in do {
                   report cfg (obs \<noteq> previous) (Some (on_machine m)) EventNodeHealthReported ActionReport message;
                   State_Monad.return (obs, Some m)
                 }))"

section \<open>The calls\<close>

lemma emits_report:
  assumes "\<And>l msg. P (LogLine l msg)"
    and "\<And>obj ty rs ac nt. \<not> cf_dry_run cfg \<Longrightarrow> P (EmitEvent obj ty rs ac (EventNote nt))"
  shows "emits P (report cfg news object eventReason action message)"
  unfolding report_def by (intro emits_rules) (use assms in auto)

lemma emits_report_nothing:
  "(\<And>l msg. P (LogLine l msg)) \<Longrightarrow> emits P (report cfg news None eventReason action message)"
  unfolding report_def by (intro emits_rules) auto

lemma emits_mark_machine:
  assumes "\<And>l msg. P (LogLine l msg)"
    and "\<And>obj ty ac nt. \<not> cf_dry_run cfg \<Longrightarrow> P (EmitEvent obj ty EventMarkedForRemediation ac (EventNote nt))"
    and "\<And>reason record r. \<not> cf_dry_run cfg \<Longrightarrow> Guard m = NoSkip \<Longrightarrow>
      P (PatchMachine m (m\<lparr>m_annotations := marked_annotations (m_annotations m) (pl_action p) reason record\<rparr>) False r)"
  shows "emits P (mark_machine E cfg sig p m node obs previous)"
  unfolding mark_machine_def
  by (intro emits_rules emits_report_nothing emits_MarkForRemediation) (use assms in auto)

text \<open>A mark is made once the coverage allows what is asked for.\<close>

lemma emits_remediate_covered:
  assumes "\<And>l msg. P (LogLine l msg)" and "\<And>t. P (ReadClock t)"
    and "\<And>obj ty rs ac nt. \<not> cf_dry_run cfg \<Longrightarrow> P (EmitEvent obj ty rs ac (EventNote nt))"
    and "\<And>reason record r. \<not> cf_dry_run cfg \<Longrightarrow> Guard m = NoSkip \<Longrightarrow>
      (if pl_restart p then \<not> pl_unavailable p else Covered (pl_coverage p)) \<Longrightarrow>
      P (PatchMachine m (m\<lparr>m_annotations := marked_annotations (m_annotations m) (pl_action p) reason record\<rparr>) False r)"
  shows "emits P (remediate_covered E K cfg cluster sig p m node obs previous)"
  unfolding remediate_covered_def heldForChecks_def Let_def
  by (intro emits_rules emits_report emits_mark_machine) (use assms in \<open>auto split: if_splits\<close>)

lemma emits_remediate_guarded:
  assumes "\<And>l msg. P (LogLine l msg)" and "\<And>t. P (ReadClock t)"
    and "\<And>obj ty rs ac nt. \<not> cf_dry_run cfg \<Longrightarrow> P (EmitEvent obj ty rs ac (EventNote nt))"
    and "\<And>reason record r. \<not> cf_dry_run cfg \<Longrightarrow> Guard m = NoSkip \<Longrightarrow>
      (if pl_restart p then \<not> pl_unavailable p else Covered (pl_coverage p)) \<Longrightarrow>
      P (PatchMachine m (m\<lparr>m_annotations := marked_annotations (m_annotations m) (pl_action p) reason record\<rparr>) False r)"
  shows "emits P (remediate_guarded E K cfg cluster sig p m node obs previous)"
  unfolding remediate_guarded_def Let_def
  by (intro emits_rules emits_RecordSkipped emits_remediate_covered) (use assms in auto)

text \<open>What escalating leaves behind: the Machine as it was, or as the API server returned it.\<close>

lemma Escalate_result:
  assumes "run_state (Escalate E dryRun m reason) s = ((r, m'), s')"
  shows "m' = m \<or> (r = Inr True \<and> (\<exists>h u. patch_machine E h m u True = Inr m' \<and> escalate_patch m u))"
  using assms by (fastforce simp: Escalate_def escalate_patch_def split: if_splits sum.splits)

lemma emits_remediate:
  assumes "\<And>l msg. P (LogLine l msg)" and "\<And>t. P (ReadClock t)"
    and "\<And>obj ty rs ac nt. \<not> cf_dry_run cfg \<Longrightarrow> P (EmitEvent obj ty rs ac (EventNote nt))"
    and "\<And>r reason. \<not> cf_dry_run cfg \<Longrightarrow> MarkedAction m = Some ActionRestart \<Longrightarrow> \<not> deleting m \<Longrightarrow>
      \<not> pl_restart (plan_of K cfg cluster checks outcome m) \<Longrightarrow>
      o_decision outcome = Replace \<or> \<not> (IsPaused m \<or> IsOptedOut m) \<Longrightarrow>
      P (PatchMachine m (m\<lparr>m_annotations := escalated_annotations (m_annotations m) reason\<rparr>) True r)"
    and "\<And>m' reason record r p. \<not> cf_dry_run cfg \<Longrightarrow> Guard m' = NoSkip \<Longrightarrow> p = plan_of K cfg cluster checks outcome m \<Longrightarrow>
      m' = m \<or> (\<exists>h u. patch_machine E h m u True = Inr m' \<and> escalate_patch m u) \<Longrightarrow>
      (if pl_restart p then \<not> pl_unavailable p else Covered (pl_coverage p)) \<Longrightarrow>
      P (PatchMachine m' (m'\<lparr>m_annotations := marked_annotations (m_annotations m') (pl_action p) reason record\<rparr>) False r)"
  shows "emits P (remediate E K cfg cluster checks sig outcome m node obs previous)"
proof -
  let ?p = "plan_of K cfg cluster checks outcome m"
  let ?esc = "if \<not> pl_restart ?p \<and> (o_decision outcome = Replace \<or> \<not> (IsPaused m \<or> IsOptedOut m))
     then Escalate E (cf_dry_run cfg) m (because sig (o_reason (pl_outcome ?p)))
     else (State_Monad.return (Inr False, m) :: (reconciler, (go_error + bool) \<times> machine) state)"
  have esc: "emits P ?esc"
    by (intro emits_rules emits_Escalate) (use assms in auto)
  have rest: "emits P (case a of (r, m) \<Rightarrow> (case r of
        Inl err \<Rightarrow> do {
          log_line Error ''escalating the restart to a replacement failed'';
          State_Monad.return (zero_observation, m)
        }
      | Inr escalated \<Rightarrow> do {
          (if escalated \<and> \<not> cf_dry_run cfg then log_line Info ''restart escalated to a replacement''
           else State_Monad.return ());
          remediate_guarded E K cfg cluster sig ?p m node obs previous
        }))" if run: "run_state ?esc s = (a, s')" for a s s'
  proof -
    obtain r m' where a: "a = (r, m')" by fastforce
    have m': "m' = m \<or> (\<exists>h u. patch_machine E h m u True = Inr m' \<and> escalate_patch m u)"
      using run a Escalate_result by (fastforce split: if_splits)
    show ?thesis unfolding a prod.case
      by (intro emits_rules emits_remediate_guarded) (use assms m' in auto)
  qed
  show ?thesis
    unfolding remediate_def Let_def
    by (intro emits_if emits_bind_run [OF esc rest]) (use assms(1) in \<open>auto intro!: emits_rules\<close>)
qed

lemma plan_restart:
  "pl_restart (plan_of K cfg cluster checks outcome m) \<Longrightarrow>
     o_decision outcome = Restart \<and> pl_action (plan_of K cfg cluster checks outcome m) = ActionRestart \<and>
     (\<not> pl_unavailable (plan_of K cfg cluster checks outcome m) \<longrightarrow> TemplatesOnly (CoverageOf K checks m))"
  by (auto simp: plan_of_def Let_def split: prod.splits if_splits)

lemma plan_replace:
  "\<not> pl_restart (plan_of K cfg cluster checks outcome m) \<Longrightarrow>
     pl_action (plan_of K cfg cluster checks outcome m) = ActionRemediate \<and>
     (o_decision outcome = Restart \<longrightarrow> fst (restartFallback K cfg cluster) = RestartFallbackReplace \<and>
        \<not> TemplatesOnly (CoverageOf K checks m))"
  by (auto simp: plan_of_def Let_def split: prod.splits if_splits)

lemma plan_coverage [simp]: "pl_coverage (plan_of K cfg cluster checks outcome m) = CoverageOf K checks m"
  by (auto simp: plan_of_def Let_def split: prod.splits)

section \<open>When a request is answered\<close>

lemma zero_observation_answer [simp]: "ob_answer zero_observation = zero_answer"
  by (simp add: zero_observation_def)

lemma not_complete [simp]: "\<not> an_complete zero_answer" "\<not> an_complete (decline sig reason message)"
  by (simp_all add: zero_answer_def decline_def)

lemma not_given [simp]: "\<not> given zero_answer" "s_request sig = [] \<Longrightarrow> \<not> given (decline sig reason message)"
  by (simp_all add: zero_answer_def decline_def given_def)

text \<open>The part of \<open>remediate\<close> after the completed restarts never answers True, and answers only requests.\<close>

definition no_completion :: "signal \<Rightarrow> observation \<Rightarrow> bool" where
  "no_completion sig obs \<longleftrightarrow> \<not> an_complete (ob_answer obs) \<and> (s_request sig = [] \<longrightarrow> \<not> given (ob_answer obs))"

lemma no_completion_zero [simp]: "no_completion sig zero_observation"
  by (simp add: no_completion_def)

lemma yields_mark_machine:
  "no_completion sig obs \<Longrightarrow> yields (\<lambda>(obs, _). no_completion sig obs) (mark_machine E cfg sig p m node obs previous)"
  unfolding mark_machine_def by (intro yields_rules) auto

lemma yields_remediate_covered:
  "no_completion sig obs \<Longrightarrow>
   yields (\<lambda>(obs, _). no_completion sig obs) (remediate_covered E K cfg cluster sig p m node obs previous)"
  unfolding remediate_covered_def Let_def
  by (intro yields_rules yields_mark_machine) (auto simp: no_completion_def)

lemma yields_remediate_guarded:
  "no_completion sig obs \<Longrightarrow>
   yields (\<lambda>(obs, _). no_completion sig obs) (remediate_guarded E K cfg cluster sig p m node obs previous)"
  unfolding remediate_guarded_def Let_def
  by (intro yields_rules yields_remediate_covered) (auto simp: no_completion_def)

text \<open>What a True answer rests on.\<close>

definition restart_over :: "signal \<Rightarrow> machine \<Rightarrow> node option \<Rightarrow> bool" where
  "restart_over sig m node \<longleftrightarrow> s_request sig \<noteq> [] \<and> RestartCompleted m node \<and> RestartAnswers m (s_request sig)"

lemma yields_remediate:
  "no_completion sig obs \<Longrightarrow>
   yields (\<lambda>(obs', m'). no_completion sig obs' \<or> (o_decision outcome = Restart \<and> restart_over sig m node \<and> m' = m \<and>
       ob_answer obs' = completed_answer sig))
     (remediate E K cfg cluster checks sig outcome m node obs previous)"
  unfolding remediate_def Let_def
  by (intro yields_rules yields_mono [OF yields_remediate_guarded]) (auto simp: restart_over_def)

lemma handle_answer:
  assumes "run_state (handle E K cfg cluster mode checks sig machine node previous) s = ((obs, machine'), s')"
  shows "no_completion sig obs \<or> (\<exists>m. machine = Some m \<and> machine' = Some m \<and> restart_over sig m node \<and>
    o_decision (decide_in mode (cf_table cfg) sig) = Restart \<and> ob_answer obs = completed_answer sig)"
proof -
  have "yields (\<lambda>(obs, machine'). no_completion sig obs \<or>
      (\<exists>m. machine = Some m \<and> machine' = Some m \<and> restart_over sig m node \<and>
        o_decision (decide_in mode (cf_table cfg) sig) = Restart \<and> ob_answer obs = completed_answer sig))
    (handle E K cfg cluster mode checks sig machine node previous)"
    unfolding handle_def Let_def
    by (intro yields_rules yields_bind_run)
      (auto simp: no_completion_def dest!: yieldsD [OF yields_remediate, rotated])
  from yieldsD [OF this assms] show ?thesis by simp
qed

section \<open>A declined Machine is left alone\<close>

definition patches_machine :: "call \<Rightarrow> bool" where
  "patches_machine c \<longleftrightarrow> (\<exists>b u l r. c = PatchMachine b u l r)"

lemma patches_machine_simps [simp]:
  "patches_machine (PatchMachine b u l r)" "\<not> patches_machine (LogLine lv msg)"
  "\<not> patches_machine (EmitEvent obj ty rs ac nt)" "\<not> patches_machine (ReadClock t)"
  by (auto simp: patches_machine_def)

definition declined :: "observation \<times> 'a \<Rightarrow> bool" where
  "declined r \<longleftrightarrow> given (ob_answer (fst r)) \<and> \<not> an_complete (ob_answer (fst r))"

lemma yields_not_declined_mark:
  "\<not> given (ob_answer obs) \<Longrightarrow> yields (\<lambda>r. \<not> declined r) (mark_machine E cfg sig p m node obs previous)"
  unfolding mark_machine_def by (intro yields_rules) (auto simp: declined_def)

lemma emits_when_guarded:
  assumes "\<not> given (ob_answer obs)"
  shows "emits_when declined (\<lambda>c. \<not> patches_machine c) (remediate_guarded E K cfg cluster sig p m node obs previous)"
  unfolding remediate_guarded_def remediate_covered_def heldForChecks_def Let_def
  by (intro emits_rules emits_RecordSkipped emits_report emits_when_yields yields_not_declined_mark)
    (use assms in auto)

lemma yields_guarded_marked:
  assumes "Guard m \<in> {SkipDeleting, SkipAlreadyMarked}" and "\<not> given (ob_answer obs)"
  shows "yields (\<lambda>r. \<not> declined r) (remediate_guarded E K cfg cluster sig p m node obs previous)"
  unfolding remediate_guarded_def Let_def
  by (intro yields_rules) (use assms in \<open>auto simp: declined_def InProgress_def\<close>)

lemma Guard_marked: "IsMarkedForRemediation m \<Longrightarrow> Guard m \<in> {SkipDeleting, SkipAlreadyMarked}"
  by (simp add: Guard_def)

lemma Escalate_calls:
  assumes "run_state (Escalate E dryRun m reason) s = ((r, m'), s')"
  shows "(r = Inr False \<or> (dryRun \<and> r = Inr True)) \<and> m' = m \<and> history s' = history s \<or>
    (\<exists>err. r = Inl err) \<or>
    r = Inr True \<and> (\<exists>h u. patch_machine E h m u True = Inr m' \<and> escalate_patch m u)"
  using assms by (fastforce simp: Escalate_def escalate_patch_def split: if_splits sum.splits)

lemma escalated_marked:
  "documented_patch E \<Longrightarrow> patch_machine E h m u True = Inr m' \<Longrightarrow> escalate_patch m u \<Longrightarrow> IsMarkedForRemediation m'"
  using escalate_patch_keeps_mark [of m u] documented_patch_locked [of E h m u m']
  by (auto simp: IsMarkedForRemediation_def)

lemma emits_when_remediate:
  assumes "documented_patch E" and obs: "\<not> given (ob_answer obs)"
  shows "emits_when declined (\<lambda>c. \<not> patches_machine c) (remediate E K cfg cluster checks sig outcome m node obs previous)"
proof -
  let ?p = "plan_of K cfg cluster checks outcome m"
  let ?esc = "if \<not> pl_restart ?p \<and> (o_decision outcome = Replace \<or> \<not> (IsPaused m \<or> IsOptedOut m))
     then Escalate E (cf_dry_run cfg) m (because sig (o_reason (pl_outcome ?p)))
     else (State_Monad.return (Inr False, m) :: (reconciler, (go_error + bool) \<times> machine) state)"
  let ?rest = "\<lambda>(r, m). (case r of
        Inl err \<Rightarrow> do {
          log_line Error ''escalating the restart to a replacement failed'';
          State_Monad.return (zero_observation, m)
        }
      | Inr escalated \<Rightarrow> do {
          (if escalated \<and> \<not> cf_dry_run cfg then log_line Info ''restart escalated to a replacement''
           else State_Monad.return ());
          remediate_guarded E K cfg cluster sig ?p m node obs previous
        })"
  have "(\<exists>cs. history s' = history s @ cs \<and> list_all (\<lambda>c. \<not> patches_machine c) cs) \<and>
      emits_when declined (\<lambda>c. \<not> patches_machine c) (?rest a) \<or> yields (\<lambda>b. \<not> declined b) (?rest a)"
    if run: "run_state ?esc s = (a, s')" for a s s'
  proof -
    obtain r m' where a: "a = (r, m')" by fastforce
    consider (same) "(\<exists>e. r = Inr e)" "history s' = history s" | (failed) err where "r = Inl err"
      | (escalated) "r = Inr True" "IsMarkedForRemediation m'"
    proof (cases "\<not> pl_restart ?p \<and> (o_decision outcome = Replace \<or> \<not> (IsPaused m \<or> IsOptedOut m))")
      case True
      then have "run_state (Escalate E (cf_dry_run cfg) m (because sig (o_reason (pl_outcome ?p)))) s = ((r, m'), s')"
        using run a by simp
      from Escalate_calls [OF this] show ?thesis
        using that escalated_marked [OF assms(1)] by blast
    next
      case False
      then have "r = Inr False" "s' = s" using run a by (auto split: if_splits)
      then show ?thesis using that(1) by blast
    qed
    then show ?thesis
    proof cases
      case same
      then show ?thesis unfolding a prod.case
        by (intro disjI1 conjI emits_rules emits_when_guarded [OF obs]) auto
    next
      case failed
      then show ?thesis unfolding a prod.case
        by (intro disjI2 yields_rules) (auto simp: declined_def)
    next
      case escalated
      then show ?thesis unfolding a prod.case
        by (intro disjI2 yields_rules yields_guarded_marked Guard_marked obs) auto
    qed
  qed
  then show ?thesis
    unfolding remediate_def Let_def
    by (intro emits_when_if emits_when_bind_run [of ?esc]) (auto intro!: emits_rules)
qed

lemma emits_handle:
  assumes "\<And>l msg. P (LogLine l msg)"
    and "\<And>obj ty rs ac nt. \<not> cf_dry_run cfg \<Longrightarrow> P (EmitEvent obj ty rs ac (EventNote nt))"
    and "\<And>m obs outcome. machine = Some m \<Longrightarrow> outcome = decide_in mode (cf_table cfg) sig \<Longrightarrow>
      o_decision outcome = Replace \<or> o_decision outcome = Restart \<Longrightarrow> ob_answer obs = zero_answer \<Longrightarrow>
      emits P (remediate E K cfg cluster checks sig outcome m node obs previous)"
  shows "emits P (handle E K cfg cluster mode checks sig machine node previous)"
  unfolding handle_def Let_def
  by (intro emits_rules emits_report assms(3)) (use assms in auto)

lemma handle_restart_over:
  assumes "restart_over sig m node" and "o_decision (decide_in mode (cf_table cfg) sig) = Restart"
  shows "\<exists>obs s'. run_state (handle E K cfg cluster mode checks sig (Some m) node previous) s = ((obs, Some m), s') \<and>
    ob_answer obs = completed_answer sig"
proof -
  have "\<exists>s'. run_state (if b then log_line Info msg else ret ()) s = ((), s')" for b msg
    by (cases b) auto
  moreover have "node \<noteq> None" using assms(1) by (cases node) (auto simp: restart_over_def RestartCompleted_def)
  ultimately show ?thesis using assms
    by (auto simp: handle_def remediate_def restart_over_def Let_def split: prod.split)
qed

section \<open>A fault that persists\<close>

text \<open>Calls that record no Event, and calls that record one at most: of a mark or an escalation of this Machine, right
  after the patch that made it was accepted.\<close>

fun silent :: "call \<Rightarrow> bool" where
  "silent (EmitEvent obj ty rs ac nt) \<longleftrightarrow> False"
| "silent _ \<longleftrightarrow> True"

definition marks_once :: "bool \<Rightarrow> machine \<Rightarrow> call list \<Rightarrow> bool" where
  "marks_once dryRun m cs \<longleftrightarrow> list_all silent cs \<or> (\<not> dryRun \<and> (\<exists>pre u lock v ac nt post.
     cs = pre @ [PatchMachine m u lock (Inr v), EmitEvent (on_machine v) WarningEvent EventMarkedForRemediation ac nt] @ post \<and>
     list_all silent pre \<and> list_all silent post \<and> (mark_patch m u \<or> escalate_patch m u)))"

lemma marks_once_silent: "list_all silent cs \<Longrightarrow> marks_once dryRun m cs"
  by (simp add: marks_once_def)

lemma marks_once_around:
  assumes "marks_once dryRun m cs" and "list_all silent pre" and "list_all silent post"
  shows "marks_once dryRun m (pre @ cs @ post)"
proof (cases "list_all silent cs")
  case True
  then show ?thesis using assms by (simp add: marks_once_def)
next
  case False
  with assms(1) obtain xs u lock v ac nt ys where "\<not> dryRun" and
    cs: "cs = xs @ [PatchMachine m u lock (Inr v), EmitEvent (on_machine v) WarningEvent EventMarkedForRemediation ac nt] @ ys"
    and "list_all silent xs" "list_all silent ys" "mark_patch m u \<or> escalate_patch m u"
    unfolding marks_once_def by blast
  moreover have "pre @ cs @ post = (pre @ xs) @ [PatchMachine m u lock (Inr v),
      EmitEvent (on_machine v) WarningEvent EventMarkedForRemediation ac nt] @ (ys @ post)" by (simp add: cs)
  moreover have "list_all silent (pre @ xs)" "list_all silent (ys @ post)"
    using assms(2,3) \<open>list_all silent xs\<close> \<open>list_all silent ys\<close> by simp_all
  ultimately show ?thesis unfolding marks_once_def by blast
qed

lemma marks_once_cons [simp]: "silent c \<Longrightarrow> marks_once dryRun m cs \<Longrightarrow> marks_once dryRun m (c # cs)"
  using marks_once_around [of dryRun m cs "[c]" "[]"] by simp

lemma marks_once_append [simp]: "list_all silent pre \<Longrightarrow> marks_once dryRun m cs \<Longrightarrow> marks_once dryRun m (pre @ cs)"
  using marks_once_around [of dryRun m cs pre "[]"] by simp

lemma marks_once_accepted:
  "\<not> dryRun \<Longrightarrow> mark_patch m u \<or> escalate_patch m u \<Longrightarrow> list_all silent post \<Longrightarrow>
   marks_once dryRun m (PatchMachine m u lock (Inr v) # EmitEvent (on_machine v) WarningEvent EventMarkedForRemediation ac nt # post)"
  unfolding marks_once_def by (intro disjI2 conjI exI [of _ "[]"]) auto

definition same :: "observation \<Rightarrow> observation \<times> 'a \<Rightarrow> bool" where
  "same previous r \<longleftrightarrow> fst r = previous"

lemma does_report_unchanged: "does (report cfg False object eventReason action message) (\<lambda>_ cs. list_all silent cs)"
  by (simp add: report_def log_line_def does_tell)

lemma does_MarkForRemediation:
  "does (MarkForRemediation E dryRun m action reason restart) (\<lambda>r cs. marks_once dryRun m cs)"
  unfolding MarkForRemediation_def patch_def emit_event_def
  by (intro does_rules) (simp_all add: marks_once_silent marks_once_accepted mark_patchI)

lemma does_mark_machine:
  "does (mark_machine E cfg sig p m node obs previous) (\<lambda>r cs. same previous r \<longrightarrow> marks_once (cf_dry_run cfg) m cs)"
proof -
  have report: "does (report cfg (obs \<noteq> previous) None [] [] msg) (\<lambda>_ cs. marks_once (cf_dry_run cfg) m cs)" for msg
    by (rule does_mono [OF does_emits [OF emits_report_nothing, of silent]]) (auto intro: marks_once_silent)
  show ?thesis
    unfolding mark_machine_def Let_def log_line_def
    by (intro does_rules does_mono [OF report] does_mono [OF does_MarkForRemediation])
      (use marks_once_around [of _ _ _ "[]"] in auto)
qed

text \<open>Past the guards nothing is recorded but of a mark, and a Machine a guard protects gets no Event at all.\<close>

lemma emits_when_silent_guarded:
  "Guard m \<noteq> NoSkip \<Longrightarrow> emits_when (same previous) silent (remediate_guarded E K cfg cluster sig p m node obs previous)"
  unfolding remediate_guarded_def Let_def
  by (intro emits_when_if emits_when_bind_ret) (auto simp: same_def intro!: emits_rules)

lemma does_same_covered:
  "does (remediate_covered E K cfg cluster sig p m node obs previous) (\<lambda>r cs. same previous r \<longrightarrow> marks_once (cf_dry_run cfg) m cs)"
proof -
  have held: "does (heldForChecks E K key m) (\<lambda>_ cs. list_all silent cs)" for key
    unfolding heldForChecks_def Let_def by (intro does_emits emits_rules) auto
  have report: "does (do { report cfg (x \<noteq> previous) object eventReason action message; ret (x, m) })
      (\<lambda>r cs. same previous r \<longrightarrow> marks_once (cf_dry_run cfg) m cs)" for x object eventReason action message
  proof (cases "x = previous")
    case True
    then show ?thesis
      by (intro does_rules) (auto intro!: does_mono [OF does_report_unchanged] marks_once_silent does_rules)
  next
    case False
    then show ?thesis
      by (intro does_rules does_mono [OF does_emits [OF emits_report, of "\<lambda>_. True"]]) (auto simp: same_def)
  qed
  show ?thesis
    unfolding remediate_covered_def Let_def log_line_def
    by (intro does_if report does_mark_machine does_bind does_mono [OF held] does_case_prod does_tell does_return)
      (auto simp: marks_once_silent intro!: does_mono [OF does_mark_machine])
qed

lemma does_same_guarded:
  "does (remediate_guarded E K cfg cluster sig p m node obs previous) (\<lambda>r cs. same previous r \<longrightarrow>
     marks_once (cf_dry_run cfg) m cs \<and> (Guard m \<noteq> NoSkip \<longrightarrow> list_all silent cs))"
proof (cases "Guard m = NoSkip")
  case True
  then show ?thesis by (simp add: remediate_guarded_def does_same_covered)
next
  case False
  show ?thesis
  proof (rule doesI)
    fix s r s' assume run: "run_state (remediate_guarded E K cfg cluster sig p m node obs previous) s = (r, s')"
    have "emits (\<lambda>_. True) (remediate_guarded E K cfg cluster sig p m node obs previous)"
      by (rule emits_remediate_guarded) auto
    then obtain ds where "history s' = history s @ ds" using run unfolding emits_def by (metis snd_conv)
    then show "\<exists>cs. history s' = history s @ cs \<and> (same previous r \<longrightarrow>
        marks_once (cf_dry_run cfg) m cs \<and> (Guard m \<noteq> NoSkip \<longrightarrow> list_all silent cs))"
      using emits_whenD [OF emits_when_silent_guarded [OF False] run] marks_once_silent by blast
  qed
qed

text \<open>An escalation that is made marks the Machine, so that the guards hold it back from a second mark.\<close>

lemma Guard_escalated:
  "documented_patch E \<Longrightarrow> patch_machine E h m u True = Inr m' \<Longrightarrow> escalate_patch m u \<Longrightarrow> Guard m' \<noteq> NoSkip"
  using Guard_marked [OF escalated_marked] by fastforce

lemma does_Escalate:
  assumes "documented_patch E"
  shows "does (Escalate E dryRun m reason) (\<lambda>r cs. (snd r = m \<and> list_all silent cs) \<or>
    (marks_once dryRun m cs \<and> Guard (snd r) \<noteq> NoSkip))"
proof -
  let ?u = "m\<lparr>m_annotations := escalated_annotations (m_annotations m) reason\<rparr>"
  have esc: "escalate_patch m ?u" if "MarkedAction m = Some ActionRestart" "\<not> deleting m"
    using that by (auto simp: escalate_patch_def)
  show ?thesis unfolding Escalate_def patch_def emit_event_def
    by (intro does_if does_bind does_return does_answer does_case_sum does_tell)
      (use Guard_escalated [OF assms] esc in \<open>auto intro!: marks_once_accepted\<close>)
qed

lemma does_same_remediate:
  assumes "documented_patch E"
  shows "does (remediate E K cfg cluster checks sig outcome m node obs previous)
    (\<lambda>r cs. same previous r \<longrightarrow> marks_once (cf_dry_run cfg) m cs)"
proof -
  let ?p = "plan_of K cfg cluster checks outcome m"
  let ?after = "\<lambda>m' cs. (m' = m \<and> list_all silent cs) \<or> (marks_once (cf_dry_run cfg) m cs \<and> Guard m' \<noteq> NoSkip)"
  let ?rest = "\<lambda>a. case a of (Inl err, m) \<Rightarrow> do {
        log_line Error ''escalating the restart to a replacement failed'';
        ret (zero_observation, m)
      } | (Inr escalated, m) \<Rightarrow> do {
        (if escalated \<and> \<not> cf_dry_run cfg then log_line Info ''restart escalated to a replacement'' else ret ());
        remediate_guarded E K cfg cluster sig ?p m node obs previous
      }"
  have log: "does (if b then log_line Info msg else ret ()) (\<lambda>_ cs. list_all silent cs)" for b msg
    unfolding log_line_def by (intro does_rules) auto
  have joined: "marks_once (cf_dry_run cfg) m (cs @ ds @ es)"
    if "?after m' cs" "list_all silent ds" "marks_once (cf_dry_run cfg) m' es \<and> (Guard m' \<noteq> NoSkip \<longrightarrow> list_all silent es)"
    for m' cs ds es
    using that marks_once_around [of "cf_dry_run cfg" m cs "[]" "ds @ es"] by auto
  have rest: "does (?rest a) (\<lambda>r ds. same previous r \<longrightarrow> marks_once (cf_dry_run cfg) m (cs @ ds))" if "?after (snd a) cs" for a cs
  proof -
    obtain r m' where a: "a = (r, m')" by fastforce
    with that have after: "?after m' cs" by simp
    show ?thesis
    proof (cases r)
      case Inl
      then show ?thesis unfolding a log_line_def
        using after marks_once_around [of "cf_dry_run cfg" m cs "[]"] by (auto simp: a marks_once_silent intro!: does_rules)
    next
      case Inr
      show ?thesis unfolding a Inr prod.case sum.case
        by (intro does_bind does_mono [OF log] does_mono [OF does_same_guarded] impI joined [OF after]) auto
    qed
  qed
  show ?thesis
    unfolding remediate_def Let_def
    by (intro does_if does_bind does_mono [OF does_Escalate [OF assms]] does_return rest)
      (auto simp: log_line_def marks_once_silent intro!: does_rules)
qed

lemma does_same_handle:
  assumes "documented_patch E"
  shows "does (handle E K cfg cluster mode checks sig machine node previous) (\<lambda>r cs. same previous r \<longrightarrow>
    list_all silent cs \<or> (\<exists>m. machine = Some m \<and> o_decision (decide_in mode (cf_table cfg) sig) \<in> {Replace, Restart} \<and>
       marks_once (cf_dry_run cfg) m cs))"
proof -
  let ?told = "\<lambda>cs. list_all silent cs \<or> (\<exists>m. machine = Some m \<and> o_decision (decide_in mode (cf_table cfg) sig) \<in> {Replace, Restart} \<and>
      marks_once (cf_dry_run cfg) m cs)"
  have report: "does (do { report cfg (x \<noteq> previous) object eventReason action message; ret (x, y) })
      (\<lambda>r cs. same previous r \<longrightarrow> ?told cs)" for x object eventReason action message and y :: "machine option"
  proof (cases "x = previous")
    case True
    then show ?thesis
      by (intro does_rules) (auto intro!: does_mono [OF does_report_unchanged] does_rules)
  next
    case False
    then show ?thesis
      by (intro does_rules does_mono [OF does_emits [OF emits_report, of "\<lambda>_. True"]]) (auto simp: same_def)
  qed
  show ?thesis
    unfolding handle_def Let_def
    by (intro does_if does_case_option report does_bind does_case_prod does_return does_mono [OF does_same_remediate [OF assms]])
      (auto simp: log_line_def same_def intro!: does_rules)
qed


section \<open>Marking\<close>

lemma Guard_NoSkip_unmarked: "Guard m = NoSkip \<Longrightarrow> MarkedAction m = None"
  by (simp add: Guard_NoSkip_iff MarkedAction_def)

lemma mark_machine_run:
  assumes "\<not> cf_dry_run cfg" and "Guard m = NoSkip"
    and "run_state (mark_machine E cfg sig p m node obs previous) s = ((obs', m'), s')"
  shows "\<exists>u r cs. history s' = history s @ PatchMachine m u False r # cs \<and> MarkedAction u = Some (pl_action p) \<and>
    (pl_restart p \<longrightarrow> u = m\<lparr>m_annotations := marked_annotations (m_annotations m) (pl_action p)
        (because sig (o_reason (pl_outcome p)) @ ''; '' @ ob_coverage obs)
        \<lparr>r_boot_id = (case node of None \<Rightarrow> [] | Some n \<Rightarrow> n_boot_id n), r_request = s_request sig\<rparr>\<rparr>) \<and>
    (case r of Inl _ \<Rightarrow> obs' = zero_observation \<and> m' = m | Inr v \<Rightarrow> obs' = obs \<and> m' = v) \<and>
    list_all (\<lambda>c. \<not> patches_machine c) cs"
proof -
  let ?rec = "if pl_restart p
      then \<lparr>r_boot_id = (case node of None \<Rightarrow> [] | Some n \<Rightarrow> n_boot_id n), r_request = s_request sig\<rparr>
      else \<lparr>r_boot_id = [], r_request = []\<rparr>"
  let ?u = "m\<lparr>m_annotations := marked_annotations (m_annotations m) (pl_action p)
      (because sig (o_reason (pl_outcome p)) @ ''; '' @ ob_coverage obs) ?rec\<rparr>"
  let ?r = "patch_machine E (history s) m ?u False"
  have "\<exists>cs. history s' = history s @ PatchMachine m ?u False ?r # cs \<and>
      (case ?r of Inl _ \<Rightarrow> obs' = zero_observation \<and> m' = m | Inr v \<Rightarrow> obs' = obs \<and> m' = v) \<and> list_all (\<lambda>c. \<not> patches_machine c) cs"
    using assms by (cases ?r) (auto simp: mark_machine_def MarkForRemediation_def Let_def)
  moreover have "pl_restart p \<longrightarrow> ?u = m\<lparr>m_annotations := marked_annotations (m_annotations m) (pl_action p)
        (because sig (o_reason (pl_outcome p)) @ ''; '' @ ob_coverage obs)
        \<lparr>r_boot_id = (case node of None \<Rightarrow> [] | Some n \<Rightarrow> n_boot_id n), r_request = s_request sig\<rparr>\<rparr>" by simp
  ultimately show ?thesis by (intro exI [of _ ?u] exI [of _ ?r]) auto
qed

lemma remediate_marks:
  assumes "\<not> cf_dry_run cfg" and "Guard m = NoSkip"
    and "(o_decision outcome = Replace \<and> Covered (CoverageOf K checks m)) \<or>
      (o_decision outcome = Restart \<and> TemplatesOnly (CoverageOf K checks m) \<and> \<not> EarlierMarkPending K m)"
    and "run_state (remediate E K cfg cluster checks sig outcome m node obs previous) s = ((obs', m'), s')"
  shows "\<exists>u r cs. history s' = history s @ PatchMachine m u False r # cs \<and>
    MarkedAction u = Some (if o_decision outcome = Restart then ActionRestart else ActionRemediate) \<and>
    (o_decision outcome = Restart \<longrightarrow> (\<exists>reason. u = m\<lparr>m_annotations := marked_annotations (m_annotations m) ActionRestart reason
        \<lparr>r_boot_id = (case node of None \<Rightarrow> [] | Some n \<Rightarrow> n_boot_id n), r_request = s_request sig\<rparr>\<rparr>)) \<and>
    (case r of Inl _ \<Rightarrow> obs' = zero_observation \<and> m' = m
     | Inr v \<Rightarrow> m' = v \<and> obs' = obs\<lparr>ob_coverage := Describe (CoverageOf K checks m)\<rparr>) \<and>
    list_all (\<lambda>c. \<not> patches_machine c) cs"
proof -
  let ?p = "plan_of K cfg cluster checks outcome m"
  have unmarked: "MarkedAction m = None" using assms(2) by (rule Guard_NoSkip_unmarked)
  have p: "pl_restart ?p \<longleftrightarrow> o_decision outcome = Restart" "\<not> pl_unavailable ?p"
    "pl_action ?p = (if o_decision outcome = Restart then ActionRestart else ActionRemediate)"
    using assms(3) by (auto simp: plan_of_def Let_def split: prod.splits)
  have "\<not> RestartCompleted m node" using unmarked RestartCompleted_marked by fastforce
  then have guarded: "run_state (remediate_guarded E K cfg cluster sig ?p m node obs previous) s = ((obs', m'), s')"
    using assms(4) unmarked by (auto simp: remediate_def Let_def Escalate_def split: if_splits)
  let ?obs = "obs\<lparr>ob_coverage := Describe (CoverageOf K checks m)\<rparr>"
  have "\<exists>s1. run_state (mark_machine E cfg sig ?p m node ?obs previous) s1 = ((obs', m'), s') \<and> history s1 = history s"
  proof (cases "o_decision outcome = Restart")
    case True
    then have "\<not> EarlierMarkPending K m" using assms(3) by auto
    then show ?thesis using guarded assms(2) p True
      by (auto simp: remediate_guarded_def remediate_covered_def heldForChecks_def Let_def)
  next
    case False
    then show ?thesis using guarded assms(2,3) p
      by (auto simp: remediate_guarded_def remediate_covered_def Let_def)
  qed
  then obtain s1 where run: "run_state (mark_machine E cfg sig ?p m node ?obs previous) s1 = ((obs', m'), s')"
    "history s1 = history s" by blast
  from mark_machine_run [OF assms(1,2) run(1)] obtain u r cs where
    "history s' = history s1 @ PatchMachine m u False r # cs" "MarkedAction u = Some (pl_action ?p)"
    "pl_restart ?p \<longrightarrow> (\<exists>reason. u = m\<lparr>m_annotations := marked_annotations (m_annotations m) (pl_action ?p) reason
      \<lparr>r_boot_id = (case node of None \<Rightarrow> [] | Some n \<Rightarrow> n_boot_id n), r_request = s_request sig\<rparr>\<rparr>)"
    "case r of Inl _ \<Rightarrow> obs' = zero_observation \<and> m' = m | Inr v \<Rightarrow> obs' = ?obs \<and> m' = v"
    "list_all (\<lambda>c. \<not> patches_machine c) cs" by blast
  with run(2) p show ?thesis
    by (intro exI [of _ u] exI [of _ r] exI [of _ cs]) (auto split: sum.splits)
qed

lemma handle_marks_run:
  assumes "\<not> cf_dry_run cfg" and "Guard m = NoSkip" and "node \<noteq> None \<or> s_request sig = []"
    and "(d = Replace \<and> Covered (CoverageOf K checks m)) \<or>
      (d = Restart \<and> TemplatesOnly (CoverageOf K checks m) \<and> \<not> EarlierMarkPending K m)"
    and "o_decision (decide_in mode (cf_table cfg) sig) = d"
    and "run_state (handle E K cfg cluster mode checks sig (Some m) node previous) s = ((obs, machine'), s')"
  shows "\<exists>u r cs. history s' = history s @ PatchMachine m u False r # cs \<and>
    MarkedAction u = Some (if d = Restart then ActionRestart else ActionRemediate) \<and>
    (d = Restart \<longrightarrow> (\<exists>reason. u = m\<lparr>m_annotations := marked_annotations (m_annotations m) ActionRestart reason
        \<lparr>r_boot_id = (case node of None \<Rightarrow> [] | Some n \<Rightarrow> n_boot_id n), r_request = s_request sig\<rparr>\<rparr>)) \<and>
    (case r of Inl _ \<Rightarrow> obs = zero_observation \<and> machine' = Some m
     | Inr v \<Rightarrow> machine' = Some v \<and> ob_machine obs = m_name m \<and> ob_decision obs = d) \<and>
    list_all (\<lambda>c. \<not> patches_machine c) cs"
proof -
  let ?outcome = "decide_in mode (cf_table cfg) sig"
  let ?obs = "zero_observation\<lparr>ob_decision := o_decision ?outcome, ob_action := o_action ?outcome,
            ob_truncated := s_truncated sig, ob_request := s_request sig, ob_machine := m_name m\<rparr>"
  obtain m' where rem: "run_state (remediate E K cfg cluster checks sig ?outcome m node ?obs previous) s = ((obs, m'), s')"
    and m': "machine' = Some m'"
    using assms(3-6) by (auto simp: handle_def Let_def split: if_splits prod.splits)
  have hyp: "(o_decision ?outcome = Replace \<and> Covered (CoverageOf K checks m)) \<or>
      (o_decision ?outcome = Restart \<and> TemplatesOnly (CoverageOf K checks m) \<and> \<not> EarlierMarkPending K m)"
    using assms(4,5) by simp
  let ?last = "zero_observation\<lparr>ob_decision := d, ob_action := o_action ?outcome,
            ob_truncated := s_truncated sig, ob_request := s_request sig, ob_machine := m_name m,
            ob_coverage := Describe (CoverageOf K checks m)\<rparr>"
  from remediate_marks [OF assms(1,2) hyp rem, unfolded assms(5)] obtain u r cs where
    "history s' = history s @ PatchMachine m u False r # cs"
    "MarkedAction u = Some (if d = Restart then ActionRestart else ActionRemediate)"
    "d = Restart \<longrightarrow> (\<exists>reason. u = m\<lparr>m_annotations := marked_annotations (m_annotations m) ActionRestart reason
        \<lparr>r_boot_id = (case node of None \<Rightarrow> [] | Some n \<Rightarrow> n_boot_id n), r_request = s_request sig\<rparr>\<rparr>)"
    "case r of Inl _ \<Rightarrow> obs = zero_observation \<and> m' = m
     | Inr v \<Rightarrow> m' = v \<and> obs = ?last"
    "list_all (\<lambda>c. \<not> patches_machine c) cs" by blast
  then show ?thesis using m'
    by (intro exI [of _ u] exI [of _ r] exI [of _ cs]) (auto split: sum.splits)
qed

section \<open>Properties\<close>

text \<open>A request is answered True only for a restart that is over: the signal calls for a restart, the Machine
  behind the node is marked for one, made for this request or for none, and its node, which is there and Ready,
  reports another boot than the one recorded. Then the Machine is left as it is. A signal that names no request
  is never answered.\<close>

theorem handle_completes:
  assumes "run_state (handle E K cfg cluster mode checks sig machine node previous) s = ((obs, machine'), s')"
    and "given (ob_answer obs)"
  shows "s_request sig \<noteq> [] \<and> (an_complete (ob_answer obs) \<longrightarrow>
    (\<exists>m n. machine = Some m \<and> node = Some n \<and> machine' = Some m \<and>
      o_decision (decide_in mode (cf_table cfg) sig) = Restart \<and> MarkedAction m = Some ActionRestart \<and>
      annotation m RemediationRequestAnnotation \<in> {[], s_request sig} \<and>
      annotation m RemediationBootIDAnnotation \<notin> {[], n_boot_id n} \<and> n_boot_id n \<noteq> [] \<and>
      find (\<lambda>c. cond_type c = ''Ready'') (n_conditions n) \<noteq> None))"
proof (cases "no_completion sig obs")
  case True
  then show ?thesis using assms(2) by (auto simp: no_completion_def)
next
  case False
  then obtain m where m: "machine = Some m" "machine' = Some m" "restart_over sig m node"
    "o_decision (decide_in mode (cf_table cfg) sig) = Restart"
    using handle_answer [OF assms(1)] by blast
  have c: "RestartCompleted m node" "RestartAnswers m (s_request sig)" "s_request sig \<noteq> []"
    using m(3) by (auto simp: restart_over_def)
  then obtain n where n: "node = Some n" by (cases node) (auto simp: RestartCompleted_def)
  have "annotation m RemediationBootIDAnnotation \<notin> {[], n_boot_id n} \<and> n_boot_id n \<noteq> [] \<and>
      find (\<lambda>c. cond_type c = ''Ready'') (n_conditions n) \<noteq> None"
    using c(1) n by (auto simp: RestartCompleted_def Let_def split: if_splits option.splits)
  then show ?thesis using m n c RestartCompleted_marked [OF c(1)]
    by (auto simp: RestartAnswers_def Let_def)
qed

definition example_restart_signal :: signal where
  "example_restart_signal = \<lparr>s_origin = OriginExternalRemediationRequest, s_node = ''gpu-w-1'', s_check = ''x'', s_id = [],
     s_actions = [ActionRestartBM], s_error_codes = [], s_gpu_uuids = [], s_truncated = False, s_request = ''q''\<rparr>"

definition example_config :: config where
  "example_config = \<lparr>cf_table = Default, cf_dry_run = False, cf_poll_interval = 0, cf_selector = None,
     cf_fallback = NoFallback, cf_watcher = True\<rparr>"

definition back_node :: node where
  "back_node = \<lparr>n_name = ''gpu-w-1'', n_boot_id = ''c'', n_conditions =
     [\<lparr>cond_type = ''Ready'', cond_status = ''True'', cond_reason = [], cond_message = []\<rparr>]\<rparr>"

definition fresh_reconciler :: reconciler where
  "fresh_reconciler = \<lparr>history = [], seen = Map.empty, would_release = Map.empty, modes = Map.empty, waiting = Map.empty\<rparr>"

lemma example_restart_over: "restart_over example_restart_signal restarting_machine (Some back_node)"
proof -
  have "MarkedAction restarting_machine = Some ActionRestart"
    unfolding restarting_machine_def by simp
  then show ?thesis
    by (simp add: restart_over_def RestartCompleted_def RestartAnswers_def Let_def annotation_def back_node_def
        example_restart_signal_def restarting_machine_def marked_annotations_def example_machine_def)
qed

lemma decide_example [simp]:
  "o_decision (decide_in ModeExternalRemediationRequest (cf_table example_config) example_restart_signal) = Restart"
  by (simp add: decide_in_def example_config_def reportOnly_def Decide_def example_restart_signal_def decide_step_def
      Lookup_def Default_def defaults_def action_defs MoreDisruptiveThan_def zero_outcome_def Let_def)

theorem handle_completes_witness:
  "\<exists>obs s'. run_state (handle quiet_env plain_kube example_config example_cluster ModeExternalRemediationRequest []
       example_restart_signal (Some restarting_machine) (Some back_node) zero_observation) fresh_reconciler =
       ((obs, Some restarting_machine), s') \<and> an_complete (ob_answer obs) \<and>
     MarkedAction restarting_machine = Some ActionRestart"
proof -
  obtain obs s' where run: "run_state (handle quiet_env plain_kube example_config example_cluster ModeExternalRemediationRequest []
       example_restart_signal (Some restarting_machine) (Some back_node) zero_observation) fresh_reconciler =
       ((obs, Some restarting_machine), s')" and a: "ob_answer obs = completed_answer example_restart_signal"
    using handle_restart_over [OF example_restart_over decide_example] by blast
  then have g: "given (ob_answer obs)" "an_complete (ob_answer obs)"
    by (simp_all add: completed_answer_def given_def AnswerRestarted_def)
  from handle_completes [OF run g(1)] g(2) run show ?thesis by auto
qed

text \<open>C11: A request is answered False only when nothing is going to happen to its Machine: handling a signal that
  ends in such an answer patches no Machine.\<close>

theorem handle_declines:
  assumes "documented_patch E"
    and "run_state (handle E K cfg cluster mode checks sig machine node previous) s = ((obs, machine'), s')"
    and "given (ob_answer obs)" and "\<not> an_complete (ob_answer obs)"
  shows "\<exists>cs. history s' = history s @ cs \<and> (\<forall>b u l r. PatchMachine b u l r \<notin> set cs)"
proof -
  have "emits_when declined (\<lambda>c. \<not> patches_machine c) (handle E K cfg cluster mode checks sig machine node previous)"
    unfolding handle_def Let_def
    by (intro emits_when_if emits_when_case_option emits_when_bind_last [OF emits_when_remediate [OF assms(1)]]
        emits_rules emits_report emits_when_emits [OF emits_return] yields_rules)
      (auto simp: declined_def intro!: emits_rules yields_rules)
  from emits_whenD [OF this assms(2)] assms(3,4)
  obtain cs where "history s' = history s @ cs" "\<forall>c \<in> set cs. \<not> patches_machine c"
    by (auto simp: declined_def list_all_iff)
  then show ?thesis unfolding patches_machine_def by blast
qed

theorem handle_declines_witness:
  "\<exists>obs s' cs. run_state (handle quiet_env plain_kube example_config example_cluster ModeReportOnly []
       example_restart_signal (Some example_machine) (Some back_node) zero_observation) fresh_reconciler =
       ((obs, Some example_machine), s') \<and> given (ob_answer obs) \<and> history s' = cs \<and>
     PatchMachine example_machine restarting_machine False (Inr restarting_machine) \<notin> set cs"
proof -
  have d: "o_decision (decide_in ModeReportOnly (cf_table example_config) example_restart_signal) = Report"
    by (simp add: decide_in_def reportOnly_def Let_def)
  obtain r s' where run: "run_state (handle quiet_env plain_kube example_config example_cluster ModeReportOnly []
       example_restart_signal (Some example_machine) (Some back_node) zero_observation) fresh_reconciler = (r, s')"
    by (metis prod.exhaust)
  with d have "snd r = Some example_machine" "given (ob_answer (fst r))" "\<not> an_complete (ob_answer (fst r))"
    by (auto simp: handle_def Let_def decline_def given_def example_restart_signal_def AnswerNotRemediated_def split: prod.splits)
  moreover obtain obs where "r = (obs, Some example_machine)" using calculation(1) by (cases r) auto
  ultimately show ?thesis
    using handle_declines [OF quiet_env_documented, of plain_kube example_config example_cluster ModeReportOnly "[]"
        example_restart_signal "Some example_machine" "Some back_node" zero_observation fresh_reconciler obs "Some example_machine" s']
      run by (auto simp: fresh_reconciler_def)
qed

text \<open>C34: A fault that persists does not repeat itself. When handling a signal concludes what was concluded before, no Event is
  recorded, but for one of a mark that the same call made and the API server accepted: the patch and then the
  Event, once, outside a dry run, for a signal that calls for a replacement or a restart, on a Machine that was free to be marked, neither
  marked, deleting, paused, opted out nor of the control plane, or whose mark for a restart became one for a replacement. So a fault that is reported only,
  one whose node has no Machine, and one whose Machine is marked for its replacement or held by any other guard, are passed over without an Event.\<close>

theorem handle_persisting:
  assumes "documented_patch E"
    and "run_state (handle E K cfg cluster mode checks sig machine node previous) s = ((previous, machine'), s')"
  shows "\<exists>cs. history s' = history s @ cs \<and>
    ((\<forall>obj ty rs ac nt. EmitEvent obj ty rs ac nt \<notin> set cs) \<or>
     (\<not> cf_dry_run cfg \<and> o_decision (decide_in mode (cf_table cfg) sig) \<in> {Replace, Restart} \<and>
      (\<exists>m u lock v ac nt pre post. machine = Some m \<and>
        cs = pre @ [PatchMachine m u lock (Inr v), EmitEvent (on_machine v) WarningEvent EventMarkedForRemediation ac nt] @ post \<and>
        (\<forall>obj ty rs ac nt. EmitEvent obj ty rs ac nt \<notin> set pre \<union> set post) \<and>
        ((mark_patch m u \<and> Guard m = NoSkip) \<or>
         (escalate_patch m u \<and> MarkedAction m = Some ActionRestart \<and> MarkedAction u = Some ActionRemediate)))))"
proof -
  have silent: "list_all silent cs \<longleftrightarrow> (\<forall>obj ty rs ac nt. EmitEvent obj ty rs ac nt \<notin> set cs)" for cs
    unfolding list_all_iff by (metis silent.elims(3) silent.simps(1))
  from doesD [OF does_same_handle [OF assms(1)] assms(2)] obtain cs where cs: "history s' = history s @ cs"
    "list_all silent cs \<or> (\<exists>m. machine = Some m \<and> o_decision (decide_in mode (cf_table cfg) sig) \<in> {Replace, Restart} \<and>
      marks_once (cf_dry_run cfg) m cs)" by (auto simp: same_def)
  have kinds: "(mark_patch m u \<and> Guard m = NoSkip) \<or>
      (escalate_patch m u \<and> MarkedAction m = Some ActionRestart \<and> MarkedAction u = Some ActionRemediate)"
    if "mark_patch m u \<or> escalate_patch m u" for m u
  proof -
    have "mark_patch m u \<Longrightarrow> Guard m = NoSkip" "escalate_patch m u \<Longrightarrow> MarkedAction m = Some ActionRestart"
      by (simp_all add: mark_patch_def escalate_patch_def)
    then show ?thesis using that escalate_patch_keeps_mark [of m u] by blast
  qed
  show ?thesis
  proof (cases "list_all silent cs")
    case True
    then show ?thesis using cs(1) silent by blast
  next
    case False
    with cs(2) obtain m where m: "machine = Some m" "o_decision (decide_in mode (cf_table cfg) sig) \<in> {Replace, Restart}"
      "marks_once (cf_dry_run cfg) m cs" by blast
    with False obtain pre u lock v ac nt post where parts: "\<not> cf_dry_run cfg"
      "cs = pre @ [PatchMachine m u lock (Inr v), EmitEvent (on_machine v) WarningEvent EventMarkedForRemediation ac nt] @ post"
      "list_all silent pre" "list_all silent post" "mark_patch m u \<or> escalate_patch m u"
      unfolding marks_once_def by blast
    have "\<forall>obj ty rs ac nt. EmitEvent obj ty rs ac nt \<notin> set pre \<union> set post" using parts(3,4) silent by auto
    with cs(1) m(1,2) parts(1,2) kinds [OF parts(5)] show ?thesis by blast
  qed
qed

theorem handle_persisting_witness:
  "\<exists>obs s1 s2 cs. run_state (handle quiet_env plain_kube example_config example_cluster ModeReportOnly []
       example_restart_signal (Some example_machine) (Some back_node) zero_observation) fresh_reconciler =
       ((obs, Some example_machine), s1) \<and>
     (\<exists>note. EmitEvent (on_machine example_machine) WarningEvent EventNodeHealthReported ActionReport note \<in> set (history s1)) \<and>
     run_state (handle quiet_env plain_kube example_config example_cluster ModeReportOnly []
       example_restart_signal (Some example_machine) (Some back_node) obs) s1 = ((obs, Some example_machine), s2) \<and>
     history s2 = history s1 @ cs \<and> (\<forall>obj ty rs ac nt. EmitEvent obj ty rs ac nt \<notin> set cs)"
proof -
  have d: "o_decision (decide_in ModeReportOnly (cf_table example_config) example_restart_signal) = Report"
    by (simp add: decide_in_def reportOnly_def Let_def)
  define p where "p = (\<lambda>previous. handle quiet_env plain_kube example_config example_cluster ModeReportOnly []
       example_restart_signal (Some example_machine) (Some back_node) previous)"
  have same: "fst (run_state (p previous) s) = fst (run_state (p previous') s'')" for previous previous' s s''
    using d by (simp add: p_def handle_def Let_def split: prod.splits)
  have mach: "snd (fst (run_state (p previous) s)) = Some example_machine" for previous s
    using d by (simp add: p_def handle_def Let_def split: prod.splits)
  have told: "\<exists>note. EmitEvent (on_machine example_machine) WarningEvent EventNodeHealthReported ActionReport note
      \<in> set (history (snd (run_state (p zero_observation) fresh_reconciler)))"
    using d by (simp add: p_def handle_def Let_def report_def zero_observation_def example_machine_def
        log_line_def emit_event_def example_config_def split: prod.splits) blast
  obtain obs s1 where r1: "run_state (p zero_observation) fresh_reconciler = ((obs, Some example_machine), s1)"
    using mach [of zero_observation fresh_reconciler] by (metis prod.collapse)
  obtain s2 where r2: "run_state (p obs) s1 = ((obs, Some example_machine), s2)"
    using same [of obs s1 zero_observation fresh_reconciler] r1 by (metis fst_conv prod.collapse)
  from handle_persisting [OF quiet_env_documented r2 [unfolded p_def]] d
  obtain cs where "history s2 = history s1 @ cs" "\<forall>obj ty rs ac nt. EmitEvent obj ty rs ac nt \<notin> set cs" by auto
  then show ?thesis using told r1 r2 unfolding p_def by auto
qed

text \<open>A signal that calls for it gets its Machine marked. When no guard protects the Machine and the checks can carry
  out the decision, covering it with one that is not paused for a replacement, and only through templates and without a
  sign of an earlier mark for a restart, handling the signal patches the Machine at once with the mark of that action;
  for a restart the mark records the boot of the node and the request. A patch that fails concludes nothing.\<close>

theorem handle_marks:
  assumes "\<not> cf_dry_run cfg" and "Guard m = NoSkip" and "node \<noteq> None \<or> s_request sig = []"
    and "(d = Replace \<and> Covered (CoverageOf K checks m)) \<or>
      (d = Restart \<and> TemplatesOnly (CoverageOf K checks m) \<and> \<not> EarlierMarkPending K m)"
    and "o_decision (decide_in mode (cf_table cfg) sig) = d"
    and "run_state (handle E K cfg cluster mode checks sig (Some m) node previous) s = ((obs, machine'), s')"
  shows "\<exists>u r cs. history s' = history s @ PatchMachine m u False r # cs \<and>
    MarkedAction u = Some (if d = Restart then ActionRestart else ActionRemediate) \<and>
    (d = Restart \<longrightarrow> (\<exists>reason. u = m\<lparr>m_annotations := marked_annotations (m_annotations m) ActionRestart reason
        \<lparr>r_boot_id = (case node of None \<Rightarrow> [] | Some n \<Rightarrow> n_boot_id n), r_request = s_request sig\<rparr>\<rparr>)) \<and>
    (case r of Inl _ \<Rightarrow> obs = zero_observation \<and> machine' = Some m
     | Inr v \<Rightarrow> machine' = Some v \<and> ob_machine obs = m_name m \<and> ob_decision obs = d)"
  using handle_marks_run [OF assms] by blast

definition labelled_machine :: machine where
  "labelled_machine = example_machine\<lparr>m_labels := [''cluster.x-k8s.io/cluster-name'' \<mapsto> ''c'']\<rparr>"

lemma labelled_machine_covered:
  "TemplatesOnly (CoverageOf plain_kube [example_check] labelled_machine)" "Guard labelled_machine = NoSkip"
  "\<not> EarlierMarkPending plain_kube labelled_machine"
proof -
  have "CoverageOf plain_kube [example_check] labelled_machine = [covering plain_kube example_check]"
    by (simp add: CoverageOf_def selects_def) (simp add: example_check_def labelled_machine_def example_machine_def)
  then show "TemplatesOnly (CoverageOf plain_kube [example_check] labelled_machine)"
    by (simp add: TemplatesOnly_def covering_def) (simp add: example_check_def)
qed (simp_all add: labelled_machine_def Guard_NoSkip_iff deleting_def IsMarkedForRemediation_def IsControlPlane_def IsPaused_def
    IsOptedOut_def EarlierMarkPending_def example_machine_def control_plane_label_def)

theorem handle_marks_witness:
  "\<exists>obs machine' s' u r cs. run_state (handle quiet_env plain_kube example_config example_cluster ModeExternalRemediationRequest
      [example_check] example_restart_signal (Some labelled_machine) (Some back_node) zero_observation) fresh_reconciler =
      ((obs, machine'), s') \<and>
    history s' = PatchMachine labelled_machine u False r # cs \<and> MarkedAction u = Some ActionRestart"
proof -
  obtain obs machine' s' where run: "run_state (handle quiet_env plain_kube example_config example_cluster ModeExternalRemediationRequest
      [example_check] example_restart_signal (Some labelled_machine) (Some back_node) zero_observation) fresh_reconciler =
      ((obs, machine'), s')" by (metis prod.exhaust)
  have live: "\<not> cf_dry_run example_config" by (simp add: example_config_def)
  from handle_marks [OF live _ _ _ decide_example run] labelled_machine_covered obtain u r cs where
    "history s' = history fresh_reconciler @ PatchMachine labelled_machine u False r # cs"
    "MarkedAction u = Some ActionRestart" by auto
  then have "history s' = PatchMachine labelled_machine u False r # cs \<and> MarkedAction u = Some ActionRestart"
    by (simp add: fresh_reconciler_def)
  with run show ?thesis by blast
qed

end
