(* ===== verification/Restarts.thy ===== *)
theory Restarts
  imports Handle
begin

text \<open>
  The end of a restart (\<open>releaseRestarts\<close>, \<open>answer\<close> and \<open>releaseAnswered\<close> of
  \<open>internal/controller/cluster_controller.go\<close>): which marks the signals still hold, releasing the others, and
  answering a request and releasing its Machine with it. The Machines by node are a map whose entries the
  actuator updates in place: an association list that the operations return.
\<close>

definition ActionAnswer :: string where "ActionAnswer = ''Answer''"
definition EventRequestAnswered :: string where "EventRequestAnswered = ''ExternalRemediationRequestAnswered''"

section \<open>What the signals hold\<close>

type_synonym machines = "(string \<times> machine) list"
type_synonym nodes = "(string \<times> node) list"

definition node_of :: "machines \<Rightarrow> string \<Rightarrow> string" where
  "node_of machines name = (case find (\<lambda>(node, m). m_name m = name) machines of None \<Rightarrow> [] | Some (node, _) \<Rightarrow> node)"

text \<open>Whether an observation stands for a restart of its own that waits for the mark of an earlier one to go.\<close>

definition waits_for_own :: "machines \<Rightarrow> nodes \<Rightarrow> string list \<Rightarrow> observation \<Rightarrow> bool" where
  "waits_for_own machines nodes asking obs =
     (let node = node_of machines (ob_machine obs)
      in case map_of machines node of
          None \<Rightarrow> False
        | Some m \<Rightarrow> ob_decision obs = Restart \<and> ob_request obs \<noteq> [] \<and>
            (let asked = annotation m RemediationRequestAnnotation
             in asked \<noteq> [] \<and> asked \<notin> set asking \<and> RestartCompleted m (map_of nodes node)))"

text \<open>The loop over the observations: the Machines held, and those with a leftover mark with the first request
  by name that waits.\<close>

fun hold_step ::
  "machines \<Rightarrow> nodes \<Rightarrow> string list \<Rightarrow> observation \<Rightarrow> string list \<times> (string \<times> string) list \<Rightarrow>
   string list \<times> (string \<times> string) list" where
  "hold_step machines nodes asking obs (held, leftover) =
     (if ob_machine obs = [] \<or> (ob_decision obs \<noteq> Replace \<and> ob_decision obs \<noteq> Restart) then (held, leftover)
      else if waits_for_own machines nodes asking obs then
        (held, (case map_of leftover (ob_machine obs) of
           None \<Rightarrow> AList.update (ob_machine obs) (ob_request obs) leftover
         | Some w \<Rightarrow> if ob_request obs < w then AList.update (ob_machine obs) (ob_request obs) leftover else leftover))
      else (append_new (ob_machine obs) held, leftover))"

definition holding ::
  "machines \<Rightarrow> nodes \<Rightarrow> string list \<Rightarrow> (string \<times> observation) list \<Rightarrow> string list \<times> (string \<times> string) list" where
  "holding machines nodes asking current =
     fold (hold_step machines nodes asking) (map snd current) ([], [])"

section \<open>Releasing restarts\<close>

definition release_reason :: "string \<Rightarrow> string \<Rightarrow> machine \<Rightarrow> string option \<Rightarrow> string" where
  "release_reason source node m waits = (case waits of
     None \<Rightarrow> ''no '' @ source @ '' signal this operator acts on calls for a restart or a replacement of node '' @ node @ '' any more''
   | Some w \<Rightarrow> ''the restart of node '' @ node @ '' that '' @ annotation m RemediationRequestAnnotation @
       '' asked for is over, and '' @ w @ '' waits for one of its own'')"

definition release_why :: "string option \<Rightarrow> string" where
  "release_why waits = (case waits of
     None \<Rightarrow> ''its restart signal cleared'' | Some _ \<Rightarrow> ''the restart it was marked for is over'')"

definition release_step ::
  "env \<Rightarrow> config \<Rightarrow> cluster_key \<Rightarrow> string \<Rightarrow> string list \<Rightarrow> (string \<times> string) list \<Rightarrow> string \<Rightarrow>
   machines \<times> string list \<Rightarrow> (reconciler, machines \<times> string list) state" where
  "release_step E cfg key source held leftover node st = (case st of (machines, would) \<Rightarrow>
     (case map_of machines node of
        None \<Rightarrow> State_Monad.return (machines, would)
      | Some m \<Rightarrow>
          if MarkedAction m \<noteq> Some ActionRestart \<or> m_name m \<in> set held then State_Monad.return (machines, would)
          else
            let waits = map_of leftover (m_name m) in do {
              (r, m') \<leftarrow> Release E (cf_dry_run cfg) m (release_reason source node m waits);
              (case r of
                 Inl err \<Rightarrow> do {
                   log_line Error ''releasing Machine from remediation failed'';
                   State_Monad.return (AList.update node m' machines, would)
                 }
               | Inr released \<Rightarrow>
                   if released \<and> cf_dry_run cfg then do {
                     before \<leftarrow> releasableBefore key (m_name m);
                     (if before then log_line Debug ''would still release Machine from remediation''
                      else log_line Info (''would release Machine from remediation, '' @ release_why waits));
                     State_Monad.return (AList.update node m' machines, append_new (m_name m) would)
                   }
                   else if released then do {
                     log_line Info (''Machine released from remediation, '' @ release_why waits);
                     State_Monad.return (AList.update node m' machines, would)
                   }
                   else State_Monad.return (AList.update node m' machines, would))
            }))"

definition releaseRestarts ::
  "env \<Rightarrow> config \<Rightarrow> cluster_key \<Rightarrow> string \<Rightarrow> machines \<Rightarrow> nodes \<Rightarrow> (string \<times> observation) list \<Rightarrow> string list \<Rightarrow>
   (reconciler, machines) state" where
  "releaseRestarts E cfg key source machines nodes current asking =
     (case holding machines nodes asking current of (held, leftover) \<Rightarrow> do {
        (machines', would) \<leftarrow> loop (release_step E cfg key source held leftover) (sort (map fst machines)) (machines, []);
        rememberWouldRelease key would;
        State_Monad.return machines'
      })"

section \<open>Answering\<close>

record restart_mark =
  rm_action :: string
  rm_boot_id :: string
  rm_request :: string
  rm_marked :: bool

definition restartMarkOf :: "machine \<Rightarrow> restart_mark" where
  "restartMarkOf m =
     \<lparr>rm_action = (case MarkedAction m of None \<Rightarrow> [] | Some action \<Rightarrow> action),
      rm_boot_id = annotation m RemediationBootIDAnnotation,
      rm_request = annotation m RemediationRequestAnnotation,
      rm_marked = (MarkedAction m \<noteq> None)\<rparr>"

text \<open>
  One run of the function \<open>retry.RetryOnConflict\<close> is given: the error it returns, and the Machine as it is
  then. \<open>conflicted\<close> is set when the run before lost to another write.
\<close>

definition release_attempt ::
  "env \<Rightarrow> bool \<Rightarrow> restart_mark \<Rightarrow> string \<Rightarrow> bool \<Rightarrow> machine \<Rightarrow> ((call, 'w) world_scheme, go_error option \<times> machine) state" where
  "release_attempt E dryRun answered reason conflicted m =
     (let attempt = (\<lambda>m. do {
            (r, m') \<leftarrow> Release E dryRun m reason;
            State_Monad.return ((case r of Inl err \<Rightarrow> ignore_not_found (Some err) | Inr _ \<Rightarrow> None), m')
          })
      in if conflicted then do {
           r \<leftarrow> ask (GetMachine (m_namespace m) (m_name m)) (\<lambda>h. get_machine E h (m_namespace m) (m_name m));
           (case r of
              Inl err \<Rightarrow> State_Monad.return (ignore_not_found (Some err), m)
            | Inr current \<Rightarrow>
                if restartMarkOf current \<noteq> answered then State_Monad.return (None, current)
                else attempt current)
         }
         else attempt m)"

text \<open>\<open>RetryOnConflict\<close> runs it again after a conflict, \<open>retry_steps\<close> times at most, and returns what the last run
  did. Any run after the first comes after a conflict.\<close>

definition is_conflict :: "go_error option \<Rightarrow> bool" where
  "is_conflict e = (case e of None \<Rightarrow> False | Some err \<Rightarrow> kind_of err = Conflict)"

fun retry_release ::
  "env \<Rightarrow> bool \<Rightarrow> restart_mark \<Rightarrow> string \<Rightarrow> nat \<Rightarrow> bool \<Rightarrow> machine \<Rightarrow> ((call, 'w) world_scheme, go_error option \<times> machine) state" where
  "retry_release E dryRun answered reason 0 conflicted m = State_Monad.return (None, m)"
| "retry_release E dryRun answered reason (Suc n) conflicted m = do {
     (e, m') \<leftarrow> release_attempt E dryRun answered reason conflicted m;
     (if is_conflict e \<and> n \<noteq> 0 then retry_release E dryRun answered reason n True m'
      else State_Monad.return (e, m'))
   }"

definition releaseAnswered ::
  "env \<Rightarrow> kube \<Rightarrow> config \<Rightarrow> machine \<Rightarrow> string \<Rightarrow> ((call, 'w) world_scheme, go_error option \<times> machine) state" where
  "releaseAnswered E K cfg m reason =
     retry_release E (cf_dry_run cfg) (restartMarkOf m) reason (retry_steps K) False m"

definition answer_note :: "signal \<Rightarrow> answer \<Rightarrow> string" where
  "answer_note sig a = ''Answered '' @ request_kind @ '' '' @ s_request sig @ '': '' @
     (if an_complete a then ''True'' else ''False'') @ '', '' @ an_reason a @ '': '' @ an_message a"

text \<open>What follows an answer that was accepted: it is recorded, and a completed restart releases the Machine.\<close>

definition after_answer ::
  "env \<Rightarrow> kube \<Rightarrow> config \<Rightarrow> cluster \<Rightarrow> machine option \<Rightarrow> signal \<Rightarrow> answer \<Rightarrow> (reconciler, machine option) state" where
  "after_answer E K cfg cluster machine sig a = do {
     log_line Info ''ExternalRemediationRequest answered'';
     emit_event (case machine of None \<Rightarrow> on_cluster cluster | Some m \<Rightarrow> on_machine m)
       NormalEvent EventRequestAnswered ActionAnswer (EventNote (answer_note sig a));
     (case machine of
        None \<Rightarrow> State_Monad.return None
      | Some m \<Rightarrow>
          if an_complete a then do {
            (e, m') \<leftarrow> releaseAnswered E K cfg m (an_message a);
            (if e \<noteq> None then log_line Error ''releasing Machine from remediation failed'' else State_Monad.return ());
            State_Monad.return (Some m')
          }
          else State_Monad.return (Some m))
   }"

definition answer_request ::
  "env \<Rightarrow> kube \<Rightarrow> config \<Rightarrow> cluster \<Rightarrow> machine option \<Rightarrow> signal \<Rightarrow> answer \<Rightarrow> bool \<Rightarrow> (reconciler, machine option) state" where
  "answer_request E K cfg cluster machine sig a news =
     (if cf_dry_run cfg then do {
        (if news then log_line Info ''would answer ExternalRemediationRequest'' else State_Monad.return ());
        State_Monad.return machine
      } else do {
        r \<leftarrow> Answer E K (s_request sig) (an_complete a) (an_reason a) (an_message a);
        (case r of
           Inl err \<Rightarrow> do {
             log_line Error ''answering ExternalRemediationRequest failed'';
             State_Monad.return machine
           }
         | Inr answered \<Rightarrow>
             if \<not> answered then State_Monad.return machine
             else after_answer E K cfg cluster machine sig a)
      })"

section \<open>The calls\<close>

lemma restartMarkOf_action: "restartMarkOf m = restartMarkOf m' \<Longrightarrow> MarkedAction m = MarkedAction m'"
  by (auto simp: restartMarkOf_def split: option.splits)

lemma emits_release_attempt:
  assumes "\<And>ns name r. P (GetMachine ns name r)"
    and "\<And>obj ty rs ac nt. \<not> dryRun \<Longrightarrow> P (EmitEvent obj ty rs ac (EventNote nt))"
    and "\<And>b r. \<not> dryRun \<Longrightarrow> restartMarkOf b = answered \<Longrightarrow> MarkedAction b \<noteq> None \<Longrightarrow> \<not> deleting b \<Longrightarrow>
      P (PatchMachine b (b\<lparr>m_annotations := released_annotations (m_annotations b)\<rparr>) True r)"
    and "\<not> conflicted \<Longrightarrow> restartMarkOf m = answered"
  shows "emits P (release_attempt E dryRun answered reason conflicted m)"
  unfolding release_attempt_def Let_def
  by (intro emits_rules emits_Release) (use assms in auto)

lemma emits_retry_release:
  assumes "\<And>ns name r. P (GetMachine ns name r)"
    and "\<And>obj ty rs ac nt. \<not> dryRun \<Longrightarrow> P (EmitEvent obj ty rs ac (EventNote nt))"
    and "\<And>b r. \<not> dryRun \<Longrightarrow> restartMarkOf b = answered \<Longrightarrow> MarkedAction b \<noteq> None \<Longrightarrow> \<not> deleting b \<Longrightarrow>
      P (PatchMachine b (b\<lparr>m_annotations := released_annotations (m_annotations b)\<rparr>) True r)"
    and "\<not> conflicted \<Longrightarrow> restartMarkOf m = answered"
  shows "emits P (retry_release E dryRun answered reason n conflicted m)"
  using assms(4)
proof (induction n arbitrary: conflicted m)
  case 0
  then show ?case by (simp add: emits_return)
next
  case (Suc n)
  show ?case unfolding retry_release.simps
    by (intro emits_rules emits_release_attempt Suc.IH) (use assms Suc.prems in auto)
qed

lemma emits_releaseAnswered:
  assumes "\<And>ns name r. P (GetMachine ns name r)"
    and "\<And>obj ty rs ac nt. \<not> cf_dry_run cfg \<Longrightarrow> P (EmitEvent obj ty rs ac (EventNote nt))"
    and "\<And>b r. \<not> cf_dry_run cfg \<Longrightarrow> MarkedAction b = MarkedAction m \<Longrightarrow> MarkedAction b \<noteq> None \<Longrightarrow> \<not> deleting b \<Longrightarrow>
      P (PatchMachine b (b\<lparr>m_annotations := released_annotations (m_annotations b)\<rparr>) True r)"
  shows "emits P (releaseAnswered E K cfg m reason)"
  unfolding releaseAnswered_def
  by (intro emits_retry_release) (use assms in \<open>auto dest: restartMarkOf_action\<close>)

lemma emits_answer_request:
  assumes "\<And>l msg. P (LogLine l msg)" and "\<And>t. P (ReadClock t)" and "\<And>n r. P (GetRequest n r)"
    and "\<And>ns name r. P (GetMachine ns name r)"
    and "\<And>obj ty rs ac nt. \<not> cf_dry_run cfg \<Longrightarrow> P (EmitEvent obj ty rs ac (EventNote nt))"
    and "\<And>obj now r. \<not> cf_dry_run cfg \<Longrightarrow> Pending K obj \<Longrightarrow> P (PatchRequestStatus obj
      (answered_object K obj (answer_condition K obj (an_complete a) (an_reason a) (an_message a) now)) r)"
    and "\<And>m b r. \<not> cf_dry_run cfg \<Longrightarrow> an_complete a \<Longrightarrow> machine = Some m \<Longrightarrow> MarkedAction b = MarkedAction m \<Longrightarrow>
      MarkedAction b \<noteq> None \<Longrightarrow> \<not> deleting b \<Longrightarrow>
      P (PatchMachine b (b\<lparr>m_annotations := released_annotations (m_annotations b)\<rparr>) True r)"
  shows "emits P (answer_request E K cfg cluster machine sig a news)"
  unfolding answer_request_def after_answer_def
  by (intro emits_rules emits_Answer emits_releaseAnswered) (use assms in auto)

lemma emits_release_step:
  assumes "\<And>l msg. P (LogLine l msg)"
    and "\<And>obj ty rs ac nt. \<not> cf_dry_run cfg \<Longrightarrow> P (EmitEvent obj ty rs ac (EventNote nt))"
    and "\<And>b r. \<not> cf_dry_run cfg \<Longrightarrow> map_of (fst st) node = Some b \<Longrightarrow> m_name b \<notin> set held \<Longrightarrow>
      MarkedAction b = Some ActionRestart \<Longrightarrow> \<not> deleting b \<Longrightarrow>
      P (PatchMachine b (b\<lparr>m_annotations := released_annotations (m_annotations b)\<rparr>) True r)"
  shows "emits P (release_step E cfg key source held leftover node st)"
  unfolding release_step_def releasableBefore_def Let_def
  by (intro emits_rules emits_Release) (use assms in auto)

lemma emits_releaseRestarts:
  assumes "\<And>l msg. P (LogLine l msg)"
    and "\<And>obj ty rs ac nt. \<not> cf_dry_run cfg \<Longrightarrow> P (EmitEvent obj ty rs ac (EventNote nt))"
    and "\<And>b r. \<not> cf_dry_run cfg \<Longrightarrow> MarkedAction b = Some ActionRestart \<Longrightarrow> \<not> deleting b \<Longrightarrow>
      P (PatchMachine b (b\<lparr>m_annotations := released_annotations (m_annotations b)\<rparr>) True r)"
  shows "emits P (releaseRestarts E cfg key source machines nodes current asking)"
  unfolding releaseRestarts_def rememberWouldRelease_def
  by (intro emits_rules emits_release_step) (use assms in auto)

section \<open>What holds a mark\<close>

text \<open>The observations that matter, those that hold, and the requests that wait, as sets.\<close>

definition counts :: "observation \<Rightarrow> bool" where
  "counts obs \<longleftrightarrow> ob_machine obs \<noteq> [] \<and> (ob_decision obs = Replace \<or> ob_decision obs = Restart)"

definition held_by :: "machines \<Rightarrow> nodes \<Rightarrow> string list \<Rightarrow> observation set \<Rightarrow> string set" where
  "held_by machines nodes asking obss = ob_machine ` {obs \<in> obss. counts obs \<and> \<not> waits_for_own machines nodes asking obs}"

definition waiting_for :: "machines \<Rightarrow> nodes \<Rightarrow> string list \<Rightarrow> observation set \<Rightarrow> string \<Rightarrow> string set" where
  "waiting_for machines nodes asking obss name =
     ob_request ` {obs \<in> obss. counts obs \<and> waits_for_own machines nodes asking obs \<and> ob_machine obs = name}"

definition first_of :: "string set \<Rightarrow> string option" where
  "first_of A = (if A = {} then None else Some (Min A))"

lemma first_of_insert:
  "finite A \<Longrightarrow> first_of (insert x A) = (case first_of A of None \<Rightarrow> Some x | Some w \<Rightarrow> if x < w then Some x else Some w)"
proof -
  assume fin: "finite A"
  have "min x y = (if x < y then x else y)" for y by (auto simp: min_def)
  then have "Min (insert x A) = (if x < Min A then x else Min A)" if "A \<noteq> {}"
    using Min_insert [OF fin that] by simp
  then show ?thesis by (cases "A = {}") (simp_all add: first_of_def del: Min_insert Min_gr_iff)
qed

lemma finite_waiting_for: "finite (waiting_for machines nodes asking (set obss) name)"
  by (simp add: waiting_for_def)

lemma in_held_by:
  "n \<in> held_by machines nodes asking A \<longleftrightarrow>
     (\<exists>obs \<in> A. counts obs \<and> ob_machine obs = n \<and> \<not> waits_for_own machines nodes asking obs)"
  by (auto simp: held_by_def)

lemma held_by_insert:
  "held_by machines nodes asking (insert obs A) =
     (if counts obs \<and> \<not> waits_for_own machines nodes asking obs then insert (ob_machine obs) (held_by machines nodes asking A)
      else held_by machines nodes asking A)"
  by (auto simp: held_by_def)

lemma waiting_for_insert:
  "waiting_for machines nodes asking (insert obs A) name =
     (if counts obs \<and> waits_for_own machines nodes asking obs \<and> ob_machine obs = name
      then insert (ob_request obs) (waiting_for machines nodes asking A name)
      else waiting_for machines nodes asking A name)"
  by (auto simp: waiting_for_def)

lemma hold_loop:
  "\<exists>held leftover. fold (hold_step machines nodes asking) obss ([], []) = (held, leftover) \<and>
     set held = held_by machines nodes asking (set obss) \<and>
     (\<forall>name. map_of leftover name = first_of (waiting_for machines nodes asking (set obss) name))"
proof (induction obss rule: rev_induct)
  case Nil
  then show ?case by (simp add: held_by_def waiting_for_def first_of_def)
next
  case (snoc obs obss)
  then obtain held leftover where IH: "fold (hold_step machines nodes asking) obss ([], []) = (held, leftover)"
    "set held = held_by machines nodes asking (set obss)"
    "\<And>name. map_of leftover name = first_of (waiting_for machines nodes asking (set obss) name)" by blast
  have fin: "finite (waiting_for machines nodes asking (set obss) name)" for name by (rule finite_waiting_for)
  show ?case
  proof (cases "counts obs")
    case False
    then have "hold_step machines nodes asking obs (held, leftover) = (held, leftover)"
      by (auto simp: counts_def)
    then show ?thesis using IH False by (simp add: held_by_insert waiting_for_insert)
  next
    case True
    then show ?thesis
      using IH by (cases "waits_for_own machines nodes asking obs")
        (auto simp: counts_def held_by_insert waiting_for_insert first_of_insert [OF fin] update_conv' split: option.split)
  qed
qed

lemma holding_sets:
  assumes "holding machines nodes asking current = (held, leftover)"
  shows "set held = held_by machines nodes asking (snd ` set current)"
    and "map_of leftover name = first_of (waiting_for machines nodes asking (snd ` set current) name)"
  using assms hold_loop [of machines nodes asking "map snd current"] by (auto simp: holding_def)

text \<open>The loop that releases looks at what is held and who waits only.\<close>

lemma release_step_cong:
  assumes "set held = set held'" and "map_of leftover = map_of leftover'"
  shows "release_step E cfg key source held leftover = release_step E cfg key source held' leftover'"
  unfolding release_step_def assms ..

section \<open>What is released\<close>

text \<open>A Machine whose mark is this operator's restart mark and that no signal holds.\<close>

definition releasable :: "string set \<Rightarrow> machine \<Rightarrow> bool" where
  "releasable held m \<longleftrightarrow> MarkedAction m = Some ActionRestart \<and> \<not> deleting m \<and> m_name m \<notin> held"

text \<open>One step of the loop, on another node's entry and on its own.\<close>

lemma release_step_other:
  assumes "run_state (release_step E cfg key source held leftover node st) s = (st', s')" and "node' \<noteq> node"
  shows "map_of (fst st') node' = map_of (fst st) node'"
proof -
  obtain machines would where st: "st = (machines, would)" by fastforce
  have "yields (\<lambda>st'. map_of (fst st') node' = map_of machines node')
      (release_step E cfg key source held leftover node (machines, would))"
    unfolding release_step_def Let_def by (intro yields_rules) (use assms(2) in \<open>auto simp: update_conv'\<close>)
  from yieldsD [OF this] assms(1) st show ?thesis by simp
qed

lemma release_step_releases:
  assumes "\<not> cf_dry_run cfg" and "map_of (fst st) node = Some m" and "releasable (set held) m"
    and "run_state (release_step E cfg key source held leftover node st) s = (st', s')"
  shows "\<exists>r cs. history s' = history s @ PatchMachine m (m\<lparr>m_annotations := released_annotations (m_annotations m)\<rparr>) True r # cs"
  using assms by (cases st) (auto simp: release_step_def releasable_def Release_def Let_def split: sum.splits)

lemma emits_release_loop:
  assumes "distinct names" and "\<And>node. node \<in> set names \<Longrightarrow> map_of (fst st) node = map_of machines node"
    and "\<And>l msg. P (LogLine l msg)" and "\<And>obj ty rs ac nt. P (EmitEvent obj ty rs ac (EventNote nt))"
    and "\<And>node b r. map_of machines node = Some b \<Longrightarrow> releasable (set held) b \<Longrightarrow>
      P (PatchMachine b (b\<lparr>m_annotations := released_annotations (m_annotations b)\<rparr>) True r)"
  shows "emits P (loop (release_step E cfg key source held leftover) names st)"
  using assms(1,2)
proof (induction names arbitrary: st)
  case Nil
  then show ?case by (simp add: emits_return)
next
  case (Cons node names)
  have "emits P (release_step E cfg key source held leftover node st)"
    using Cons.prems(2) [of node] assms(3-5) by (intro emits_release_step) (auto simp: releasable_def)
  moreover have "emits P (loop (release_step E cfg key source held leftover) names st')"
    if "run_state (release_step E cfg key source held leftover node st) s = (st', s')" for st' s s'
  proof (rule Cons.IH)
    note run = that
    show "distinct names" using Cons.prems(1) by simp
    show "map_of (fst st') n = map_of machines n" if n: "n \<in> set names" for n
    proof -
      have "n \<noteq> node" using n Cons.prems(1) by auto
      from release_step_other [OF run this] show ?thesis using Cons.prems(2) n by simp
    qed
  qed
  ultimately show ?case unfolding loop.simps by (rule emits_bind_run)
qed

lemma release_loop_complete:
  assumes "\<not> cf_dry_run cfg" and "distinct names" and "node \<in> set names" and "map_of (fst st) node = Some m"
    and "releasable (set held) m"
    and "run_state (loop (release_step E cfg key source held leftover) names st) s = (st', s')"
  shows "\<exists>r. PatchMachine m (m\<lparr>m_annotations := released_annotations (m_annotations m)\<rparr>) True r \<in> set (drop (length (history s)) (history s'))"
  using assms(2-4,6)
proof (induction names arbitrary: st s)
  case Nil
  then show ?case by simp
next
  case (Cons x names)
  obtain st1 s1 where step: "run_state (release_step E cfg key source held leftover x st) s = (st1, s1)" by fastforce
  have rest: "run_state (loop (release_step E cfg key source held leftover) names st1) s1 = (st', s')"
    using Cons.prems(4) step by simp
  have "emits (\<lambda>_. True) (loop (release_step E cfg key source held leftover) names st1)"
    by (intro emits_rules emits_release_step) auto
  then obtain ds where ds: "history s' = history s1 @ ds"
    using rest unfolding emits_def by (metis snd_conv)
  show ?case
  proof (cases "x = node")
    case True
    then show ?thesis
      using release_step_releases [OF assms(1) _ assms(5) step] Cons.prems(3) ds by fastforce
  next
    case False
    have "emits (\<lambda>_. True) (release_step E cfg key source held leftover x st)"
      by (intro emits_release_step) auto
    then obtain cs where "history s1 = history s @ cs"
      using step unfolding emits_def by (metis snd_conv)
    moreover have "map_of (fst st1) node = Some m"
      using release_step_other [OF step] False Cons.prems(3) by metis
    then have "\<exists>r. PatchMachine m (m\<lparr>m_annotations := released_annotations (m_annotations m)\<rparr>) True r
        \<in> set (drop (length (history s1)) (history s'))"
      using Cons.prems False rest by (intro Cons.IH) auto
    ultimately show ?thesis using ds by auto
  qed
qed

section \<open>Releasing with an answer\<close>

lemma run_emits:
  assumes "emits P m" and "run_state m s = (a, s')"
  shows "\<exists>cs. history s' = history s @ cs \<and> list_all P cs"
  using assms unfolding emits_def by (metis snd_conv)

text \<open>Every attempt makes one patch at most.\<close>

definition patch_count :: "call list \<Rightarrow> nat" where
  "patch_count cs = length (filter (\<lambda>c. \<exists>b u l r. c = PatchMachine b u l r) cs)"

lemma patch_count_simps [simp]:
  "patch_count [] = 0" "patch_count (PatchMachine b u l r # cs) = Suc (patch_count cs)"
  "patch_count (LogLine lv msg # cs) = patch_count cs" "patch_count (GetMachine ns name g # cs) = patch_count cs"
  "patch_count (EmitEvent obj ty rs ac nt # cs) = patch_count cs"
  "patch_count (cs @ ds) = patch_count cs + patch_count ds"
  by (simp_all add: patch_count_def)

lemma Release_count:
  "run_state (Release E dryRun m reason) s = (x, s') \<Longrightarrow> \<exists>cs. history s' = history s @ cs \<and> patch_count cs \<le> 1"
  by (auto simp: Release_def split: option.splits if_splits sum.splits)

lemma release_attempt_count:
  assumes "run_state (release_attempt E dryRun answered reason conflicted m) s = (x, s')"
  shows "\<exists>cs. history s' = history s @ cs \<and> patch_count cs \<le> 1"
proof -
  have final: "\<exists>cs. history s' = history s @ cs \<and> patch_count cs \<le> 1"
    if "run_state (do {
          (r, m') \<leftarrow> Release E dryRun m reason;
          State_Monad.return ((case r of Inl err \<Rightarrow> ignore_not_found (Some err) | Inr _ \<Rightarrow> None), m')
        }) s = (x, s')" for m x s s'
    using that Release_count by (fastforce split: prod.splits)
  show ?thesis
  proof (cases "conflicted \<and> (\<exists>cur. get_machine E (history s) (m_namespace m) (m_name m) = Inr cur \<and> restartMarkOf cur = answered)")
    case True
    then obtain cur where cur: "conflicted" "get_machine E (history s) (m_namespace m) (m_name m) = Inr cur"
      "restartMarkOf cur = answered" by blast
    let ?c = "GetMachine (m_namespace m) (m_name m) (Inr cur)"
    have "\<exists>cs. history s' = (history s @ [?c]) @ cs \<and> patch_count cs \<le> 1"
      using final [of cur "s\<lparr>history := history s @ [?c]\<rparr>" x s'] assms cur
      by (simp add: release_attempt_def Let_def)
    then show ?thesis by (metis append_assoc append_Cons append_Nil patch_count_simps(4))
  next
    case False
    then show ?thesis using assms final [of m s x s']
      by (auto simp: release_attempt_def Let_def split: sum.splits if_splits)
  qed
qed

lemma retry_release_count:
  "run_state (retry_release E dryRun answered reason n conflicted m) s = (x, s') \<Longrightarrow>
     \<exists>cs. history s' = history s @ cs \<and> patch_count cs \<le> n"
proof (induction n arbitrary: conflicted m s)
  case 0
  then show ?case by simp
next
  case (Suc n)
  obtain e m1 s1 where step: "run_state (release_attempt E dryRun answered reason conflicted m) s = ((e, m1), s1)"
    by (metis prod.exhaust)
  obtain cs where cs: "history s1 = history s @ cs" "patch_count cs \<le> 1"
    using release_attempt_count [OF step] by blast
  show ?case
  proof (cases "is_conflict e \<and> n \<noteq> 0")
    case True
    then have "run_state (retry_release E dryRun answered reason n True m1) s1 = (x, s')"
      using Suc.prems step by simp
    from Suc.IH [OF this] obtain ds where "history s' = history s1 @ ds" "patch_count ds \<le> n" by blast
    with cs show ?thesis by (intro exI [of _ "cs @ ds"]) simp
  next
    case False
    then have "s' = s1" using Suc.prems step by auto
    with cs show ?thesis by force
  qed
qed

section \<open>Properties\<close>

text \<open>C9: Releasing restarts outside a dry run patches exactly the Machines that carry this operator's restart
  mark, are not being deleted, and that no signal holds: no signal that calls for a restart or a replacement of
  them, but for a request that waits for a restart of its own while the mark is that of a finished restart another
  request, not asking any more, asked for. Each patch removes the mark, under the Machine's resource version.\<close>

theorem releaseRestarts_exact:
  assumes "distinct (map fst machines)" and "\<not> cf_dry_run cfg"
    and "run_state (releaseRestarts E cfg key source machines nodes current asking) s = (r, s')"
  defines "unheld \<equiv> \<lambda>m. MarkedAction m = Some ActionRestart \<and> \<not> deleting m \<and>
      (\<forall>obs \<in> snd ` set current. counts obs \<and> ob_machine obs = m_name m \<longrightarrow> waits_for_own machines nodes asking obs)"
  shows "\<exists>cs. history s' = history s @ cs \<and>
    (\<forall>m \<in> snd ` set machines. unheld m \<longleftrightarrow> (\<exists>u l res. PatchMachine m u l res \<in> set cs)) \<and>
    (\<forall>b u l res. PatchMachine b u l res \<in> set cs \<longrightarrow> b \<in> snd ` set machines \<and> l \<and>
       u = b\<lparr>m_annotations := released_annotations (m_annotations b)\<rparr>)"
proof -
  obtain held leftover where h: "holding machines nodes asking current = (held, leftover)" by fastforce
  have unheld: "releasable (set held) m \<longleftrightarrow> unheld m" for m
    unfolding releasable_def unheld_def holding_sets(1) [OF h] in_held_by by (rule iffI) blast+
  let ?P = "\<lambda>c. \<forall>b u l res. c = PatchMachine b u l res \<longrightarrow> b \<in> snd ` set machines \<and> unheld b \<and> l \<and>
      u = b\<lparr>m_annotations := released_annotations (m_annotations b)\<rparr>"
  let ?loop = "loop (release_step E cfg key source held leftover) (sort (map fst machines)) (machines, [])"
  have P: "emits ?P ?loop"
    by (rule emits_release_loop [where machines = machines])
      (use assms(1) unheld in \<open>auto dest: map_of_SomeD intro: rev_image_eqI\<close>)
  obtain st' s1 where run: "run_state ?loop s = (st', s1)" by fastforce
  obtain cs where cs: "history s1 = history s @ cs" "list_all ?P cs"
    using run_emits [OF P run] by blast
  have hist: "history s' = history s1"
    using assms(3) h run by (auto simp: releaseRestarts_def rememberWouldRelease_def split: prod.splits)
  have there: "\<exists>u l res. PatchMachine m u l res \<in> set cs" if "m \<in> snd ` set machines" and "unheld m" for m
  proof -
    obtain node where "(node, m) \<in> set machines" using \<open>m \<in> snd ` set machines\<close> by auto
    then have "node \<in> set (sort (map fst machines))" "map_of (fst (machines, [])) node = Some m"
      using assms(1) by (auto intro: rev_image_eqI)
    from release_loop_complete [OF assms(2) _ this _ run] show ?thesis
      using that(2) unheld assms(1) cs(1) by auto
  qed
  have P: "b \<in> snd ` set machines \<and> unheld b \<and> l \<and> u = b\<lparr>m_annotations := released_annotations (m_annotations b)\<rparr>"
    if "PatchMachine b u l res \<in> set cs" for b u l res
    using cs(2) that unfolding list_all_iff by blast
  show ?thesis
  proof (intro exI [of _ cs] conjI ballI allI impI iffI)
    show "history s' = history s @ cs" using cs(1) hist by simp
  qed (use there P in blast)+
qed

theorem releaseRestarts_exact_witness:
  "\<exists>r s' u l res. run_state (releaseRestarts quiet_env example_config (''ns'', ''c'') ''NodeCondition''
       [(''gpu-w-1'', restarting_machine)] [] [] []) fresh_reconciler = (r, s') \<and>
     PatchMachine restarting_machine u l res \<in> set (history s')"
proof -
  obtain r s' where run: "run_state (releaseRestarts quiet_env example_config (''ns'', ''c'') ''NodeCondition''
       [(''gpu-w-1'', restarting_machine)] [] [] []) fresh_reconciler = (r, s')" by fastforce
  have "\<not> cf_dry_run example_config" by (simp add: example_config_def)
  from releaseRestarts_exact [OF _ this run] obtain cs where
    "history s' = history fresh_reconciler @ cs"
    "MarkedAction restarting_machine = Some ActionRestart \<and> \<not> deleting restarting_machine \<longleftrightarrow>
      (\<exists>u l res. PatchMachine restarting_machine u l res \<in> set cs)" by auto
  moreover have "MarkedAction restarting_machine = Some ActionRestart" "\<not> deleting restarting_machine"
    unfolding restarting_machine_def by simp (simp add: deleting_def example_machine_def)
  ultimately show ?thesis using run by (auto simp: fresh_reconciler_def)
qed

text \<open>C36: Which marks are held and which request is named as waiting does not depend on the order the observations
  are gone through in, and so neither does anything a pass of releases does.\<close>

theorem releaseRestarts_order_irrelevant:
  assumes "mset current = mset current'"
  shows "releaseRestarts E cfg key source machines nodes current asking =
    releaseRestarts E cfg key source machines nodes current' asking"
proof -
  obtain held leftover held' leftover' where h: "holding machines nodes asking current = (held, leftover)"
    "holding machines nodes asking current' = (held', leftover')" by fastforce
  have "set current = set current'" using assms by (rule mset_eq_setD)
  then have "set held = set held'" "map_of leftover = map_of leftover'"
    using holding_sets [OF h(1)] holding_sets [OF h(2)] by auto
  from release_step_cong [OF this] h show ?thesis by (simp add: releaseRestarts_def)
qed

theorem releaseRestarts_order_irrelevant_witness:
  "releaseRestarts quiet_env example_config (''ns'', ''c'') ''NodeCondition'' [(''gpu-w-1'', restarting_machine)] []
     [(''a'', zero_observation), (''b'', zero_observation\<lparr>ob_machine := ''m''\<rparr>)] [] =
   releaseRestarts quiet_env example_config (''ns'', ''c'') ''NodeCondition'' [(''gpu-w-1'', restarting_machine)] []
     [(''b'', zero_observation\<lparr>ob_machine := ''m''\<rparr>), (''a'', zero_observation)] []"
  by (rule releaseRestarts_order_irrelevant) simp

text \<open>C32: A release that follows an answer is tried a bounded number of times, and only ever removes the very mark
  that was answered: the same action, boot and request.\<close>

theorem releaseAnswered_bounded:
  assumes "run_state (releaseAnswered E K cfg m reason) s = (x, s')"
  shows "\<exists>cs. history s' = history s @ cs \<and> patch_count cs \<le> retry_steps K \<and>
    (\<forall>b u l r. PatchMachine b u l r \<in> set cs \<longrightarrow> restartMarkOf b = restartMarkOf m \<and> release_patch b u \<and> l)"
proof -
  let ?P = "\<lambda>c. \<forall>b u l r. c = PatchMachine b u l r \<longrightarrow> restartMarkOf b = restartMarkOf m \<and> release_patch b u \<and> l"
  have "emits ?P (releaseAnswered E K cfg m reason)"
    unfolding releaseAnswered_def by (rule emits_retry_release) (auto simp: release_patch_def)
  from run_emits [OF this assms] obtain cs where "history s' = history s @ cs" "list_all ?P cs" by blast
  moreover obtain ds where "history s' = history s @ ds" "patch_count ds \<le> retry_steps K"
    using retry_release_count assms unfolding releaseAnswered_def by blast
  ultimately show ?thesis by (auto simp: list_all_iff)
qed

theorem releaseAnswered_bounded_witness:
  "\<exists>x s' cs. run_state (releaseAnswered (quiet_env\<lparr>patch_machine := \<lambda>_ _ _ _. Inl (ApiError Conflict ''conflict''),
       get_machine := \<lambda>_ _ _. Inr restarting_machine\<rparr>) plain_kube example_config restarting_machine ''back'') fresh_reconciler = (x, s') \<and>
     history s' = history fresh_reconciler @ cs \<and> patch_count cs \<le> 5"
proof -
  obtain x s' where run: "run_state (releaseAnswered (quiet_env\<lparr>patch_machine := \<lambda>_ _ _ _. Inl (ApiError Conflict ''conflict''),
       get_machine := \<lambda>_ _ _. Inr restarting_machine\<rparr>) plain_kube example_config restarting_machine ''back'') fresh_reconciler = (x, s')"
    by fastforce
  from releaseAnswered_bounded [OF run] obtain cs where
    hist: "history s' = history fresh_reconciler @ cs" and count: "patch_count cs \<le> retry_steps plain_kube" by blast
  from count have "patch_count cs \<le> 5" by simp
  then show ?thesis by (intro exI conjI) (rule run, rule hist)
qed

text \<open>C12: A Machine is released with an answer only after the answer was accepted: whatever patches it comes after
  the patch of the request's status, which succeeded and says that the restart is complete.\<close>

theorem answer_before_release:
  assumes "run_state (answer_request E K cfg cluster machine sig a news) s = (x, s')"
  shows "\<exists>cs. history s' = history s @ cs \<and>
    ((\<exists>b u l r. PatchMachine b u l r \<in> set cs) \<longrightarrow> an_complete a \<and>
      (\<exists>obj now updated rest. cs = [GetRequest (s_request sig) (Inr obj), ReadClock now, PatchRequestStatus obj updated None] @ rest \<and>
         updated = answered_object K obj (answer_condition K obj True (an_reason a) (an_message a) now)))"
proof -
  let ?none = "\<lambda>c. \<forall>b u l r. c \<noteq> PatchMachine b u l r"
  obtain r s1 where ans: "run_state (Answer E K (s_request sig) (an_complete a) (an_reason a) (an_message a)) s = (r, s1)"
    by fastforce
  show ?thesis
  proof (cases "\<not> cf_dry_run cfg \<and> r = Inr True \<and> an_complete a")
    case True
    then have accepted: "run_state (Answer E K (s_request sig) True (an_reason a) (an_message a)) s = (Inr True, s1)"
      using ans by simp
    obtain obj now updated where acc: "updated = answered_object K obj (answer_condition K obj True (an_reason a) (an_message a) now)"
      "history s1 = history s @ [GetRequest (s_request sig) (Inr obj), ReadClock now, PatchRequestStatus obj updated None]"
      using Answer_accepted [OF accepted] by blast
    have run: "run_state (after_answer E K cfg cluster machine sig a) s1 = (x, s')"
      using assms ans True by (simp add: answer_request_def)
    have "emits (\<lambda>_. True) (after_answer E K cfg cluster machine sig a)"
      unfolding after_answer_def by (intro emits_rules emits_releaseAnswered) auto
    from run_emits [OF this run] obtain ds where "history s' = history s1 @ ds" by blast
    with acc True show ?thesis by auto
  next
    case False
    have "\<exists>cs. history s' = history s @ cs \<and> list_all ?none cs"
    proof (cases "cf_dry_run cfg \<or> \<not> an_complete a")
      case True
      then have "emits ?none (answer_request E K cfg cluster machine sig a news)"
        unfolding answer_request_def after_answer_def by (intro emits_rules emits_Answer) auto
      from run_emits [OF this assms] show ?thesis .
    next
      case live: False
      have "emits ?none (Answer E K (s_request sig) (an_complete a) (an_reason a) (an_message a))"
        by (rule emits_Answer) auto
      from run_emits [OF this ans] obtain cs where "history s1 = history s @ cs" "list_all ?none cs" by blast
      then show ?thesis using assms ans live False by (cases r) (auto simp: answer_request_def)
    qed
    then obtain cs where hist: "history s' = history s @ cs" and none: "list_all ?none cs" by blast
    have "\<not> (\<exists>b u l r. PatchMachine b u l r \<in> set cs)" using none unfolding list_all_iff by blast
    with hist show ?thesis by blast
  qed
qed

theorem answer_before_release_witness:
  "\<exists>x s' cs. run_state (answer_request (quiet_env\<lparr>get_request := \<lambda>_ _. Inr example_request\<rparr>) plain_kube example_config
       example_cluster (Some restarting_machine) example_restart_signal (completed_answer example_restart_signal) True) fresh_reconciler = (x, s') \<and>
     history s' = cs \<and> (\<exists>u r. PatchMachine restarting_machine u True r \<in> set cs) \<and> 3 \<le> length cs"
proof -
  let ?E = "quiet_env\<lparr>get_request := \<lambda>_ _. Inr example_request\<rparr>"
  let ?a = "completed_answer example_restart_signal"
  obtain x s' where run: "run_state (answer_request ?E plain_kube example_config example_cluster (Some restarting_machine)
      example_restart_signal ?a True) fresh_reconciler = (x, s')" by fastforce
  have m: "MarkedAction restarting_machine = Some ActionRestart" "\<not> deleting restarting_machine"
    unfolding restarting_machine_def by simp (simp add: deleting_def example_machine_def)
  have released: "\<exists>u r. PatchMachine restarting_machine u True r \<in> set (history s')"
    using run m example_request_pending
    by (simp add: answer_request_def Answer_def after_answer_def releaseAnswered_def release_attempt_def Release_def
        completed_answer_def example_config_def Let_def eval_nat_numeral is_conflict_def split: prod.splits) force
  from answer_before_release [OF run] obtain cs where cs: "history s' = history fresh_reconciler @ cs"
    "(\<exists>b u l r. PatchMachine b u l r \<in> set cs) \<longrightarrow> (\<exists>obj now updated rest.
      cs = [GetRequest (s_request example_restart_signal) (Inr obj), ReadClock now, PatchRequestStatus obj updated None] @ rest)"
    by blast
  then have "3 \<le> length cs" using released by (auto simp: fresh_reconciler_def)
  with cs run released show ?thesis by (auto simp: fresh_reconciler_def)
qed

end
