(* ===== verification/Reconcile.thy ===== *)
theory Reconcile
  imports Restarts
begin

text \<open>
  A reconcile of the cluster controller (\<open>Reconcile\<close> of \<open>internal/controller/cluster_controller.go\<close>), with the
  indexes it builds and the watch it asks for.
\<close>

definition nodesByName :: "env \<Rightarrow> ((call, 'w) world_scheme, go_error + nodes) state" where
  "nodesByName E = do {
     r \<leftarrow> ask ListNodes (list_nodes E);
     State_Monad.return (case r of
         Inl err \<Rightarrow> Inl (Wrapped ''list nodes'' err)
       | Inr items \<Rightarrow> Inr (fold (\<lambda>n byName. AList.update (n_name n) n byName) items []))
   }"

definition index_machines :: "machine list \<Rightarrow> machines" where
  "index_machines items = fold (\<lambda>m byNode. if m_node_ref m \<noteq> [] then AList.update (m_node_ref m) m byNode else byNode) items []"

definition machinesByNode :: "env \<Rightarrow> cluster \<Rightarrow> ((call, 'w) world_scheme, go_error + machines) state" where
  "machinesByNode E cluster = do {
     r \<leftarrow> ask (ListMachines (cluster_key cluster)) (\<lambda>h. list_machines E h (cluster_key cluster));
     State_Monad.return (case r of
         Inl err \<Rightarrow> Inl (Wrapped (''list machines of '' @ c_namespace cluster @ ''/'' @ c_name cluster) err)
       | Inr items \<Rightarrow> Inr (index_machines items))
   }"

section \<open>The watch on requests\<close>

text \<open>Which events of a request wake the reconcile. The object of an event is a request, or something else.\<close>

datatype watch_event =
  CreateEvent "unstructured option"
| UpdateEvent "unstructured option" "unstructured option"
| DeleteEvent
| GenericEvent

definition pending_object :: "kube \<Rightarrow> unstructured option \<Rightarrow> bool" where
  "pending_object K obj = (case obj of None \<Rightarrow> False | Some request \<Rightarrow> Pending K request)"

fun requestBecamePending :: "kube \<Rightarrow> watch_event \<Rightarrow> bool" where
  "requestBecamePending K (CreateEvent obj) = pending_object K obj"
| "requestBecamePending K (UpdateEvent old new) = (\<not> pending_object K old \<and> pending_object K new)"
| "requestBecamePending K DeleteEvent = False"
| "requestBecamePending K GenericEvent = False"

definition watchRequests :: "env \<Rightarrow> config \<Rightarrow> cluster_key \<Rightarrow> ((call, 'w) world_scheme, go_error option) state" where
  "watchRequests E cfg key =
     (if \<not> cf_watcher cfg
      then State_Monad.return (Some (Plain ''the controller was not set up with a manager, so there is nothing to wake''))
      else ask (WatchRequests key) (\<lambda>h. watch E h key))"

section \<open>The loop over the signals\<close>

text \<open>The variables the loop changes: the Machines, the observations of this pass, the requests found pending,
  and whether a request could not be read.\<close>

record pass =
  ps_machines :: machines
  ps_current :: "(string \<times> observation) list"
  ps_asking :: "string list"
  ps_unreadable :: bool

definition conclude ::
  "env \<Rightarrow> kube \<Rightarrow> config \<Rightarrow> cluster \<Rightarrow> mode \<Rightarrow> health_check list \<Rightarrow> nodes \<Rightarrow> (string \<times> observation) list \<Rightarrow>
   signal \<Rightarrow> pass \<Rightarrow> (reconciler, pass) state" where
  "conclude E K cfg cluster mode checks nodes previous sig ps = do {
     (obs, machine) \<leftarrow> handle E K cfg cluster mode checks sig (map_of (ps_machines ps) (s_node sig))
       (map_of nodes (s_node sig)) (observed previous (Key sig));
     machine \<leftarrow> (if given (ob_answer obs)
       then answer_request E K cfg cluster machine sig (ob_answer obs) (obs \<noteq> observed previous (Key sig))
       else State_Monad.return machine);
     State_Monad.return (ps\<lparr>
       ps_machines := (case machine of None \<Rightarrow> ps_machines ps | Some m \<Rightarrow> AList.update (s_node sig) m (ps_machines ps)),
       ps_current := AList.update (Key sig) obs (ps_current ps)\<rparr>)
   }"

definition handle_signal ::
  "env \<Rightarrow> kube \<Rightarrow> config \<Rightarrow> cluster \<Rightarrow> mode \<Rightarrow> health_check list \<Rightarrow> nodes \<Rightarrow> (string \<times> observation) list \<Rightarrow>
   signal \<Rightarrow> pass \<Rightarrow> (reconciler, pass) state" where
  "handle_signal E K cfg cluster mode checks nodes previous sig ps =
     (if s_request sig = [] then conclude E K cfg cluster mode checks nodes previous sig ps
      else do {
        r \<leftarrow> IsPending E K (s_request sig);
        (case r of
           Inl err \<Rightarrow> do {
             log_line Info ''reading the request failed, will retry'';
             State_Monad.return (ps\<lparr>ps_unreadable := True,
               ps_current := (case map_of previous (Key sig) of
                   None \<Rightarrow> ps_current ps
                 | Some prev \<Rightarrow> AList.update (Key sig) prev (ps_current ps))\<rparr>)
           }
         | Inr pending \<Rightarrow>
             if \<not> pending then State_Monad.return ps
             else conclude E K cfg cluster mode checks nodes previous sig
               (ps\<lparr>ps_asking := append_new (s_request sig) (ps_asking ps)\<rparr>))
      })"

text \<open>The part of a reconcile that starts once everything is read.\<close>

definition act ::
  "env \<Rightarrow> kube \<Rightarrow> config \<Rightarrow> cluster_key \<Rightarrow> cluster \<Rightarrow> mode \<Rightarrow> signal list \<Rightarrow> machines \<Rightarrow> health_check list \<Rightarrow> nodes \<Rightarrow>
   (reconciler, int) state" where
  "act E K cfg key cluster mode signals machines checks nodes = do {
     previous \<leftarrow> observations key;
     ps \<leftarrow> loop (handle_signal E K cfg cluster mode checks nodes previous) signals
       \<lparr>ps_machines = machines, ps_current = [], ps_asking = [], ps_unreadable = False\<rparr>;
     machines \<leftarrow> (if \<not> ps_unreadable ps
       then releaseRestarts E cfg key (source_Name mode) (ps_machines ps) nodes (ps_current ps) (ps_asking ps)
       else State_Monad.return (ps_machines ps));
     remember key previous (ps_current ps);
     forgetWaits K key machines;
     nextLook E cfg key
   }"

section \<open>A reconcile\<close>

text \<open>The reads of the workload cluster and of the Machines, one after another. The result is the delay to the
  next reconcile, \<open>0\<close> for none, or the error.\<close>

definition read_and_act ::
  "env \<Rightarrow> kube \<Rightarrow> config \<Rightarrow> cluster_key \<Rightarrow> cluster \<Rightarrow> mode \<Rightarrow> (reconciler, go_error + int) state" where
  "read_and_act E K cfg key cluster mode = do {
     sigs \<leftarrow> source_Collect E K mode;
     (case sigs of
        Inl err \<Rightarrow> do {
          log_line Info ''collecting signals failed, will retry'';
          State_Monad.return (Inr (pollInterval cfg))
        }
      | Inr signals \<Rightarrow> do {
          ms \<leftarrow> machinesByNode E cluster;
          (case ms of
             Inl err \<Rightarrow> State_Monad.return (Inl err)
           | Inr machines \<Rightarrow> do {
               cs \<leftarrow> (if signals \<noteq> [] then ListHealthChecks E cluster else State_Monad.return (Inr []));
               (case cs of
                  Inl err \<Rightarrow> State_Monad.return (Inl err)
                | Inr checks \<Rightarrow> do {
                    ns \<leftarrow> (if signals \<noteq> [] then nodesByName E else State_Monad.return (Inr []));
                    (case ns of
                       Inl err \<Rightarrow> do {
                         log_line Info ''reading nodes failed, will retry'';
                         State_Monad.return (Inr (pollInterval cfg))
                       }
                     | Inr nodes \<Rightarrow> do {
                         live \<leftarrow> (if mode = ModeExternalRemediationRequest \<and> signals \<noteq> []
                           then ask (ConnectUncached key) (\<lambda>h. connect_uncached E h key) else State_Monad.return None);
                         (case live of
                            Some err \<Rightarrow> do {
                              log_line Info ''reaching the workload cluster failed, will retry'';
                              State_Monad.return (Inr (pollInterval cfg))
                            }
                          | None \<Rightarrow> do {
                              next \<leftarrow> act E K cfg key cluster mode signals machines checks nodes;
                              State_Monad.return (Inr next)
                            })
                       })
                  })
             })
        })
   }"

definition reconcile_cluster ::
  "env \<Rightarrow> kube \<Rightarrow> config \<Rightarrow> cluster_key \<Rightarrow> cluster \<Rightarrow> (reconciler, go_error + int) state" where
  "reconcile_cluster E K cfg key cluster = do {
     conn \<leftarrow> ask (ConnectWorkload key) (\<lambda>h. connect_workload E h key);
     (case conn of
        Some err \<Rightarrow>
          if kind_of err = NotConnected then do {
            log_line Debug ''workload cluster is not connected, waiting'';
            forgetWaits K key [];
            State_Monad.return (Inr (pollInterval cfg))
          }
          else State_Monad.return (Inl (Wrapped (''workload client for '' @ fst key @ ''/'' @ snd key) err))
      | None \<Rightarrow> do {
          m \<leftarrow> selectMode E;
          (case m of
             Inl err \<Rightarrow> do {
               log_line Info ''selecting the signal source failed, will retry'';
               State_Monad.return (Inr (pollInterval cfg))
             }
           | Inr mode \<Rightarrow> do {
               noteMode cfg cluster mode;
               w \<leftarrow> (if mode = ModeExternalRemediationRequest then watchRequests E cfg key else State_Monad.return None);
               (if w \<noteq> None then log_line Info ''watching the requests failed, they are read at every poll only''
                else State_Monad.return ());
               read_and_act E K cfg key cluster mode
             })
        })
   }"

definition Reconcile :: "env \<Rightarrow> kube \<Rightarrow> config \<Rightarrow> cluster_key \<Rightarrow> (reconciler, go_error + int) state" where
  "Reconcile E K cfg key = do {
     r \<leftarrow> ask (GetCluster key) (\<lambda>h. get_cluster E h key);
     (case r of
        Inl err \<Rightarrow>
          if kind_of err = NotFound then do {
            forget key;
            State_Monad.return (Inr 0)
          }
          else State_Monad.return (Inl err)
      | Inr cluster \<Rightarrow>
          if c_deletion_timestamp cluster \<noteq> None then do {
            forget key;
            State_Monad.return (Inr 0)
          }
          else if (case cf_selector cfg of None \<Rightarrow> False | Some matches \<Rightarrow> \<not> matches (c_labels cluster)) then do {
            forget key;
            State_Monad.return (Inr 0)
          }
          else if is_paused_cluster K cluster then do {
            log_line Debug ''Cluster is paused, not collecting signals'';
            forgetWaits K key [];
            State_Monad.return (Inr (pollInterval cfg))
          }
          else reconcile_cluster E K cfg key cluster)
   }"

section \<open>What a reconcile may do\<close>

text \<open>When a Machine may be marked: for a restart when that is decided and only templates would answer the mark,
  for a replacement when some check would answer it, and that is decided or the fallback of a restart.\<close>

definition may_replace :: "kube \<Rightarrow> config \<Rightarrow> cluster \<Rightarrow> health_check list \<Rightarrow> decision \<Rightarrow> machine \<Rightarrow> bool" where
  "may_replace K cfg cluster checks d m \<longleftrightarrow> d = Replace \<or> (d = Restart \<and>
     fst (restartFallback K cfg cluster) = RestartFallbackReplace \<and> \<not> TemplatesOnly (CoverageOf K checks m))"

definition may_mark :: "kube \<Rightarrow> config \<Rightarrow> cluster \<Rightarrow> health_check list \<Rightarrow> decision \<Rightarrow> machine \<Rightarrow> string \<Rightarrow> bool" where
  "may_mark K cfg cluster checks d m action \<longleftrightarrow>
     (action = ActionRestart \<and> d = Restart \<and> TemplatesOnly (CoverageOf K checks m)) \<or>
     (action = ActionRemediate \<and> Covered (CoverageOf K checks m) \<and> may_replace K cfg cluster checks d m)"

text \<open>The patches a decided signal may lead to: a mark, of the Machine as it was read or as the API server
  returned it from an escalation, and an escalation.\<close>

definition signal_mark ::
  "env \<Rightarrow> kube \<Rightarrow> config \<Rightarrow> cluster \<Rightarrow> health_check list \<Rightarrow> decision \<Rightarrow> machine \<Rightarrow> machine \<Rightarrow> bool" where
  "signal_mark E K cfg cluster checks d b u \<longleftrightarrow> Guard b = NoSkip \<and> (\<exists>m action reason record.
     u = b\<lparr>m_annotations := marked_annotations (m_annotations b) action reason record\<rparr> \<and>
     (b = m \<or> (\<exists>h v. patch_machine E h m v True = Inr b \<and> escalate_patch m v)) \<and>
     may_mark K cfg cluster checks d m action)"

definition signal_escalation ::
  "kube \<Rightarrow> config \<Rightarrow> cluster \<Rightarrow> health_check list \<Rightarrow> decision \<Rightarrow> machine \<Rightarrow> machine \<Rightarrow> bool" where
  "signal_escalation K cfg cluster checks d b u \<longleftrightarrow> escalate_patch b u \<and> may_replace K cfg cluster checks d b \<and>
     (d = Replace \<or> \<not> (IsPaused b \<or> IsOptedOut b))"

text \<open>The calls that acting on signals may make. Reads are not told apart, but for those of the other controller,
  which it never makes.\<close>

fun permitted ::
  "env \<Rightarrow> kube \<Rightarrow> config \<Rightarrow> cluster \<Rightarrow> mode \<Rightarrow> health_check list \<Rightarrow> signal list \<Rightarrow> call \<Rightarrow> bool" where
  "permitted E K cfg cluster mode checks signals (PatchMachine b u lock _) =
     (\<not> cf_dry_run cfg \<and>
      ((lock \<and> release_patch b u \<and> MarkedAction b = Some ActionRestart) \<or>
       (\<exists>sig \<in> set signals. let d = o_decision (decide_in mode (cf_table cfg) sig) in
          (\<not> lock \<and> signal_mark E K cfg cluster checks d b u) \<or> (lock \<and> signal_escalation K cfg cluster checks d b u))))"
| "permitted E K cfg cluster mode checks signals (PatchRequestStatus obj updated _) =
     (\<not> cf_dry_run cfg \<and> Pending K obj \<and> (\<exists>complete reason message now.
        updated = answered_object K obj (answer_condition K obj complete reason message now)))"
| "permitted E K cfg cluster mode checks signals (EmitEvent _ _ _ _ nt) =
     (\<not> cf_dry_run cfg \<and> length nt \<le> EventNoteLimit)"
| "permitted E K cfg cluster mode checks signals (DeleteMachine _ _) = False"
| "permitted E K cfg cluster mode checks signals (CreateRule _ _) = False"
| "permitted E K cfg cluster mode checks signals (GetRule _ _ _) = False"
| "permitted E K cfg cluster mode checks signals (ListRules _ _ _) = False"
| "permitted E K cfg cluster mode checks signals (LookUpManagement _ _ _) = False"
| "permitted E K cfg cluster mode checks signals (GetObject _ _ _ _ _) = False"
| "permitted E K cfg cluster mode checks signals (ListPods _ _ _) = False"
| "permitted E K cfg cluster mode checks signals (GetClaim _ _ _) = False"
| "permitted E K cfg cluster mode checks signals _ = True"

lemma release_patchI:
  "MarkedAction b \<noteq> None \<Longrightarrow> \<not> deleting b \<Longrightarrow> release_patch b (b\<lparr>m_annotations := released_annotations (m_annotations b)\<rparr>)"
  by (simp add: release_patch_def)

lemma plan_may_mark:
  assumes "p = plan_of K cfg cluster checks outcome m" and "o_decision outcome = Replace \<or> o_decision outcome = Restart"
    and "if pl_restart p then \<not> pl_unavailable p else Covered (pl_coverage p)"
  shows "may_mark K cfg cluster checks (o_decision outcome) m (pl_action p)"
  using assms plan_restart plan_replace
  by (cases "pl_restart p") (auto simp: may_mark_def may_replace_def)

lemma permitted_handle:
  assumes "sig \<in> set signals"
  shows "emits (permitted E K cfg cluster mode checks signals) (handle E K cfg cluster mode checks sig machine node previous)"
proof -
  let ?outcome = "decide_in mode (cf_table cfg) sig"
  have "emits (permitted E K cfg cluster mode checks signals) (remediate E K cfg cluster checks sig ?outcome m node obs previous)"
    if d: "o_decision ?outcome = Replace \<or> o_decision ?outcome = Restart" for m obs
  proof (rule emits_remediate)
    fix r reason
    let ?u = "m\<lparr>m_annotations := escalated_annotations (m_annotations m) reason\<rparr>"
    assume "\<not> cf_dry_run cfg" and "MarkedAction m = Some ActionRestart" and "\<not> deleting m"
      and "\<not> pl_restart (plan_of K cfg cluster checks ?outcome m)"
      and "o_decision ?outcome = Replace \<or> \<not> (IsPaused m \<or> IsOptedOut m)"
    moreover from this have "signal_escalation K cfg cluster checks (o_decision ?outcome) m ?u"
      using plan_replace d by (auto simp: signal_escalation_def may_replace_def escalate_patch_def)
    ultimately show "permitted E K cfg cluster mode checks signals (PatchMachine m ?u True r)"
      using assms by (auto simp: Let_def)
  next
    fix m' :: machine and reason :: string and rec :: restart_record and r and p :: plan
    let ?u = "m'\<lparr>m_annotations := marked_annotations (m_annotations m') (pl_action p) reason rec\<rparr>"
    assume "\<not> cf_dry_run cfg" and "Guard m' = NoSkip" and p: "p = plan_of K cfg cluster checks ?outcome m"
      and "m' = m \<or> (\<exists>h u. patch_machine E h m u True = Inr m' \<and> escalate_patch m u)"
      and "if pl_restart p then \<not> pl_unavailable p else Covered (pl_coverage p)"
    moreover from this have "signal_mark E K cfg cluster checks (o_decision ?outcome) m' ?u"
      using plan_may_mark [OF p d] unfolding signal_mark_def by blast
    ultimately show "permitted E K cfg cluster mode checks signals (PatchMachine m' ?u False r)"
      using assms by (auto simp: Let_def)
  qed simp_all
  then show ?thesis
    unfolding handle_def Let_def by (intro emits_rules emits_report) (auto simp: Let_def)
qed

lemma permitted_conclude:
  assumes "sig \<in> set signals"
  shows "emits (permitted E K cfg cluster mode checks signals) (conclude E K cfg cluster mode checks nodes previous sig ps)"
  unfolding conclude_def
proof (rule emits_bind_run [OF permitted_handle [OF assms]])
  fix a s s'
  assume run: "run_state (handle E K cfg cluster mode checks sig (map_of (ps_machines ps) (s_node sig))
    (map_of nodes (s_node sig)) (observed previous (Key sig))) s = (a, s')"
  obtain obs machine where a: "a = (obs, machine)" by fastforce
  have marked: "MarkedAction m = Some ActionRestart" if "an_complete (ob_answer obs)" and "machine = Some m" for m
    using handle_answer [OF run [unfolded a]] that RestartCompleted_marked
    by (auto simp: no_completion_def restart_over_def)
  show "emits (permitted E K cfg cluster mode checks signals) (case a of (obs, machine) \<Rightarrow> do {
     machine \<leftarrow> (if given (ob_answer obs)
       then answer_request E K cfg cluster machine sig (ob_answer obs) (obs \<noteq> observed previous (Key sig))
       else State_Monad.return machine);
     State_Monad.return (ps\<lparr>
       ps_machines := (case machine of None \<Rightarrow> ps_machines ps | Some m \<Rightarrow> AList.update (s_node sig) m (ps_machines ps)),
       ps_current := AList.update (Key sig) obs (ps_current ps)\<rparr>)
   })"
    unfolding a prod.case
    by (intro emits_rules emits_answer_request) (auto simp: release_patchI marked)
qed

lemma permitted_handle_signal:
  assumes "sig \<in> set signals"
  shows "emits (permitted E K cfg cluster mode checks signals)
    (handle_signal E K cfg cluster mode checks nodes previous sig ps)"
  unfolding handle_signal_def by (intro emits_rules permitted_conclude [OF assms]) auto

lemma permitted_act:
  "emits (permitted E K cfg cluster mode checks signals) (act E K cfg key cluster mode signals machines checks nodes)"
  unfolding act_def observations_def forgetWaits_def nextLook_def Let_def
  by (intro emits_rules emits_remember permitted_handle_signal emits_releaseRestarts) (auto simp: release_patchI)

text \<open>What any reconcile of the cluster controller may do, whatever it reads.\<close>

fun cautious :: "kube \<Rightarrow> bool \<Rightarrow> call \<Rightarrow> bool" where
  "cautious K dryRun (PatchMachine b u lock _) =
     (\<not> dryRun \<and> ((\<not> lock \<and> mark_patch b u) \<or>
       (lock \<and> MarkedAction b = Some ActionRestart \<and> (release_patch b u \<or> escalate_patch b u))))"
| "cautious K dryRun (PatchRequestStatus obj updated _) =
     (\<not> dryRun \<and> Pending K obj \<and> (\<exists>complete reason message now.
        updated = answered_object K obj (answer_condition K obj complete reason message now)))"
| "cautious K dryRun (EmitEvent _ _ _ _ nt) = (\<not> dryRun \<and> length nt \<le> EventNoteLimit)"
| "cautious K dryRun (DeleteMachine _ _) = False"
| "cautious K dryRun (CreateRule _ _) = False"
| "cautious K dryRun _ = True"

lemma permitted_cautious: "permitted E K cfg cluster mode checks signals c \<Longrightarrow> cautious K (cf_dry_run cfg) c"
  by (cases c) (auto simp: signal_mark_def signal_escalation_def mark_patch_def escalate_patch_def Let_def)

lemma emits_act: "emits (cautious K (cf_dry_run cfg)) (act E K cfg key cluster mode signals machines checks nodes)"
  by (rule emits_mono [OF permitted_act permitted_cautious])

lemma emits_machinesByNode: "(\<And>k r. P (ListMachines k r)) \<Longrightarrow> emits P (machinesByNode E cluster)"
  unfolding machinesByNode_def by (intro emits_rules)

lemma emits_nodesByName: "(\<And>r. P (ListNodes r)) \<Longrightarrow> emits P (nodesByName E)"
  unfolding nodesByName_def by (intro emits_rules)

lemma emits_watchRequests: "(\<And>k r. P (WatchRequests k r)) \<Longrightarrow> emits P (watchRequests E cfg key)"
  unfolding watchRequests_def by (intro emits_rules)

lemma emits_read_and_act: "emits (cautious K (cf_dry_run cfg)) (read_and_act E K cfg key cluster mode)"
  unfolding read_and_act_def
  by (intro emits_rules emits_act emits_machinesByNode emits_nodesByName) auto

lemma emits_reconcile_cluster: "emits (cautious K (cf_dry_run cfg)) (reconcile_cluster E K cfg key cluster)"
  unfolding reconcile_cluster_def forgetWaits_def Let_def
  by (intro emits_rules emits_noteMode emits_watchRequests emits_read_and_act) auto

lemma emits_Reconcile: "emits (cautious K (cf_dry_run cfg)) (Reconcile E K cfg key)"
  unfolding Reconcile_def forget_def forgetWaits_def Let_def
  by (intro emits_rules emits_reconcile_cluster) auto

lemma cautious_dry_run: "cautious K True c \<Longrightarrow> \<not> is_write c"
  by (cases c) auto

lemma Reconcile_cautious_calls: "list_all (cautious K (cf_dry_run cfg)) (new_calls (Reconcile E K cfg key) s)"
  by (rule emits_new_calls [OF emits_Reconcile])

text \<open>An escalation that fails concludes nothing.\<close>

lemma handle_failed_escalation:
  assumes "\<not> cf_dry_run cfg" and "s_request sig = []"
    and "o_decision (decide_in mode (cf_table cfg) sig) = Replace"
    and "MarkedAction m = Some ActionRestart" and "\<not> deleting m"
    and "\<forall>h u. escalate_patch m u \<longrightarrow> (\<exists>e. patch_machine E h m u True = Inl e)"
  shows "\<exists>s1. run_state (handle E K cfg cluster mode checks sig (Some m) node previous) s = ((zero_observation, Some m), s1) \<and>
    (\<exists>cs. history s1 = history s @ cs)"
proof -
  have "\<not> pl_restart (plan_of K cfg cluster checks (decide_in mode (cf_table cfg) sig) m)"
    using plan_restart assms(3) by fastforce
  moreover have "\<exists>e s1. run_state (Escalate E (cf_dry_run cfg) m reason) s = ((Inl e, m), s1) \<and> (\<exists>cs. history s1 = history s @ cs)" for reason
  proof -
    let ?u = "m\<lparr>m_annotations := escalated_annotations (m_annotations m) reason\<rparr>"
    have "escalate_patch m ?u" using assms(4,5) by (auto simp: escalate_patch_def)
    then obtain e where "patch_machine E (history s) m ?u True = Inl e" using assms(6) by blast
    then show ?thesis using assms(1,4,5) by (simp add: Escalate_def)
  qed
  then obtain e s1 where "run_state (Escalate E (cf_dry_run cfg) m (because sig (o_reason (pl_outcome
      (plan_of K cfg cluster checks (decide_in mode (cf_table cfg) sig) m))))) s = ((Inl e, m), s1)"
    "\<exists>cs. history s1 = history s @ cs" by blast
  ultimately show ?thesis using assms(2,3)
    by (auto simp: handle_def remediate_def Let_def split: prod.splits)
qed

text \<open>A pass whose Machine's restart is over.\<close>

definition example_pass :: pass where
  "example_pass = \<lparr>ps_machines = [(''gpu-w-1'', restarting_machine)], ps_current = [], ps_asking = [], ps_unreadable = False\<rparr>"

lemma example_conclude:
  "\<exists>obj updated r. PatchRequestStatus obj updated r \<in> set (new_calls
      (conclude (quiet_env\<lparr>get_request := \<lambda>_ _. Inr example_request\<rparr>) plain_kube example_config example_cluster
        ModeExternalRemediationRequest [] [(''gpu-w-1'', back_node)] [] example_restart_signal example_pass) fresh_reconciler) \<and>
    ConditionStatus plain_kube updated ConditionComplete = ''True''"
proof -
  let ?E = "quiet_env\<lparr>get_request := \<lambda>_ _. Inr example_request\<rparr>"
  obtain obs s1 where h: "run_state (handle ?E plain_kube example_config example_cluster ModeExternalRemediationRequest []
      example_restart_signal (Some restarting_machine) (Some back_node) (observed [] (Key example_restart_signal))) fresh_reconciler =
      ((obs, Some restarting_machine), s1)" and a: "ob_answer obs = completed_answer example_restart_signal"
    using handle_restart_over [OF example_restart_over decide_example] by blast
  have "emits (\<lambda>_. True) (handle ?E plain_kube example_config example_cluster ModeExternalRemediationRequest []
      example_restart_signal (Some restarting_machine) (Some back_node) (observed [] (Key example_restart_signal)))"
    by (intro emits_handle emits_remediate) auto
  from run_emits [OF this h] obtain cs where cs: "history s1 = history fresh_reconciler @ cs" by blast
  let ?n = "observed [] (Key example_restart_signal)"
  obtain mo s2 where ans: "run_state (answer_request ?E plain_kube example_config example_cluster (Some restarting_machine)
      example_restart_signal (completed_answer example_restart_signal) (obs \<noteq> ?n)) s1 = (mo, s2)" by fastforce
  let ?msg = "an_message (completed_answer example_restart_signal)"
  obtain sA where A: "run_state (Answer ?E plain_kube (s_request example_restart_signal) True AnswerRestarted ?msg) s1 = (Inr True, sA)"
    using example_request_pending by (simp add: Answer_def Let_def)
  from Answer_accepted [OF A] obtain obj now updated where acc: "Pending plain_kube obj"
    "updated = answered_object plain_kube obj (answer_condition plain_kube obj True AnswerRestarted ?msg now)"
    "history sA = history s1 @ [GetRequest (s_request example_restart_signal) (Inr obj), ReadClock now,
      PatchRequestStatus obj updated None]" by blast
  have after: "run_state (after_answer ?E plain_kube example_config example_cluster (Some restarting_machine)
      example_restart_signal (completed_answer example_restart_signal)) sA = (mo, s2)"
    using ans A by (simp add: answer_request_def completed_answer_def example_config_def)
  have "emits (\<lambda>_. True) (after_answer ?E plain_kube example_config example_cluster (Some restarting_machine)
      example_restart_signal (completed_answer example_restart_signal))"
    unfolding after_answer_def by (intro emits_rules emits_releaseAnswered) auto
  from run_emits [OF this after] obtain ds where "history s2 = history sA @ ds" by blast
  moreover have "given (completed_answer example_restart_signal)"
    by (simp add: completed_answer_def given_def AnswerRestarted_def)
  then have "new_calls (conclude ?E plain_kube example_config example_cluster ModeExternalRemediationRequest []
      [(''gpu-w-1'', back_node)] [] example_restart_signal example_pass) fresh_reconciler =
      drop (length (history fresh_reconciler)) (history s2)"
    using h a ans
    by (simp add: new_calls_def conclude_def example_pass_def) (simp add: example_restart_signal_def)
  ultimately have "PatchRequestStatus obj updated None \<in> set (new_calls
      (conclude ?E plain_kube example_config example_cluster ModeExternalRemediationRequest []
        [(''gpu-w-1'', back_node)] [] example_restart_signal example_pass) fresh_reconciler)"
    using cs acc(3) by simp
  moreover have "ConditionStatus plain_kube updated ConditionComplete = ''True''"
    unfolding acc(2) using answered_object_status(1) [OF plain_kube_slices acc(1)] by simp
  ultimately show ?thesis by blast
qed

text \<open>What follows the loop over the signals only adds to the history, and releases what the loop left unheld; it marks nothing.\<close>

definition marks_machine :: "call \<Rightarrow> bool" where
  "marks_machine c \<longleftrightarrow> (\<exists>b u r. c = PatchMachine b u False r)"

lemma act_extends:
  assumes "run_state (loop (handle_signal E K cfg cluster mode checks nodes (remembered (seen s) key)) signals
      \<lparr>ps_machines = machines, ps_current = [], ps_asking = [], ps_unreadable = False\<rparr>) s = (ps, s1)"
  shows "\<exists>cs. history (snd (run_state (act E K cfg key cluster mode signals machines checks nodes) s)) = history s1 @ cs \<and>
    list_all (\<lambda>c. \<not> marks_machine c) cs"
proof -
  let ?rest = "do {
     machines \<leftarrow> (if \<not> ps_unreadable ps
       then releaseRestarts E cfg key (source_Name mode) (ps_machines ps) nodes (ps_current ps) (ps_asking ps)
       else State_Monad.return (ps_machines ps));
     remember key (remembered (seen s) key) (ps_current ps);
     forgetWaits K key machines;
     nextLook E cfg key
   }"
  have "emits (\<lambda>c. \<not> marks_machine c) ?rest"
    unfolding forgetWaits_def nextLook_def Let_def by (intro emits_rules emits_remember emits_releaseRestarts) (auto simp: marks_machine_def)
  moreover have "run_state (act E K cfg key cluster mode signals machines checks nodes) s = run_state ?rest s1"
    using assms by (simp add: act_def observations_def)
  ultimately show ?thesis unfolding emits_def by (metis (no_types, lifting))
qed

lemma act_releases:
  assumes "\<not> cf_dry_run cfg"
    and loop: "run_state (loop (handle_signal E K cfg cluster mode checks nodes (remembered (seen s) key)) signals
      \<lparr>ps_machines = machines, ps_current = [], ps_asking = [], ps_unreadable = False\<rparr>) s = (ps, s1)"
    and "\<not> ps_unreadable ps" and "\<exists>cs. history s1 = history s @ cs" and "distinct (map fst (ps_machines ps))"
    and "(node, m) \<in> set (ps_machines ps)"
    and "releasable (held_by (ps_machines ps) nodes (ps_asking ps) (snd ` set (ps_current ps))) m"
  shows "\<exists>r. PatchMachine m (m\<lparr>m_annotations := released_annotations (m_annotations m)\<rparr>) True r
    \<in> set (new_calls (act E K cfg key cluster mode signals machines checks nodes) s)"
proof -
  obtain held leftover where h: "holding (ps_machines ps) nodes (ps_asking ps) (ps_current ps) = (held, leftover)" by fastforce
  let ?loop = "loop (release_step E cfg key (source_Name mode) held leftover) (sort (map fst (ps_machines ps))) (ps_machines ps, [])"
  obtain machines' would s2 where rel: "run_state ?loop s1 = ((machines', would), s2)" by (metis prod.exhaust)
  obtain r where there: "PatchMachine m (m\<lparr>m_annotations := released_annotations (m_annotations m)\<rparr>) True r
      \<in> set (drop (length (history s1)) (history s2))"
    using release_loop_complete [OF assms(1) _ _ _ _ rel, of node m] assms(5-7) holding_sets(1) [OF h]
    by (force intro: rev_image_eqI)
  have "set (drop (length (history s1)) (history s2)) \<subseteq> set (drop (length (history s)) (history s2))"
    using assms(4) by (intro set_drop_subset_set_drop) auto
  with there have released: "PatchMachine m (m\<lparr>m_annotations := released_annotations (m_annotations m)\<rparr>) True r
      \<in> set (drop (length (history s)) (history s2))" by blast
  let ?rest = "do {
      rememberWouldRelease key would;
      remember key (remembered (seen s) key) (ps_current ps);
      forgetWaits K key machines';
      nextLook E cfg key
    }"
  have "emits (\<lambda>_. True) ?rest"
    unfolding rememberWouldRelease_def forgetWaits_def nextLook_def Let_def by (intro emits_rules emits_remember) auto
  then obtain cs where "history (snd (run_state ?rest s2)) = history s2 @ cs"
    unfolding emits_def by blast
  moreover have "run_state (act E K cfg key cluster mode signals machines checks nodes) s = run_state ?rest s2"
    using loop h rel assms(3) by (simp add: act_def observations_def releaseRestarts_def split: prod.splits)
  ultimately have "new_calls (act E K cfg key cluster mode signals machines checks nodes) s =
      drop (length (history s)) (history s2 @ cs)" by (simp add: new_calls_def)
  with released show ?thesis by auto
qed

definition replace_signal :: signal where
  "replace_signal = \<lparr>s_origin = OriginNodeCondition, s_node = ''gpu-w-1'', s_check = ''GpuXidError'', s_id = [],
     s_actions = [ActionReplaceVM], s_error_codes = [], s_gpu_uuids = [], s_truncated = False, s_request = []\<rparr>"

lemma decide_replace_signal [simp]: "o_decision (decide_in ModeNodeCondition (cf_table example_config) replace_signal) = Replace"
  by (simp add: decide_in_def example_config_def reportOnly_def Decide_def replace_signal_def decide_step_def
      Lookup_def Default_def defaults_def action_defs MoreDisruptiveThan_def zero_outcome_def Let_def)

lemma restarting_machine_marked [simp]: "MarkedAction restarting_machine = Some ActionRestart" "\<not> deleting restarting_machine"
  unfolding restarting_machine_def by simp (simp add: deleting_def example_machine_def)

lemma example_config_live [simp]: "\<not> cf_dry_run example_config"
  by (simp add: example_config_def)

lemma example_act_release:
  "\<exists>r. PatchMachine restarting_machine (restarting_machine\<lparr>m_annotations :=
      released_annotations (m_annotations restarting_machine)\<rparr>) True r
    \<in> set (new_calls (act E plain_kube example_config key example_cluster mode [] [(''gpu-w-1'', restarting_machine)] [] []) s)"
  by (rule act_releases) (auto simp: releasable_def held_by_def)

lemma example_act_mark:
  "\<exists>u r. PatchMachine labelled_machine u False r \<in> set (new_calls (act quiet_env plain_kube example_config (''ns'', ''c'')
      example_cluster ModeNodeCondition [replace_signal] [(''gpu-w-1'', labelled_machine)] [example_check] []) fresh_reconciler)"
proof -
  let ?handle = "handle quiet_env plain_kube example_config example_cluster ModeNodeCondition [example_check] replace_signal
      (Some labelled_machine) None (observed [] (Key replace_signal))"
  obtain obs machine' s1 where h: "run_state ?handle fresh_reconciler = ((obs, machine'), s1)" by (metis prod.exhaust)
  have req: "s_request replace_signal = []" "s_node replace_signal = ''gpu-w-1''" by (simp_all add: replace_signal_def)
  have cov: "Covered (CoverageOf plain_kube [example_check] labelled_machine)"
    by (rule TemplatesOnly_Covered) (rule labelled_machine_covered)
  obtain u r cs where hist: "history s1 = history fresh_reconciler @ PatchMachine labelled_machine u False r # cs"
    using handle_marks_run [OF example_config_live labelled_machine_covered(2) _ _ decide_replace_signal h] req cov by auto
  have "\<not> given (ob_answer obs)"
    using handle_answer [OF h] req by (auto simp: no_completion_def restart_over_def)
  then have "\<exists>ps. run_state (loop (handle_signal quiet_env plain_kube example_config example_cluster ModeNodeCondition [example_check] []
      (remembered (seen fresh_reconciler) (''ns'', ''c''))) [replace_signal]
      \<lparr>ps_machines = [(''gpu-w-1'', labelled_machine)], ps_current = [], ps_asking = [], ps_unreadable = False\<rparr>) fresh_reconciler = (ps, s1)"
    using h req by (simp add: handle_signal_def conclude_def remembered_def fresh_reconciler_def)
  then obtain ds where "history (snd (run_state (act quiet_env plain_kube example_config (''ns'', ''c'') example_cluster ModeNodeCondition
      [replace_signal] [(''gpu-w-1'', labelled_machine)] [example_check] []) fresh_reconciler)) = history s1 @ ds"
    using act_extends by blast
  with hist show ?thesis by (auto simp: new_calls_def)
qed

lemma yields_act: "yields (\<lambda>d. 0 < d \<and> d \<le> pollInterval cfg) (act E K cfg key cluster mode signals machines checks nodes)"
proof -
  have "yields (\<lambda>d. 0 < d \<and> d \<le> pollInterval cfg) (nextLook E cfg key)"
    unfolding nextLook_def by (intro yields_rules soonest_bounds pollInterval_pos)
  then show ?thesis unfolding act_def by (intro yields_rules)
qed

lemma yields_reconcile_cluster:
  "yields (\<lambda>r. case r of Inl _ \<Rightarrow> True | Inr d \<Rightarrow> 0 < d \<and> d \<le> pollInterval cfg) (reconcile_cluster E K cfg key cluster)"
  unfolding reconcile_cluster_def read_and_act_def
  by (intro yields_rules yields_bind_run) (auto dest: yieldsD [OF yields_act])

definition example_env :: env where
  "example_env = quiet_env\<lparr>get_cluster := \<lambda>_ _. Inr example_cluster, list_machines := \<lambda>_ _. Inr [restarting_machine],
     look_up_workload := \<lambda>_ _ _. Some (ApiError NoMatch ''no match'')\<rparr>"

lemma example_Reconcile:
  "\<exists>u lock r. PatchMachine restarting_machine u lock r \<in> set (new_calls (Reconcile example_env plain_kube example_config key) fresh_reconciler)"
proof -
  let ?act = "act example_env plain_kube example_config key example_cluster ModeNodeCondition [] [(''gpu-w-1'', restarting_machine)] [] []"
  have index: "index_machines [restarting_machine] = [(''gpu-w-1'', restarting_machine)]"
    unfolding index_machines_def restarting_machine_def by simp (simp add: example_machine_def)
  have cluster: "c_deletion_timestamp example_cluster = None" "c_spec_paused example_cluster = None"
    by (simp_all add: example_cluster_def)
  have env: "get_cluster example_env h k = Inr example_cluster" "list_machines example_env h k = Inr [restarting_machine]"
    "look_up_workload example_env h gk v = Some (ApiError NoMatch ''no match'')" "connect_workload example_env h k = None"
    "list_nodes example_env h = Inr []" "cf_selector example_config = None" for h k gk v
    by (simp_all add: example_env_def example_config_def)
  have last: "history (snd (case p of (a, x) \<Rightarrow> (Inr a :: go_error + int, x))) = history (snd p)" for p :: "int \<times> reconciler"
    by (cases p) simp
  have "\<exists>s1. history (snd (run_state (Reconcile example_env plain_kube example_config key) fresh_reconciler)) =
      history (snd (run_state ?act s1))"
    using cluster index
    by (simp add: Reconcile_def reconcile_cluster_def read_and_act_def env last selectMode_def isServed_def
        served_result_def noteMode_def source_Collect_def Collect_conditions_def condition_signals_def machinesByNode_def
        fresh_reconciler_def Let_def) blast
  then obtain s1 where run: "history (snd (run_state (Reconcile example_env plain_kube example_config key) fresh_reconciler)) =
      history (snd (run_state ?act s1))" by blast
  moreover have "\<exists>r. PatchMachine restarting_machine (restarting_machine\<lparr>m_annotations :=
      released_annotations (m_annotations restarting_machine)\<rparr>) True r \<in> set (new_calls ?act s1)"
    by (rule example_act_release)
  ultimately show ?thesis
    by (auto simp: new_calls_def fresh_reconciler_def dest: in_set_dropD)
qed

section \<open>Properties\<close>

text \<open>C4: Whatever the clusters hold and however they answer, a reconcile of the cluster controller deletes nothing
  and creates nothing. It patches a Machine only to mark one that no guard protects, or to escalate or to remove,
  under its resource version, a restart mark of its own; it answers only a request it has just read as pending,
  changing only its status; and every Event it records fits the events API. In dry run it does none of it.\<close>

theorem Reconcile_cautious:
  "list_all (cautious K (cf_dry_run cfg)) (new_calls (Reconcile E K cfg key) s)"
  by (rule Reconcile_cautious_calls)

text \<open>A dry run writes nothing: no reconcile makes a single write or records a single Event.\<close>

theorem Reconcile_dry_run:
  assumes "cf_dry_run cfg"
  shows "filter is_write (new_calls (Reconcile E K cfg key) s) = []"
proof -
  have "list_all (cautious K True) (new_calls (Reconcile E K cfg key) s)"
    using Reconcile_cautious_calls [of K cfg E key s] assms by simp
  then show ?thesis by (auto simp: list_all_iff filter_empty_conv dest: cautious_dry_run)
qed

theorem Reconcile_dry_run_witness:
  "filter is_write (new_calls (Reconcile (quiet_env\<lparr>get_cluster := \<lambda>_ _. Inr example_cluster\<rparr>) plain_kube
     (example_config\<lparr>cf_dry_run := True\<rparr>) (''ns'', ''c'')) fresh_reconciler) = []"
  by (rule Reconcile_dry_run) simp

text \<open>C5: A reconcile marks a Machine only for a signal it acts on whose decision, in the mode of the cluster, calls
  for it: for a restart only when a check that is not paused covers the Machine and every check that selects it
  remediates through a template; for a replacement only when a check that is not paused covers it, and the decision is
  a replacement or a restart no template can carry out with the replace fallback.\<close>

theorem act_marks:
  assumes "documented_patch E"
    and "PatchMachine b u False r \<in> set (new_calls (act E K cfg key cluster mode signals machines checks nodes) s)"
  shows "\<not> cf_dry_run cfg \<and> Guard b = NoSkip \<and> (\<exists>sig \<in> set signals. \<exists>action.
    MarkedAction u = Some action \<and> may_mark K cfg cluster checks (o_decision (decide_in mode (cf_table cfg) sig)) b action)"
proof -
  have "permitted E K cfg cluster mode checks signals (PatchMachine b u False r)"
    using emits_new_calls [OF permitted_act] assms(2) unfolding list_all_iff by blast
  then obtain sig where sig: "sig \<in> set signals" "\<not> cf_dry_run cfg"
    "signal_mark E K cfg cluster checks (o_decision (decide_in mode (cf_table cfg) sig)) b u"
    by (auto simp: Let_def)
  then obtain m action reason rec where mark: "Guard b = NoSkip"
    "u = b\<lparr>m_annotations := marked_annotations (m_annotations b) action reason rec\<rparr>"
    "b = m \<or> (\<exists>h v. patch_machine E h m v True = Inr b \<and> escalate_patch m v)"
    "may_mark K cfg cluster checks (o_decision (decide_in mode (cf_table cfg) sig)) m action"
    unfolding signal_mark_def by blast
  have "b = m"
    using mark(1,3) escalated_marked [OF assms(1)] by (auto simp: Guard_NoSkip_iff)
  with mark sig show ?thesis by auto
qed

theorem act_marks_witness:
  "\<exists>u r. PatchMachine labelled_machine u False r \<in> set (new_calls (act quiet_env plain_kube example_config (''ns'', ''c'')
      example_cluster ModeNodeCondition [replace_signal] [(''gpu-w-1'', labelled_machine)] [example_check] []) fresh_reconciler) \<and>
    Guard labelled_machine = NoSkip"
proof -
  obtain u r where there: "PatchMachine labelled_machine u False r \<in> set (new_calls (act quiet_env plain_kube example_config
      (''ns'', ''c'') example_cluster ModeNodeCondition [replace_signal] [(''gpu-w-1'', labelled_machine)] [example_check] []) fresh_reconciler)"
    using example_act_mark by blast
  from act_marks [OF quiet_env_documented there] there show ?thesis by blast
qed

text \<open>Where NVSentinel's own janitor remediates, no signal marks a Machine and none turns a restart mark into a
  replacement: all that is patched is the removal of this operator's own restart marks.\<close>

theorem act_report_only:
  assumes "PatchMachine b u lock r \<in> set (new_calls (act E K cfg key cluster ModeReportOnly signals machines checks nodes) s)"
  shows "lock \<and> release_patch b u \<and> MarkedAction b = Some ActionRestart"
proof -
  have "permitted E K cfg cluster ModeReportOnly checks signals (PatchMachine b u lock r)"
    using emits_new_calls [OF permitted_act] assms unfolding list_all_iff by blast
  moreover have "o_decision (decide_in ModeReportOnly (cf_table cfg) sig) = Report" for sig
    by (simp add: decide_in_def reportOnly_def Let_def)
  ultimately show ?thesis
    by (auto simp: Let_def signal_mark_def signal_escalation_def may_mark_def may_replace_def)
qed

theorem act_report_only_witness:
  "\<exists>u lock r. PatchMachine restarting_machine u lock r \<in> set (new_calls (act quiet_env plain_kube example_config (''ns'', ''c'')
      example_cluster ModeReportOnly [] [(''gpu-w-1'', restarting_machine)] [] []) fresh_reconciler) \<and>
    release_patch restarting_machine u"
proof -
  obtain r where there: "PatchMachine restarting_machine (restarting_machine\<lparr>m_annotations :=
      released_annotations (m_annotations restarting_machine)\<rparr>) True r \<in> set (new_calls (act quiet_env plain_kube example_config
      (''ns'', ''c'') example_cluster ModeReportOnly [] [(''gpu-w-1'', restarting_machine)] [] []) fresh_reconciler)"
    using example_act_release by blast
  from act_report_only [OF there] there show ?thesis by blast
qed

text \<open>A replacement this operator asked for is never taken back: no reconcile removes a mark other than its own
  restart mark, nor changes a mark that is not one.\<close>

theorem Reconcile_keeps_replacements:
  assumes "PatchMachine b u lock r \<in> set (new_calls (Reconcile E K cfg key) s)" and "IsMarkedForRemediation b"
  shows "MarkedAction b = Some ActionRestart \<and> lock"
proof -
  have "cautious K (cf_dry_run cfg) (PatchMachine b u lock r)"
    using Reconcile_cautious_calls assms(1) unfolding list_all_iff by blast
  then show ?thesis using assms(2) mark_patch_marks by auto
qed

text \<open>C28: A failed escalation takes the mark away. When a signal calls for a replacement of a Machine that carries this
  operator's restart mark, and the patch that would turn the mark into a replacement mark fails, nothing is concluded
  about the signal, so the same pass finds the Machine unheld and removes the restart mark, if its patch is accepted.\<close>

theorem act_failed_escalation_releases:
  assumes "\<not> cf_dry_run cfg" and "s_request sig = []"
    and "o_decision (decide_in mode (cf_table cfg) sig) = Replace"
    and "MarkedAction m = Some ActionRestart" and "\<not> deleting m"
    and "\<forall>h u. escalate_patch m u \<longrightarrow> (\<exists>e. patch_machine E h m u True = Inl e)"
  shows "\<exists>r. PatchMachine m (m\<lparr>m_annotations := released_annotations (m_annotations m)\<rparr>) True r
    \<in> set (new_calls (act E K cfg key cluster mode [sig] [(s_node sig, m)] checks nodes) s)"
proof -
  let ?previous = "remembered (seen s) key"
  let ?ps = "\<lparr>ps_machines = [(s_node sig, m)], ps_current = [], ps_asking = [], ps_unreadable = False\<rparr>"
  let ?ps' = "?ps\<lparr>ps_current := [(Key sig, zero_observation)]\<rparr>"
  obtain s1 where handled: "run_state (handle E K cfg cluster mode checks sig (Some m) (map_of nodes (s_node sig))
      (observed ?previous (Key sig))) s = ((zero_observation, Some m), s1)" and h1: "\<exists>cs. history s1 = history s @ cs"
    using handle_failed_escalation [OF assms] by blast
  then have loop: "run_state (loop (handle_signal E K cfg cluster mode checks nodes ?previous) [sig] ?ps) s = (?ps', s1)"
    using assms(2) by (simp add: handle_signal_def conclude_def)
  have "releasable (held_by [(s_node sig, m)] nodes [] {zero_observation}) m"
    using assms(4,5) by (simp add: releasable_def in_held_by counts_def zero_observation_def)
  then show ?thesis using act_releases [OF assms(1) loop _ h1] by auto
qed

theorem act_failed_escalation_releases_witness:
  "\<exists>r. PatchMachine restarting_machine (restarting_machine\<lparr>m_annotations := released_annotations (m_annotations restarting_machine)\<rparr>) True r
    \<in> set (new_calls (act (quiet_env\<lparr>patch_machine := \<lambda>_ b u _. if MarkedAction u = Some ActionRemediate then Inl (Plain ''timeout'') else Inr u\<rparr>)
      plain_kube example_config (''ns'', ''c'') example_cluster ModeNodeCondition [replace_signal]
      [(s_node replace_signal, restarting_machine)] [] []) fresh_reconciler)"
proof (rule act_failed_escalation_releases)
  show "\<forall>h u. escalate_patch restarting_machine u \<longrightarrow> (\<exists>e. patch_machine (quiet_env\<lparr>patch_machine :=
      \<lambda>_ b u _. if MarkedAction u = Some ActionRemediate then Inl (Plain ''timeout'') else Inr u\<rparr>) h restarting_machine u True = Inl e)"
    by (auto dest: escalate_patch_keeps_mark)
qed (simp_all, simp add: replace_signal_def)

text \<open>C10: A request is answered True only for a restart that is over. Whatever handling a signal writes to the status
  of requests that says so, the Machine behind the node was marked for a restart, by this request or by none, and its
  node is back on another boot.\<close>

theorem conclude_answers_true:
  assumes "documented_slices K"
    and "PatchRequestStatus obj updated r \<in> set (new_calls (conclude E K cfg cluster mode checks nodes previous sig ps) s)"
    and "ConditionStatus K updated ConditionComplete = ''True''"
  shows "Pending K obj \<and> (\<exists>m. map_of (ps_machines ps) (s_node sig) = Some m \<and>
    restart_over sig m (map_of nodes (s_node sig)) \<and> o_decision (decide_in mode (cf_table cfg) sig) = Restart)"
proof -
  let ?P = "\<lambda>c. \<forall>obj updated r. c = PatchRequestStatus obj updated r \<longrightarrow> Pending K obj \<and>
      (ConditionStatus K updated ConditionComplete = ''True'' \<longrightarrow>
        (\<exists>m. map_of (ps_machines ps) (s_node sig) = Some m \<and> restart_over sig m (map_of nodes (s_node sig)) \<and>
          o_decision (decide_in mode (cf_table cfg) sig) = Restart))"
  have handle: "emits ?P (handle E K cfg cluster mode checks sig (map_of (ps_machines ps) (s_node sig))
      (map_of nodes (s_node sig)) (observed previous (Key sig)))"
    by (intro emits_handle emits_remediate) auto
  have "emits ?P (conclude E K cfg cluster mode checks nodes previous sig ps)"
    unfolding conclude_def
  proof (rule emits_bind_run [OF handle])
    fix a s s'
    assume run: "run_state (handle E K cfg cluster mode checks sig (map_of (ps_machines ps) (s_node sig))
      (map_of nodes (s_node sig)) (observed previous (Key sig))) s = (a, s')"
    obtain obs machine where a: "a = (obs, machine)" by fastforce
    have over: "\<exists>m. map_of (ps_machines ps) (s_node sig) = Some m \<and> restart_over sig m (map_of nodes (s_node sig)) \<and>
          o_decision (decide_in mode (cf_table cfg) sig) = Restart" if "an_complete (ob_answer obs)"
      using handle_answer [OF run [unfolded a]] that by (auto simp: no_completion_def)
    have answer: "emits ?P (answer_request E K cfg cluster machine sig (ob_answer obs) (obs \<noteq> observed previous (Key sig)))"
    proof (rule emits_answer_request)
      fix obj now r assume "Pending K obj"
      then show "?P (PatchRequestStatus obj (answered_object K obj (answer_condition K obj (an_complete (ob_answer obs))
          (an_reason (ob_answer obs)) (an_message (ob_answer obs)) now)) r)"
        using answered_object_status(1) [OF assms(1)] over by auto
    qed auto
    show "emits ?P (case a of (obs, machine) \<Rightarrow> do {
       machine \<leftarrow> (if given (ob_answer obs)
         then answer_request E K cfg cluster machine sig (ob_answer obs) (obs \<noteq> observed previous (Key sig))
         else State_Monad.return machine);
       State_Monad.return (ps\<lparr>
         ps_machines := (case machine of None \<Rightarrow> ps_machines ps | Some m \<Rightarrow> AList.update (s_node sig) m (ps_machines ps)),
         ps_current := AList.update (Key sig) obs (ps_current ps)\<rparr>)
     })"
      unfolding a prod.case by (intro emits_rules answer)
  qed
  from emits_new_calls [OF this] assms(2,3) show ?thesis unfolding list_all_iff by blast
qed

theorem conclude_answers_true_witness:
  "\<exists>obj updated r. PatchRequestStatus obj updated r \<in> set (new_calls
      (conclude (quiet_env\<lparr>get_request := \<lambda>_ _. Inr example_request\<rparr>) plain_kube example_config example_cluster
        ModeExternalRemediationRequest [] [(''gpu-w-1'', back_node)] [] example_restart_signal example_pass) fresh_reconciler) \<and>
    restart_over example_restart_signal restarting_machine (Some back_node)"
proof -
  let ?E = "quiet_env\<lparr>get_request := \<lambda>_ _. Inr example_request\<rparr>"
  let ?prog = "conclude ?E plain_kube example_config example_cluster ModeExternalRemediationRequest []
      [(''gpu-w-1'', back_node)] [] example_restart_signal example_pass"
  obtain obj updated r where there: "PatchRequestStatus obj updated r \<in> set (new_calls ?prog fresh_reconciler)"
    and true: "ConditionStatus plain_kube updated ConditionComplete = ''True''"
    using example_conclude by blast
  from conclude_answers_true [OF plain_kube_slices there true] there show ?thesis
    by (auto simp: example_pass_def example_restart_signal_def)
qed

theorem Reconcile_keeps_replacements_witness:
  "\<exists>u lock r. PatchMachine restarting_machine u lock r \<in> set (new_calls (Reconcile example_env plain_kube example_config (''ns'', ''c'')) fresh_reconciler) \<and>
    IsMarkedForRemediation restarting_machine \<and> lock"
proof -
  obtain u lock r where there: "PatchMachine restarting_machine u lock r \<in> set (new_calls (Reconcile example_env plain_kube example_config (''ns'', ''c'')) fresh_reconciler)"
    using example_Reconcile by blast
  have "IsMarkedForRemediation restarting_machine" by (rule MarkedAction_marked) simp
  with Reconcile_keeps_replacements [OF there this] there show ?thesis by blast
qed

text \<open>C35: No Cluster is lost from sight. A reconcile that does not fail asks for the next one, later than at once and no later
  than after the poll interval, for every Cluster that is there, selected and not being deleted, a paused one and one that cannot be
  reached included. Only when the Cluster was not found, is being deleted or is not selected does it ask for none, and
  then nothing of it is remembered any more.\<close>

theorem Reconcile_requeues:
  assumes "run_state (Reconcile E K cfg key) s = (Inr delay, s')"
  shows "if case get_cluster E (history s) key of
        Inl err \<Rightarrow> kind_of err = NotFound
      | Inr cluster \<Rightarrow> c_deletion_timestamp cluster \<noteq> None \<or>
          (\<exists>matches. cf_selector cfg = Some matches \<and> \<not> matches (c_labels cluster))
    then delay = 0 \<and> seen s' key = None \<and> would_release s' key = None \<and> modes s' key = None \<and> waiting s' key = None
    else 0 < delay \<and> delay \<le> pollInterval cfg"
proof (cases "get_cluster E (history s) key")
  case (Inl err)
  then show ?thesis using assms by (auto simp: Reconcile_def forget_def split: if_splits)
next
  case (Inr cluster)
  let ?Q = "\<lambda>r. case r of Inl _ \<Rightarrow> True | Inr d \<Rightarrow> 0 < d \<and> d \<le> pollInterval cfg"
  show ?thesis
  proof (cases "c_deletion_timestamp cluster \<noteq> None \<or> (case cf_selector cfg of None \<Rightarrow> False | Some matches \<Rightarrow> \<not> matches (c_labels cluster))")
    case True
    then show ?thesis using assms Inr by (auto simp: Reconcile_def forget_def split: if_splits option.splits)
  next
    case False
    let ?rest = "if is_paused_cluster K cluster then do {
          log_line Debug ''Cluster is paused, not collecting signals'';
          forgetWaits K key [];
          State_Monad.return (Inr (pollInterval cfg))
        }
        else reconcile_cluster E K cfg key cluster"
    have "yields ?Q ?rest" by (intro yields_rules yields_reconcile_cluster) auto
    moreover have "run_state ?rest (s\<lparr>history := history s @ [GetCluster key (Inr cluster)]\<rparr>) = (Inr delay, s')"
      using assms Inr False by (simp add: Reconcile_def)
    ultimately have "0 < delay \<and> delay \<le> pollInterval cfg" using yieldsD by fastforce
    then show ?thesis using Inr False by (auto split: option.splits)
  qed
qed

theorem Reconcile_requeues_witness:
  "\<exists>delay s'. run_state (Reconcile (quiet_env\<lparr>get_cluster := \<lambda>_ _. Inr (example_cluster\<lparr>c_spec_paused := Some True\<rparr>)\<rparr>)
      plain_kube example_config (''ns'', ''c'')) fresh_reconciler = (Inr delay, s') \<and> 0 < delay \<and> delay \<le> 120 * second"
proof -
  let ?prog = "Reconcile (quiet_env\<lparr>get_cluster := \<lambda>_ _. Inr (example_cluster\<lparr>c_spec_paused := Some True\<rparr>)\<rparr>)
      plain_kube example_config (''ns'', ''c'')"
  have there: "c_deletion_timestamp example_cluster = None" "cf_selector example_config = None"
    by (simp_all add: example_cluster_def example_config_def)
  then obtain delay s' where run: "run_state ?prog fresh_reconciler = (Inr delay, s')"
    by (simp add: Reconcile_def forgetWaits_def Let_def)
  have "pollInterval example_config = 120 * second"
    by (simp add: pollInterval_def example_config_def DefaultPollInterval_def)
  with Reconcile_requeues [OF run] there have "0 < delay \<and> delay \<le> 120 * second" by simp
  with run show ?thesis by blast
qed

end
