(* ===== verification/Remembering.thy ===== *)
theory Remembering
  imports Reconcile
begin

text \<open>
  What the cluster controller remembers between reconciles (the maps of \<open>ClusterReconciler\<close> in
  \<open>internal/controller/cluster_controller.go\<close>) keeps its shape: association lists stand for Go maps, so no key may
  occur twice in them, and what is stored only when it is not empty never is. And a reconcile of one Cluster leaves
  what is remembered of the others alone.
\<close>

section \<open>Relations between the state before and after\<close>

text \<open>A relation that holds of the calls a program makes and, being reflexive and transitive, of steps one after another.\<close>

locale respected =
  fixes R :: "(call, 'w) world_scheme \<Rightarrow> (call, 'w) world_scheme \<Rightarrow> bool"
  assumes same: "R s s"
    and chain: "R s t \<Longrightarrow> R t u \<Longrightarrow> R s u"
    and calls: "R s (s\<lparr>history := h\<rparr>)"
begin

definition keeps :: "((call, 'w) world_scheme, 'a) state \<Rightarrow> bool" where
  "keeps m \<longleftrightarrow> (\<forall>s. R s (snd (run_state m s)))"

lemma keepsD: "keeps m \<Longrightarrow> run_state m s = (a, s') \<Longrightarrow> R s s'"
  unfolding keeps_def by (metis snd_conv)

lemma keeps_return: "keeps (ret x)"
  by (simp add: keeps_def same)

lemma keeps_bind_run:
  "keeps m \<Longrightarrow> (\<And>a s s'. run_state m s = (a, s') \<Longrightarrow> keeps (f a)) \<Longrightarrow> keeps (State_Monad.bind m f)"
  unfolding keeps_def by (fastforce split: prod.splits intro: chain)

lemma keeps_bind: "keeps m \<Longrightarrow> (\<And>a. keeps (f a)) \<Longrightarrow> keeps (State_Monad.bind m f)"
  by (rule keeps_bind_run)

lemma keeps_ask: "keeps (ask record answer)"
  by (simp add: keeps_def calls)

lemma keeps_tell: "keeps (tell c)"
  by (simp add: keeps_def calls)

lemma keeps_gets: "keeps (gets f)"
  by (simp add: keeps_def same)

lemma keeps_modify: "(\<And>s. R s (f s)) \<Longrightarrow> keeps (modify f)"
  by (simp add: keeps_def)

lemma keeps_if: "(b \<Longrightarrow> keeps m) \<Longrightarrow> (\<not> b \<Longrightarrow> keeps n) \<Longrightarrow> keeps (if b then m else n)"
  by simp

lemma keeps_case_option:
  "(x = None \<Longrightarrow> keeps m) \<Longrightarrow> (\<And>y. x = Some y \<Longrightarrow> keeps (f y)) \<Longrightarrow> keeps (case x of None \<Rightarrow> m | Some y \<Rightarrow> f y)"
  by (cases x) auto

lemma keeps_case_sum:
  "(\<And>e. x = Inl e \<Longrightarrow> keeps (f e)) \<Longrightarrow> (\<And>y. x = Inr y \<Longrightarrow> keeps (g y)) \<Longrightarrow>
   keeps (case x of Inl e \<Rightarrow> f e | Inr y \<Rightarrow> g y)"
  by (cases x) auto

lemma keeps_case_prod: "(\<And>a b. x = (a, b) \<Longrightarrow> keeps (f a b)) \<Longrightarrow> keeps (case x of (a, b) \<Rightarrow> f a b)"
  by (cases x) auto

lemma keeps_case_bool:
  "(b \<Longrightarrow> keeps m) \<Longrightarrow> (\<not> b \<Longrightarrow> keeps n) \<Longrightarrow> keeps (case b of True \<Rightarrow> m | False \<Rightarrow> n)"
  by (cases b) auto

lemma keeps_let: "(\<And>y. y = x \<Longrightarrow> keeps (f y)) \<Longrightarrow> keeps (let y = x in f y)"
  by simp

lemma keeps_loop: "(\<And>x a. x \<in> set xs \<Longrightarrow> keeps (body x a)) \<Longrightarrow> keeps (loop body xs a)"
proof (induction xs arbitrary: a)
  case (Cons x xs)
  then show ?case unfolding loop.simps by (intro keeps_bind) auto
qed (simp add: keeps_return)

lemmas keeps_rules = keeps_return keeps_bind keeps_ask keeps_tell keeps_gets keeps_if keeps_case_option
  keeps_case_sum keeps_case_prod keeps_case_bool keeps_let keeps_loop

end

section \<open>The operations that only make calls\<close>

text \<open>These keep nothing, so any such relation holds of them.\<close>

context respected
begin

lemma keeps_basic: "keeps (emit_event obj ty rs ac nt)" "keeps (log_line l msg)" "keeps (read_clock E)" "keeps (patch E b u lock)"
  unfolding emit_event_def log_line_def read_clock_def patch_def by (rule keeps_rules)+

lemma keeps_actuator:
  "keeps (MarkForRemediation E dry m action reason restart)" "keeps (RecordSkipped dry m skip action reason)"
  "keeps (Release E dry m reason)" "keeps (Escalate E dry m reason)"
  unfolding MarkForRemediation_def RecordSkipped_def Release_def Escalate_def by (intro keeps_rules keeps_basic)+

lemma keeps_sources:
  "keeps (Collect_conditions E)" "keeps (Collect_requests E K)" "keeps (IsPending E K name)"
  "keeps (Answer E K name complete reason message)" "keeps (isServed E gk version)"
  unfolding Collect_conditions_def Collect_requests_def IsPending_def Answer_def isServed_def
  by (intro keeps_rules keeps_basic)+

lemma keeps_mode: "keeps (selectMode E)" "keeps (source_Collect E K mode)"
  unfolding selectMode_def source_Collect_def by (intro keeps_rules keeps_basic keeps_sources)+

lemma keeps_reads:
  "keeps (nodesByName E)" "keeps (machinesByNode E cluster)" "keeps (watchRequests E cfg key)" "keeps (ListHealthChecks E cluster)"
  unfolding nodesByName_def machinesByNode_def watchRequests_def ListHealthChecks_def by (intro keeps_rules keeps_basic)+

lemma keeps_release_attempt: "keeps (release_attempt E dry answered reason conflicted m)"
  unfolding release_attempt_def Let_def by (intro keeps_rules keeps_basic keeps_actuator)

lemma keeps_retry_release: "keeps (retry_release E dry answered reason n conflicted m)"
proof (induction n arbitrary: conflicted m)
  case (Suc n)
  show ?case unfolding retry_release.simps by (intro keeps_rules keeps_release_attempt Suc)
qed (simp add: keeps_return)

lemma keeps_releaseAnswered: "keeps (releaseAnswered E K cfg m reason)"
  unfolding releaseAnswered_def by (rule keeps_retry_release)

lemmas keeps_calls = keeps_basic keeps_actuator keeps_sources keeps_mode keeps_reads keeps_releaseAnswered

end

section \<open>The memory of the cluster controller\<close>

text \<open>Its shape, and a step of the reconcile of one Cluster: the shape is kept, and so is all that is remembered of the
  other Clusters.\<close>

definition memory_shape :: "reconciler \<Rightarrow> bool" where
  "memory_shape s \<longleftrightarrow> (\<forall>key. distinct (map fst (remembered (seen s) key)) \<and> seen s key \<noteq> Some [] \<and>
     distinct (map fst (remembered (waiting s) key)) \<and> would_release s key \<noteq> Some [])"

definition others_kept :: "cluster_key \<Rightarrow> reconciler \<Rightarrow> reconciler \<Rightarrow> bool" where
  "others_kept key s s' \<longleftrightarrow> (\<forall>k. k \<noteq> key \<longrightarrow> seen s' k = seen s k \<and> would_release s' k = would_release s k \<and>
     modes s' k = modes s k \<and> waiting s' k = waiting s k)"

definition memory_step :: "cluster_key \<Rightarrow> reconciler \<Rightarrow> reconciler \<Rightarrow> bool" where
  "memory_step key s s' \<longleftrightarrow> (memory_shape s \<longrightarrow> memory_shape s') \<and> others_kept key s s'"

lemma memory_shape_history [simp]: "memory_shape (s\<lparr>history := h\<rparr>) = memory_shape s"
  by (simp add: memory_shape_def)

interpretation memory: respected "memory_step key" for key
proof unfold_locales
  fix s t u :: reconciler and h
  show "memory_step key s s" by (simp add: memory_step_def others_kept_def)
  show "memory_step key s (s\<lparr>history := h\<rparr>)" by (simp add: memory_step_def others_kept_def)
  show "memory_step key s t \<Longrightarrow> memory_step key t u \<Longrightarrow> memory_step key s u" by (simp add: memory_step_def others_kept_def)
qed

lemma distinct_filter_keys: "distinct (map fst xs) \<Longrightarrow> distinct (map fst (filter P xs))"
  by (induction xs) auto

lemma keeps_stored:
  assumes "distinct (map fst current)"
  shows "memory_step key s (s\<lparr>seen := store key current (seen s)\<rparr>)"
  using assms by (auto simp: memory_step_def memory_shape_def others_kept_def store_def)

lemma keeps_remember:
  assumes "distinct (map fst current)"
  shows "memory.keeps key (remember key previous current)"
  unfolding remember_def
  by (intro memory.keeps_rules memory.keeps_modify keeps_stored assms) (auto split: prod.split intro!: memory.keeps_rules memory.keeps_calls)

lemma keeps_forget: "memory.keeps key (forget key)"
  unfolding forget_def by (intro memory.keeps_modify) (auto simp: memory_step_def memory_shape_def others_kept_def)

lemma keeps_rememberWouldRelease: "memory.keeps key (rememberWouldRelease key names)"
  unfolding rememberWouldRelease_def
  by (intro memory.keeps_modify) (auto simp: memory_step_def memory_shape_def others_kept_def store_def)

lemma shape_waiting: "memory_shape s \<Longrightarrow> distinct (map fst (remembered (waiting s) key))"
  unfolding memory_shape_def by blast

lemma keeps_waiting:
  assumes "\<And>ws. x = Some ws \<Longrightarrow> memory_shape s \<Longrightarrow> distinct (map fst ws)"
  shows "memory_step key s (s\<lparr>waiting := (waiting s)(key := x)\<rparr>)"
  using assms by (auto simp: memory_step_def memory_shape_def others_kept_def split: option.split)

lemma keeps_heldForChecks: "memory.keeps key (heldForChecks E K key m)"
proof -
  have "distinct (map fst ws)" if "map_option (AList.delete (m_name m)) (waiting s key) = Some ws" "memory_shape s" for s ws
    using that shape_waiting [of s key] by (auto simp: remembered_def intro: distinct_delete)
  moreover have "distinct (map fst (AList.update (m_name m) w (remembered (waiting s) key)))" if "memory_shape s" for s w
    by (rule distinct_update) (rule shape_waiting [OF that])
  ultimately show ?thesis unfolding heldForChecks_def
    by (intro memory.keeps_rules memory.keeps_calls memory.keeps_modify keeps_waiting) auto
qed

lemma keeps_forgetWaits: "memory.keeps key (forgetWaits K key machines)"
  unfolding forgetWaits_def Let_def
  by (intro memory.keeps_modify) (auto simp: memory_step_def memory_shape_def others_kept_def store_def intro: distinct_filter_keys)

lemma keeps_noteMode:
  assumes "cluster_key cluster = key"
  shows "memory.keeps key (noteMode cfg cluster mode)"
  unfolding noteMode_def Let_def assms
  by (intro memory.keeps_rules memory.keeps_calls memory.keeps_modify)
    (auto simp: memory_step_def memory_shape_def others_kept_def)

section \<open>A reconcile\<close>

lemma keeps_report: "memory.keeps key (report cfg news obj rs ac message)"
  unfolding report_def by (intro memory.keeps_rules memory.keeps_calls)

lemma keeps_mark_machine: "memory.keeps key (mark_machine E cfg sig p m node obs previous)"
  unfolding mark_machine_def Let_def by (intro memory.keeps_rules memory.keeps_calls keeps_report)

lemma keeps_remediate_covered:
  "cluster_key cluster = key \<Longrightarrow> memory.keeps key (remediate_covered E K cfg cluster sig p m node obs previous)"
  unfolding remediate_covered_def Let_def
  by (intro memory.keeps_rules memory.keeps_calls keeps_report keeps_mark_machine) (simp_all add: keeps_heldForChecks)

lemma keeps_remediate_guarded:
  "cluster_key cluster = key \<Longrightarrow> memory.keeps key (remediate_guarded E K cfg cluster sig p m node obs previous)"
  unfolding remediate_guarded_def Let_def by (intro memory.keeps_rules memory.keeps_calls keeps_remediate_covered)

lemma keeps_remediate:
  "cluster_key cluster = key \<Longrightarrow> memory.keeps key (remediate E K cfg cluster checks sig outcome m node obs previous)"
  unfolding remediate_def Let_def by (intro memory.keeps_rules memory.keeps_calls keeps_remediate_guarded)

lemma keeps_handle:
  "cluster_key cluster = key \<Longrightarrow> memory.keeps key (handle E K cfg cluster mode checks sig machine node previous)"
  unfolding handle_def Let_def by (intro memory.keeps_rules memory.keeps_calls keeps_report keeps_remediate)

lemma keeps_after_answer: "memory.keeps key (after_answer E K cfg cluster machine sig a)"
  unfolding after_answer_def by (intro memory.keeps_rules memory.keeps_calls)

lemma keeps_answer_request: "memory.keeps key (answer_request E K cfg cluster machine sig a news)"
  unfolding answer_request_def by (intro memory.keeps_rules memory.keeps_calls keeps_after_answer)

lemma keeps_release_step: "memory.keeps key (release_step E cfg key source held leftover node st)"
  unfolding release_step_def Let_def releasableBefore_def by (intro memory.keeps_rules memory.keeps_calls)

lemma keeps_releaseRestarts: "memory.keeps key (releaseRestarts E cfg key source machines nodes current asking)"
  unfolding releaseRestarts_def by (intro memory.keeps_rules keeps_release_step keeps_rememberWouldRelease)

lemma keeps_conclude:
  "cluster_key cluster = key \<Longrightarrow> memory.keeps key (conclude E K cfg cluster mode checks nodes previous sig ps)"
  unfolding conclude_def by (intro memory.keeps_rules memory.keeps_calls keeps_handle keeps_answer_request)

lemma keeps_handle_signal:
  "cluster_key cluster = key \<Longrightarrow> memory.keeps key (handle_signal E K cfg cluster mode checks nodes previous sig ps)"
  unfolding handle_signal_def by (intro memory.keeps_rules memory.keeps_calls keeps_conclude)

text \<open>The observations of a pass are kept under each key once.\<close>

definition keyed_once :: "pass \<Rightarrow> bool" where
  "keyed_once ps \<longleftrightarrow> distinct (map fst (ps_current ps))"

lemma yields_conclude: "keyed_once ps \<Longrightarrow> yields keyed_once (conclude E K cfg cluster mode checks nodes previous sig ps)"
  unfolding conclude_def by (intro yields_rules) (simp add: keyed_once_def distinct_update)

lemma yields_handle_signal: "keyed_once ps \<Longrightarrow> yields keyed_once (handle_signal E K cfg cluster mode checks nodes previous sig ps)"
  unfolding handle_signal_def
  by (intro yields_rules yields_conclude) (auto simp: keyed_once_def intro: distinct_update split: option.split)

lemma keeps_nextLook: "memory.keeps key (nextLook E cfg key)"
  unfolding nextLook_def by (intro memory.keeps_rules memory.keeps_calls)

lemma keeps_act:
  assumes "cluster_key cluster = key"
  shows "memory.keeps key (act E K cfg key cluster mode signals machines checks nodes)"
proof -
  have once: "keyed_once ps" if "run_state (loop (handle_signal E K cfg cluster mode checks nodes previous) signals
      \<lparr>ps_machines = machines, ps_current = [], ps_asking = [], ps_unreadable = False\<rparr>) s = (ps, s')" for previous ps s s'
    by (rule yieldsD [OF yields_loop [OF yields_handle_signal] that]) (simp_all add: keyed_once_def)
  show ?thesis unfolding act_def observations_def
    by (intro memory.keeps_bind [OF memory.keeps_gets] memory.keeps_bind_run [OF memory.keeps_loop [OF keeps_handle_signal [OF assms]]],
        drule once, intro memory.keeps_rules keeps_releaseRestarts keeps_remember keeps_forgetWaits keeps_nextLook)
      (simp add: keyed_once_def)
qed

lemma keeps_read_and_act:
  "cluster_key cluster = key \<Longrightarrow> memory.keeps key (read_and_act E K cfg key cluster mode)"
  unfolding read_and_act_def by (intro memory.keeps_rules memory.keeps_calls keeps_act)

lemma keeps_reconcile_cluster:
  "cluster_key cluster = key \<Longrightarrow> memory.keeps key (reconcile_cluster E K cfg key cluster)"
  unfolding reconcile_cluster_def by (intro memory.keeps_rules memory.keeps_calls keeps_forgetWaits keeps_noteMode keeps_read_and_act)

text \<open>The server answers with the Cluster asked for.\<close>

definition names_clusters :: "env \<Rightarrow> bool" where
  "names_clusters E \<longleftrightarrow> (\<forall>h key cluster. get_cluster E h key = Inr cluster \<longrightarrow> cluster_key cluster = key)"

lemma names_clustersD: "names_clusters E \<Longrightarrow> get_cluster E h key = Inr cluster \<Longrightarrow> cluster_key cluster = key"
  unfolding names_clusters_def by blast

lemma keeps_Reconcile:
  assumes "names_clusters E"
  shows "memory.keeps key (Reconcile E K cfg key)"
  unfolding Reconcile_def
proof (rule memory.keeps_bind_run [OF memory.keeps_ask], goal_cases)
  case (1 a s s')
  then have "cluster_key cluster = key" if "a = Inr cluster" for cluster
    using that names_clustersD [OF assms, of "history s" key] by simp
  then show ?case
    by (intro memory.keeps_rules memory.keeps_calls keeps_forget keeps_forgetWaits keeps_reconcile_cluster)
qed

text \<open>What is forgotten.\<close>

definition nothing_remembered :: "reconciler \<Rightarrow> cluster_key \<Rightarrow> bool" where
  "nothing_remembered s key \<longleftrightarrow> seen s key = None \<and> would_release s key = None \<and> modes s key = None \<and> waiting s key = None"

definition not_watched :: "config \<Rightarrow> cluster \<Rightarrow> bool" where
  "not_watched cfg cluster \<longleftrightarrow> c_deletion_timestamp cluster \<noteq> None \<or> (\<exists>matches. cf_selector cfg = Some matches \<and> \<not> matches (c_labels cluster))"

section \<open>Properties\<close>

text \<open>What a controller remembers keeps its form. Whatever a reconcile meets, the maps it leaves have each key
  once, and no Cluster is left with an empty map of observations or an empty set of releases where the code drops them.\<close>

theorem Reconcile_memory_shape:
  assumes "names_clusters E" and "memory_shape s"
  shows "memory_shape (snd (run_state (Reconcile E K cfg key) s))"
proof -
  obtain r s' where run: "run_state (Reconcile E K cfg key) s = (r, s')" by fastforce
  with memory.keepsD [OF keeps_Reconcile [OF assms(1)] run] assms(2) show ?thesis by (simp add: memory_step_def)
qed

lemma quiet_env_names: "names_clusters quiet_env"
  by (simp add: names_clusters_def quiet_env_def)

lemma fresh_shape: "memory_shape fresh_reconciler"
  by (simp add: memory_shape_def fresh_reconciler_def remembered_def)

theorem Reconcile_memory_shape_witness:
  "memory_shape (snd (run_state (Reconcile quiet_env plain_kube example_config (''ns'', ''c'')) fresh_reconciler))"
  by (rule Reconcile_memory_shape [OF quiet_env_names fresh_shape])

text \<open>C30: Clusters do not disturb each other. A reconcile of one Cluster leaves everything that is remembered of any other
  (what was seen, what would be released, the mode and the waits) as it was, and a Cluster that is gone, being deleted or not
  the selector's is forgotten altogether.\<close>

theorem Reconcile_remembers_apart:
  assumes "names_clusters E" and "run_state (Reconcile E K cfg key) s = (r, s')"
  shows "others_kept key s s' \<and>
    (case get_cluster E (history s) key of Inl err \<Rightarrow> kind_of err = NotFound \<longrightarrow> nothing_remembered s' key
     | Inr cluster \<Rightarrow> not_watched cfg cluster \<longrightarrow> nothing_remembered s' key)"
proof -
  have "others_kept key s s'"
    using memory.keepsD [OF keeps_Reconcile [OF assms(1)] assms(2)] by (simp add: memory_step_def)
  moreover have "case get_cluster E (history s) key of Inl err \<Rightarrow> kind_of err = NotFound \<longrightarrow> nothing_remembered s' key
     | Inr cluster \<Rightarrow> not_watched cfg cluster \<longrightarrow> nothing_remembered s' key"
  proof (cases "get_cluster E (history s) key")
    case (Inl err)
    then show ?thesis using assms(2) by (auto simp: Reconcile_def forget_def nothing_remembered_def)
  next
    case (Inr cluster)
    have "nothing_remembered s' key" if "not_watched cfg cluster"
      using that assms(2) Inr unfolding not_watched_def
      by (cases "c_deletion_timestamp cluster") (auto simp: Reconcile_def forget_def nothing_remembered_def)
    with Inr show ?thesis by simp
  qed
  ultimately show ?thesis by blast
qed

theorem Reconcile_remembers_apart_witness:
  "others_kept (''ns'', ''c'') fresh_reconciler
    (snd (run_state (Reconcile quiet_env plain_kube example_config (''ns'', ''c'')) fresh_reconciler))"
  by (rule Reconcile_remembers_apart [OF quiet_env_names prod.collapse [symmetric], THEN conjunct1])

end
