(* ===== verification/Marks.thy ===== *)
theory Marks
  imports Reconcile
begin

text \<open>
  The life of a mark, as an abstract machine, and that every patch of the cluster controller
  (\<open>internal/controller/cluster_controller.go\<close>, through \<open>internal/capi\<close>) is a step of it.
\<close>

section \<open>The states of a mark\<close>

text \<open>A Machine is not marked, marked by this operator for a restart or a replacement, or by someone else.\<close>

datatype mark_state = Unmarked | ForRestart | ForReplacement | ByOthers

definition mark_state :: "machine \<Rightarrow> mark_state" where
  "mark_state m = (if \<not> IsMarkedForRemediation m then Unmarked
     else (case MarkedAction m of None \<Rightarrow> ByOthers | Some action \<Rightarrow> if action = ActionRestart then ForRestart else ForReplacement))"

inductive mark_step :: "mark_state \<Rightarrow> mark_state \<Rightarrow> bool" where
  ask_restart: "mark_step Unmarked ForRestart"
| ask_replacement: "mark_step Unmarked ForReplacement"
| release: "mark_step ForRestart Unmarked"
| escalate: "mark_step ForRestart ForReplacement"

inductive_cases from_ForReplacement: "mark_step ForReplacement t"
inductive_cases from_ByOthers: "mark_step ByOthers t"
inductive_simps mark_step_iff: "mark_step s t"

text \<open>A replacement mark and a mark of someone else's are never touched, and no mark becomes someone else's.\<close>

lemma mark_final: "mark_step\<^sup>*\<^sup>* s t \<Longrightarrow> s = ForReplacement \<or> s = ByOthers \<Longrightarrow> t = s"
  by (induction rule: rtranclp_induct) (auto elim: from_ForReplacement from_ByOthers)

lemma mark_state_cong:
  "(\<And>k. k \<in> set mark_annotations \<Longrightarrow> m_annotations m' k = m_annotations m k) \<Longrightarrow> mark_state m' = mark_state m"
  by (simp add: mark_state_def MarkedAction_def IsMarkedForRemediation_def mark_annotations_def)

section \<open>The patches\<close>

lemma mark_patch_step: "mark_patch b u \<Longrightarrow> mark_step (mark_state b) (mark_state u)"
proof -
  assume patch: "mark_patch b u"
  then obtain action where "MarkedAction u = Some action" by (auto simp: mark_patch_def)
  with mark_patch_marks [OF patch] show ?thesis by (auto simp: mark_state_def intro: ask_restart ask_replacement)
qed

lemma MarkedAction_Restart_state: "MarkedAction b = Some ActionRestart \<Longrightarrow> mark_state b = ForRestart"
  by (simp add: mark_state_def MarkedAction_marked)

lemma release_patch_step: "release_patch b u \<Longrightarrow> MarkedAction b = Some ActionRestart \<Longrightarrow> mark_step (mark_state b) (mark_state u)"
  using release_patch_unmarks [of b u] MarkedAction_Restart_state [of b] by (simp add: mark_state_def [of u] release)

lemma escalate_patch_step: "escalate_patch b u \<Longrightarrow> mark_step (mark_state b) (mark_state u)"
proof -
  assume patch: "escalate_patch b u"
  have "mark_state u = ForReplacement"
    using escalate_patch_keeps_mark [OF patch] by (simp add: mark_state_def ActionRemediate_def ActionRestart_def)
  moreover have "mark_state b = ForRestart" using patch by (simp add: escalate_patch_def MarkedAction_Restart_state)
  ultimately show ?thesis by (simp add: escalate)
qed

text \<open>What every call of a reconcile does to the mark of a Machine, and to all else of it.\<close>

fun moves_mark :: "call \<Rightarrow> bool" where
  "moves_mark (PatchMachine b u lock r) \<longleftrightarrow> mark_step (mark_state b) (mark_state u) \<and>
     (lock \<or> mark_state b = Unmarked) \<and> u = b\<lparr>m_annotations := m_annotations u\<rparr> \<and>
     (\<forall>k. k \<in> set mark_annotations \<or> m_annotations u k = m_annotations b k)"
| "moves_mark (DeleteMachine m r) \<longleftrightarrow> False"
| "moves_mark _ \<longleftrightarrow> True"

lemma cautious_moves: "cautious K dryRun c \<Longrightarrow> moves_mark c"
proof (cases c)
  case (PatchMachine b u lock r)
  assume "cautious K dryRun c"
  then have forms: "(\<not> lock \<and> mark_patch b u) \<or> (lock \<and> MarkedAction b = Some ActionRestart \<and> (release_patch b u \<or> escalate_patch b u))"
    by (auto simp: PatchMachine)
  then have "own_patch b u" by (auto simp: own_patch_def)
  from own_patch_frame [OF this] have frame: "u = b\<lparr>m_annotations := m_annotations u\<rparr>"
    "\<forall>k. k \<in> set mark_annotations \<or> m_annotations u k = m_annotations b k" by blast+
  have "mark_step (mark_state b) (mark_state u)"
    using forms mark_patch_step release_patch_step escalate_patch_step by blast
  moreover have "lock \<or> mark_state b = Unmarked"
    using forms mark_patch_marks [of b u] by (auto simp: mark_state_def)
  ultimately show ?thesis using frame by (simp add: PatchMachine)
qed auto

lemma Reconcile_moves: "list_all moves_mark (new_calls (Reconcile E K cfg key) s)"
  by (rule list.pred_mono_strong [OF Reconcile_cautious_calls]) (rule cautious_moves)

section \<open>Properties\<close>

text \<open>C13: Every write of a Machine is a step in the life of a mark. Whatever a reconcile of the cluster controller meets, each patch
  takes a Machine without a mark to one of its own, a restart mark to none or to a replacement mark, and nothing else; it is
  locked to the version it was made from unless it marks; it changes nothing of the Machine but the annotations of
  a mark; and no Machine is deleted. So replacement marks, and marks of others, stay for good.\<close>

theorem Reconcile_marks_refine:
  "list_all moves_mark (new_calls (Reconcile E K cfg key) s) \<and>
   \<not> (\<exists>t. mark_step\<^sup>*\<^sup>* ForReplacement t \<and> t \<noteq> ForReplacement) \<and> \<not> (\<exists>t. mark_step\<^sup>*\<^sup>* ByOthers t \<and> t \<noteq> ByOthers)"
  using Reconcile_moves mark_final by blast

end
