(* ===== verification/Quarantine.thy ===== *)
theory Quarantine
  imports Sha256 Guard Examples
begin

text \<open>
  Package \<open>quarantine\<close>, what needs no cluster (\<open>internal/quarantine/quarantine.go\<close>): the names it uses, reading a
  replace request, selecting the devices it is about, and naming their rules.
\<close>

section \<open>Names\<close>

definition ReplaceAnnotation :: string where
  "ReplaceAnnotation = AnnotationPrefix @ ''/replace''"

definition ReplaceStatusAnnotation :: string where
  "ReplaceStatusAnnotation = AnnotationPrefix @ ''/replace-status''"

definition RequestQuarantine :: string where "RequestQuarantine = ''quarantine''"
definition StatusQuarantining :: string where "StatusQuarantining = ''quarantining''"
definition StatusReplacing :: string where "StatusReplacing = ''replacing''"
definition rejectedPrefix :: string where "rejectedPrefix = ''rejected: ''"
definition TaintKey :: string where "TaintKey = AnnotationPrefix @ ''/quarantined''"
definition ManagedByLabel :: string where "ManagedByLabel = ''app.kubernetes.io/managed-by''"
definition ManagedBy :: string where "ManagedBy = ''nvsentinel-capi-remediator''"
definition MachineLabel :: string where "MachineLabel = AnnotationPrefix @ ''/machine''"
definition MachineNamespaceLabel :: string where "MachineNamespaceLabel = AnnotationPrefix @ ''/machine-namespace''"
definition ClusterLabel :: string where "ClusterLabel = AnnotationPrefix @ ''/cluster''"
definition MachineAnnotation :: string where "MachineAnnotation = AnnotationPrefix @ ''/machine''"
definition DeviceAnnotation :: string where "DeviceAnnotation = AnnotationPrefix @ ''/device''"
definition RequestedAtAnnotation :: string where "RequestedAtAnnotation = AnnotationPrefix @ ''/requested-at''"
definition rulePrefix :: string where "rulePrefix = ''quarantine-''"

definition RejectedStatus :: "string \<Rightarrow> string" where
  "RejectedStatus reason = rejectedPrefix @ reason"

definition IsRejected :: "string \<Rightarrow> bool" where
  "IsRejected status \<longleftrightarrow> prefix rejectedPrefix status"

definition ReasonInvalidRequest :: string where "ReasonInvalidRequest = ''InvalidRequest''"
definition ReasonNotKubeVirt :: string where "ReasonNotKubeVirt = ''NotKubeVirt''"
definition ReasonExternalInfraCluster :: string where "ReasonExternalInfraCluster = ''ExternalInfraCluster''"
definition ReasonNoDevices :: string where "ReasonNoDevices = ''NoDevices''"
definition ReasonAmbiguousDevices :: string where "ReasonAmbiguousDevices = ''AmbiguousDevices''"
definition ReasonUnknownDevice :: string where "ReasonUnknownDevice = ''UnknownDevice''"
definition ReasonDeviceTaintRuleUnavailable :: string where "ReasonDeviceTaintRuleUnavailable = ''DeviceTaintRuleUnavailable''"
definition ReasonDeviceTaintRuleConflict :: string where "ReasonDeviceTaintRuleConflict = ''DeviceTaintRuleConflict''"
definition ReasonForbidden :: string where "ReasonForbidden = ''Forbidden''"

lemmas reason_defs = ReasonInvalidRequest_def ReasonNotKubeVirt_def ReasonExternalInfraCluster_def ReasonNoDevices_def
  ReasonAmbiguousDevices_def ReasonUnknownDevice_def ReasonDeviceTaintRuleUnavailable_def
  ReasonDeviceTaintRuleConflict_def ReasonForbidden_def

section \<open>Devices\<close>

datatype device = Device (d_driver: string) (d_pool: string) (d_name: string)

definition device_string :: "device \<Rightarrow> string" where
  "device_string d = d_driver d @ ''/'' @ d_pool d @ ''/'' @ d_name d"

text \<open>\<open>cmp.Compare\<close> on strings and \<open>cmp.Or\<close> of the standard library.\<close>

definition Compare :: "string \<Rightarrow> string \<Rightarrow> int" where
  "Compare a b = (if a < b then -1 else if b < a then 1 else 0)"

fun cmp_or :: "int list \<Rightarrow> int" where
  "cmp_or [] = 0"
| "cmp_or (x # xs) = (if x \<noteq> 0 then x else cmp_or xs)"

definition device_compare :: "device \<Rightarrow> device \<Rightarrow> int" where
  "device_compare a b = cmp_or [Compare (d_driver a) (d_driver b), Compare (d_pool a) (d_pool b), Compare (d_name a) (d_name b)]"

text \<open>It is a total order, so that a sorted slice of devices is a sorted list in the sense of the library.\<close>

instantiation device :: linorder
begin

definition less_eq_device :: "device \<Rightarrow> device \<Rightarrow> bool" where
  "less_eq_device a b \<longleftrightarrow> device_compare a b \<le> 0"

definition less_device :: "device \<Rightarrow> device \<Rightarrow> bool" where
  "less_device a b \<longleftrightarrow> device_compare a b < 0"

instance
proof -
  have le: "device_compare a b \<le> 0 \<longleftrightarrow> (d_driver a, d_pool a, d_name a) \<le> (d_driver b, d_pool b, d_name b)"
    and lt: "device_compare a b < 0 \<longleftrightarrow> (d_driver a, d_pool a, d_name a) < (d_driver b, d_pool b, d_name b)" for a b
    by (auto simp: device_compare_def Compare_def less_eq_prod_def less_prod_def)
  show "OFCLASS(device, linorder_class)"
    by standard (unfold less_eq_device_def less_device_def le lt, auto intro: device.expand)
qed

end

lemma device_eq_iff: "a = b \<longleftrightarrow> d_driver a = d_driver b \<and> d_pool a = d_pool b \<and> d_name a = d_name b"
  by (cases a; cases b) simp

section \<open>Requests\<close>

definition invalid_request :: "kube \<Rightarrow> string \<Rightarrow> go_error" where
  "invalid_request K value = Rejection ReasonInvalidRequest (quote K value @ '' is neither '' @ quote K RequestQuarantine @
     '' nor '' @ quote K (RequestQuarantine @ '':'') @ '' followed by device names'')"

definition empty_name :: "kube \<Rightarrow> string \<Rightarrow> go_error" where
  "empty_name K value = Rejection ReasonInvalidRequest (quote K value @ '' lists an empty device name'')"

fun parse_names :: "kube \<Rightarrow> string \<Rightarrow> string list \<Rightarrow> string list \<Rightarrow> go_error + string list" where
  "parse_names K value names [] = Inr names"
| "parse_names K value names (part # parts) =
     (let name = trim_space part
      in if name = [] then Inl (empty_name K value)
         else parse_names K value (append_new name names) parts)"

definition ParseRequest :: "kube \<Rightarrow> string \<Rightarrow> go_error + string list" where
  "ParseRequest K value =
     (if value = RequestQuarantine then Inr []
      else (case cut_prefix value (RequestQuarantine @ '':'') of
          None \<Rightarrow> Inl (invalid_request K value)
        | Some list \<Rightarrow> parse_names K value [] (split_on CHR '','' list)))"

section \<open>Selecting devices\<close>

definition device_names :: "device list \<Rightarrow> string" where
  "device_names ds = (if ds = [] then ''none'' else join '', '' (map d_name ds))"

definition device_texts :: "device list \<Rightarrow> string" where
  "device_texts ds = join '', '' (map device_string ds)"

definition heldNote :: "device list \<Rightarrow> string" where
  "heldNote all = (if all = [] then [] else ''; it holds '' @ device_texts all)"

text \<open>\<open>sets.List\<close>, the elements of a set in order.\<close>

definition driver_texts :: "string set \<Rightarrow> string" where
  "driver_texts drivers = join '', '' (sorted_list_of_set drivers)"

definition candidates :: "device list \<Rightarrow> string set \<Rightarrow> device list" where
  "candidates all drivers = sort (dedup_onto [] (filter (\<lambda>d. d_driver d \<in> drivers) all))"

definition no_devices :: "device list \<Rightarrow> string set \<Rightarrow> go_error" where
  "no_devices all drivers =
     Rejection ReasonNoDevices (''the Machine holds no device of '' @ driver_texts drivers @ heldNote all)"

definition several_devices :: "device list \<Rightarrow> string set \<Rightarrow> go_error" where
  "several_devices cands drivers = Rejection ReasonAmbiguousDevices (''the Machine holds '' @ decimal (length cands) @
     '' devices of '' @ driver_texts drivers @ '': '' @ device_names cands @ ''; list the ones to quarantine as '' @
     RequestQuarantine @ '':<device>[,<device>]'')"

definition unknown_device :: "kube \<Rightarrow> string \<Rightarrow> device list \<Rightarrow> string set \<Rightarrow> go_error" where
  "unknown_device K name cands drivers = Rejection ReasonUnknownDevice (quote K name @ '' is not among the devices of '' @
     driver_texts drivers @ '' the Machine holds: '' @ device_names cands)"

definition ambiguous_device :: "kube \<Rightarrow> string \<Rightarrow> device list \<Rightarrow> go_error" where
  "ambiguous_device K name matches = Rejection ReasonAmbiguousDevices (quote K name @
     '' names more than one device the Machine holds: '' @ device_texts matches)"

fun select_named ::
  "kube \<Rightarrow> string set \<Rightarrow> device list \<Rightarrow> device list \<Rightarrow> string list \<Rightarrow> go_error + device list" where
  "select_named K drivers cands selected [] = Inr selected"
| "select_named K drivers cands selected (name # requested) =
     (case filter (\<lambda>d. d_name d = name) cands of
        [] \<Rightarrow> Inl (unknown_device K name cands drivers)
      | [d] \<Rightarrow> select_named K drivers cands (append_new d selected) requested
      | matches \<Rightarrow> Inl (ambiguous_device K name matches))"

definition Select :: "kube \<Rightarrow> device list \<Rightarrow> string set \<Rightarrow> string list \<Rightarrow> go_error + device list" where
  "Select K all drivers requested =
     (let cands = candidates all drivers
      in if requested = [] then
           (case cands of
              [] \<Rightarrow> Inl (no_devices all drivers)
            | [d] \<Rightarrow> Inr [d]
            | _ \<Rightarrow> Inl (several_devices cands drivers))
         else (case select_named K drivers cands [] requested of
              Inl err \<Rightarrow> Inl err
            | Inr selected \<Rightarrow> Inr (sort selected)))"

section \<open>Names of rules and labels\<close>

definition digest :: "string \<Rightarrow> string" where
  "digest s = EncodeToString (take 8 (Sum256 s))"

definition rule_key :: "device \<Rightarrow> string" where
  "rule_key d = d_driver d @ CHR 0x00 # d_pool d @ CHR 0x00 # d_name d"

definition RuleName :: "device \<Rightarrow> string" where
  "RuleName d = rulePrefix @ digest (rule_key d)"

definition labelValue :: "kube \<Rightarrow> string \<Rightarrow> string" where
  "labelValue K name =
     (if length name \<le> label_value_max K then name
      else let d = digest name in take (label_value_max K - length d - 1) name @ ''-'' @ d)"

section \<open>Facts\<close>

lemma quarantine_names_neq [simp]:
  "ReplaceAnnotation \<noteq> ReplaceStatusAnnotation" "ReplaceStatusAnnotation \<noteq> ReplaceAnnotation"
  "StatusQuarantining \<noteq> StatusReplacing" "StatusReplacing \<noteq> StatusQuarantining"
  "StatusQuarantining \<noteq> []" "StatusReplacing \<noteq> []" "RejectedStatus reason \<noteq> []"
  "RejectedStatus reason \<noteq> StatusReplacing" "StatusReplacing \<noteq> RejectedStatus reason"
  "RejectedStatus reason \<noteq> StatusQuarantining" "StatusQuarantining \<noteq> RejectedStatus reason"
  by (simp_all add: ReplaceAnnotation_def ReplaceStatusAnnotation_def StatusQuarantining_def StatusReplacing_def
      RejectedStatus_def rejectedPrefix_def)

lemma IsRejected_simps [simp]:
  "IsRejected (RejectedStatus reason)" "\<not> IsRejected StatusQuarantining" "\<not> IsRejected StatusReplacing" "\<not> IsRejected []"
  by (simp_all add: IsRejected_def RejectedStatus_def rejectedPrefix_def StatusQuarantining_def StatusReplacing_def)

lemma parse_names_eq:
  "parse_names K value names parts =
     (if \<forall>p \<in> set parts. trim_space p \<noteq> [] then Inr (dedup_onto names (map trim_space parts)) else Inl (empty_name K value))"
  by (induction K "value" names parts rule: parse_names.induct) (simp_all add: Let_def)

lemma ParseRequest_plain [simp]: "ParseRequest K RequestQuarantine = Inr []"
  by (simp add: ParseRequest_def)

lemma ParseRequest_listed:
  "ParseRequest K (RequestQuarantine @ CHR '':'' # list) =
     parse_names K (RequestQuarantine @ CHR '':'' # list) [] (split_on CHR '','' list)"
  using cut_prefix_append [of "RequestQuarantine @ '':''" list] by (simp add: ParseRequest_def)

lemma ParseRequest_Inl: "ParseRequest K value = Inl e \<Longrightarrow> rejection_of e = Some (ReasonInvalidRequest, snd (the (rejection_of e)))"
  by (auto simp: ParseRequest_def parse_names_eq invalid_request_def empty_name_def split: if_splits option.splits)

lemma ParseRequest_names: "ParseRequest K value = Inr names \<Longrightarrow> distinct names \<and> [] \<notin> set names"
  by (fastforce simp: ParseRequest_def parse_names_eq split: if_splits option.splits)

text \<open>The candidates, as a set.\<close>

definition held_devices :: "device list \<Rightarrow> string set \<Rightarrow> device set" where
  "held_devices all drivers = {d \<in> set all. d_driver d \<in> drivers}"

lemma finite_held_devices [simp]: "finite (held_devices all drivers)"
  by (simp add: held_devices_def)

lemma candidates_facts [simp]:
  "set (candidates all drivers) = held_devices all drivers" "sorted (candidates all drivers)" "distinct (candidates all drivers)"
  by (auto simp: candidates_def held_devices_def)

lemma length_named:
  "length (filter (\<lambda>d. d_name d = n) (candidates all drivers)) = card {d \<in> held_devices all drivers. d_name d = n}"
proof -
  have "card {d \<in> held_devices all drivers. d_name d = n} = card (set (filter (\<lambda>d. d_name d = n) (candidates all drivers)))"
    by simp
  then show ?thesis by (simp add: distinct_card del: set_filter)
qed

text \<open>The devices a request is about, and when it says so clearly.\<close>

definition asked_devices :: "device set \<Rightarrow> string list \<Rightarrow> device set" where
  "asked_devices held requested = (if requested = [] then held else {d \<in> held. d_name d \<in> set requested})"

definition clear_request :: "device set \<Rightarrow> string list \<Rightarrow> bool" where
  "clear_request held requested \<longleftrightarrow>
     (if requested = [] then card held = 1 else \<forall>n \<in> set requested. card {d \<in> held. d_name d = n} = 1)"

lemma select_named_Inr:
  assumes "\<forall>n \<in> set requested. card {d \<in> held_devices all drivers. d_name d = n} = 1" and "distinct selected"
  shows "\<exists>ds. select_named K drivers (candidates all drivers) selected requested = Inr ds \<and> distinct ds \<and>
    set ds = set selected \<union> {d \<in> held_devices all drivers. d_name d \<in> set requested}"
  using assms
proof (induction requested arbitrary: selected)
  case Nil
  then show ?case by simp
next
  case (Cons n requested)
  from Cons.prems(1) have "length (filter (\<lambda>d. d_name d = n) (candidates all drivers)) = 1" by (simp add: length_named)
  then obtain d where d: "filter (\<lambda>d. d_name d = n) (candidates all drivers) = [d]"
    by (auto simp: length_Suc_conv)
  then have n: "{x \<in> held_devices all drivers. d_name x = n} = {d}"
    by (metis candidates_facts(1) list.simps(15) empty_set set_filter)
  from Cons.IH [of "append_new d selected"] Cons.prems obtain ds where
    ds: "select_named K drivers (candidates all drivers) (append_new d selected) requested = Inr ds" "distinct ds"
      "set ds = insert d (set selected) \<union> {x \<in> held_devices all drivers. d_name x \<in> set requested}" by auto
  have "insert d (set selected) \<union> {x \<in> held_devices all drivers. d_name x \<in> set requested} =
      set selected \<union> {x \<in> held_devices all drivers. d_name x \<in> set (n # requested)}"
    using n by auto
  with ds d show ?case by simp
qed

lemma select_named_Inl:
  assumes "n \<in> set requested" and "card {d \<in> held_devices all drivers. d_name d = n} \<noteq> 1"
  shows "\<exists>e. select_named K drivers (candidates all drivers) selected requested = Inl e"
  using assms
proof (induction requested arbitrary: selected)
  case Nil
  then show ?case by simp
next
  case (Cons m requested)
  show ?case
  proof (cases "length (filter (\<lambda>d. d_name d = m) (candidates all drivers)) = 1")
    case True
    then obtain d where d: "filter (\<lambda>d. d_name d = m) (candidates all drivers) = [d]" by (auto simp: length_Suc_conv)
    have "m \<noteq> n" using True Cons.prems(2) by (auto simp: length_named)
    then show ?thesis using Cons by (simp add: d)
  next
    case False
    then show ?thesis by (auto split: list.splits)
  qed
qed

lemma Select_exact:
  "Select K all drivers requested = Inr ds \<longleftrightarrow>
     clear_request (held_devices all drivers) requested \<and>
     sorted ds \<and> distinct ds \<and> set ds = asked_devices (held_devices all drivers) requested"
  (is "?lhs \<longleftrightarrow> ?rhs")
proof (cases "requested = []")
  case True
  have card: "card (held_devices all drivers) = length (candidates all drivers)"
    by (metis candidates_facts(1,3) distinct_card)
  have "ds = candidates all drivers" if ?rhs
    using that True sorted_distinct_set_unique [of ds "candidates all drivers"] by (simp add: asked_devices_def)
  moreover have "?lhs \<longleftrightarrow> length (candidates all drivers) = 1 \<and> ds = candidates all drivers"
    using True by (auto simp: Select_def Let_def length_Suc_conv split: list.splits)
  ultimately show ?thesis using True card
    by (auto simp: asked_devices_def clear_request_def)
next
  case False
  show ?thesis
  proof (cases "clear_request (held_devices all drivers) requested")
    case True
    obtain xs where xs: "select_named K drivers (candidates all drivers) [] requested = Inr xs" "distinct xs"
      "set xs = asked_devices (held_devices all drivers) requested"
      using select_named_Inr [of requested all drivers "[]" K] True False
      by (auto simp: clear_request_def asked_devices_def)
    have "?lhs \<longleftrightarrow> ds = sort xs" using False xs by (auto simp: Select_def Let_def)
    moreover have "ds = sort xs" if ?rhs
      using that xs sorted_distinct_set_unique [of ds "sort xs"] by simp
    ultimately show ?thesis using True xs by auto
  next
    case unclear: False
    then obtain n where "n \<in> set requested" "card {d \<in> held_devices all drivers. d_name d = n} \<noteq> 1"
      using False by (auto simp: clear_request_def)
    then obtain e where "select_named K drivers (candidates all drivers) [] requested = Inl e"
      using select_named_Inl by blast
    then show ?thesis using False unclear by (simp add: Select_def Let_def)
  qed
qed

lemma Select_not_Nil: "Select K all drivers requested = Inr ds \<Longrightarrow> ds \<noteq> []"
proof
  assume sel: "Select K all drivers requested = Inr ds" and nil: "ds = []"
  then have clear: "clear_request (held_devices all drivers) requested"
    and none: "asked_devices (held_devices all drivers) requested = {}" by (auto simp: Select_exact)
  show False
  proof (cases "requested = []")
    case True
    then show ?thesis using clear none by (simp add: clear_request_def asked_devices_def)
  next
    case False
    then have "card {d \<in> held_devices all drivers. d_name d = hd requested} = 1" using clear by (simp add: clear_request_def)
    moreover have "{d \<in> held_devices all drivers. d_name d = hd requested} = {}"
      using none False hd_in_set [OF False] by (auto simp: asked_devices_def)
    ultimately show ?thesis by (metis card.empty zero_neq_one)
  qed
qed

lemma length_digest [simp]: "length (digest s) = 16"
  by (simp add: digest_def)

lemma hex_digit_in: "n < 16 \<Longrightarrow> hex_digit n \<in> set ''0123456789abcdef''"
proof -
  assume "n < 16"
  then have "n \<in> set [0 ..< 16]" by simp
  moreover have "list_all (\<lambda>n. hex_digit n \<in> set ''0123456789abcdef'') [0 ..< 16]"
    by (simp add: upt_rec hex_digit_def char_of_def bit_0)
  ultimately show ?thesis by (simp only: list_all_iff)
qed

lemma set_EncodeToString: "\<forall>b \<in> set bs. b < 256 \<Longrightarrow> set (EncodeToString bs) \<subseteq> set ''0123456789abcdef''"
proof (induction bs)
  case Nil
  then show ?case by (simp add: EncodeToString_def)
next
  case (Cons b bs)
  then have "b div 16 < 16" "b mod 16 < 16" by (simp_all add: less_mult_imp_div_less)
  with Cons show ?case using hex_digit_in unfolding EncodeToString_Cons by simp
qed

lemma set_digest: "set (digest s) \<subseteq> set ''0123456789abcdef''"
  unfolding digest_def by (rule set_EncodeToString) (auto dest: in_set_takeD Sum256_bytes)

lemma rule_key_inj:
  assumes "CHR 0x00 \<notin> set (d_driver a)" "CHR 0x00 \<notin> set (d_pool a)"
    and "CHR 0x00 \<notin> set (d_driver b)" "CHR 0x00 \<notin> set (d_pool b)" and "rule_key a = rule_key b"
  shows "a = b"
proof -
  have "cut CHR 0x00 (rule_key a) = cut CHR 0x00 (rule_key b)" by (simp add: assms(5))
  then have driver: "d_driver a = d_driver b" and rest: "d_pool a @ CHR 0x00 # d_name a = d_pool b @ CHR 0x00 # d_name b"
    using assms(1,3) by (simp_all add: rule_key_def cut_append)
  have "cut CHR 0x00 (d_pool a @ CHR 0x00 # d_name a) = cut CHR 0x00 (d_pool b @ CHR 0x00 # d_name b)"
    by (simp only: rest)
  then show ?thesis using driver by (simp only: cut_append [OF assms(2)] cut_append [OF assms(4)] device_eq_iff prod.inject)
qed

section \<open>Properties\<close>

text \<open>The names of the devices an operator wants quarantined are read back as written: after the keyword and a
  colon, separated by commas, whatever the names, as long as they are not empty, have no comma in them and neither
  start nor end in white space. A name listed twice is read once.\<close>

theorem ParseRequest_roundtrip:
  assumes "listed \<noteq> []" and "\<forall>n \<in> set listed. n \<noteq> [] \<and> CHR '','' \<notin> set n \<and> clean n"
  shows "ParseRequest K (RequestQuarantine @ '':'' @ join '','' listed) = Inr (dedup_onto [] listed)"
proof -
  have split: "split_on CHR '','' (join '','' listed) = listed"
    using assms by (intro split_on_join) auto
  have trim: "map trim_space listed = listed"
    using assms(2) by (intro map_idI) auto
  have "\<forall>p \<in> set listed. trim_space p \<noteq> []" using assms(2) by simp
  then show ?thesis by (simp add: ParseRequest_listed split parse_names_eq trim)
qed

theorem ParseRequest_roundtrip_witness:
  "ParseRequest plain_kube (RequestQuarantine @ '':'' @ join '','' [''gpu-3'', ''gpu-0'', ''gpu-3'']) = Inr [''gpu-3'', ''gpu-0'']"
proof -
  have "clean ''gpu-3''" "clean ''gpu-0''" by (rule clean_printable; simp)+
  then have "\<forall>n \<in> set [''gpu-3'', ''gpu-0'', ''gpu-3'']. n \<noteq> [] \<and> CHR '','' \<notin> set n \<and> clean n" by simp
  from ParseRequest_roundtrip [OF _ this, of plain_kube] show ?thesis by (simp add: append_new_def)
qed

text \<open>C26: A request selects devices exactly when it is clear which ones it means: with no names listed, the Machine
  has to hold exactly one device of the configured drivers; with names, each has to be the name of exactly one of
  them. Then it selects those devices and no others, in order and without repeats, and at least one. A request that
  is not clear is rejected, and a device of another driver is never selected.\<close>

theorem Select_clear_requests:
  "(Select K all drivers requested = Inr ds \<longleftrightarrow>
     clear_request (held_devices all drivers) requested \<and>
     sorted ds \<and> distinct ds \<and> set ds = asked_devices (held_devices all drivers) requested) \<and>
   (\<forall>e. Select K all drivers requested = Inl e \<longrightarrow> rejection_of e \<noteq> None) \<and>
   (Select K all drivers requested = Inr ds \<longrightarrow> ds \<noteq> [])"
proof -
  have "rejection_of e \<noteq> None" if "select_named K drivers cands sel req = Inl e" for cands sel req e
    using that by (induction K drivers cands sel req rule: select_named.induct)
      (auto simp: unknown_device_def ambiguous_device_def split: list.splits)
  then have "\<forall>e. Select K all drivers requested = Inl e \<longrightarrow> rejection_of e \<noteq> None"
    by (auto simp: Select_def Let_def no_devices_def several_devices_def split: list.splits if_splits sum.splits)
  then show ?thesis using Select_exact Select_not_Nil by blast
qed

text \<open>A Machine that holds two devices of the driver and one of another, of which the request names one.\<close>

theorem Select_clear_requests_witness:
  "Select plain_kube [Device ''gpu'' ''p'' ''b'', Device ''nic'' ''p'' ''a'', Device ''gpu'' ''p'' ''a''] {''gpu''} [''a''] =
     Inr [Device ''gpu'' ''p'' ''a'']"
proof -
  let ?all = "[Device ''gpu'' ''p'' ''b'', Device ''nic'' ''p'' ''a'', Device ''gpu'' ''p'' ''a'']"
  have held: "held_devices ?all {''gpu''} = {Device ''gpu'' ''p'' ''b'', Device ''gpu'' ''p'' ''a''}"
    by (auto simp: held_devices_def)
  have one: "{d \<in> held_devices ?all {''gpu''}. d_name d = ''a''} = {Device ''gpu'' ''p'' ''a''}"
    by (auto simp: held)
  then have "clear_request (held_devices ?all {''gpu''}) [''a'']"
    "asked_devices (held_devices ?all {''gpu''}) [''a''] = {Device ''gpu'' ''p'' ''a''}"
    by (simp_all add: clear_request_def asked_devices_def)
  with Select_clear_requests [of plain_kube ?all "{''gpu''}" "[''a'']" "[Device ''gpu'' ''p'' ''a'']"] show ?thesis by simp
qed

text \<open>A label value made of an object's name always fits: it is the name itself when that is short enough, and
  otherwise exactly as long as a label value may be, the start of the name followed by a hyphen and the sixteen digits
  of its digest, so that two long names share a label only when they start alike and have the same digest. The name of
  a device's rule has 27 characters whatever the device is called, and only the prefix and digits.\<close>

theorem labelValue_fits:
  assumes "17 \<le> label_value_max K"
  shows "length (labelValue K name) \<le> label_value_max K \<and>
    (length name \<le> label_value_max K \<longrightarrow> labelValue K name = name) \<and>
    (label_value_max K < length name \<longrightarrow> length (labelValue K name) = label_value_max K \<and>
       labelValue K name = take (label_value_max K - 17) name @ ''-'' @ digest name) \<and>
    (label_value_max K < length name \<longrightarrow> label_value_max K < length other \<longrightarrow> labelValue K name = labelValue K other \<longrightarrow>
       take (label_value_max K - 17) name = take (label_value_max K - 17) other \<and> digest name = digest other) \<and>
    length (RuleName d) = 27 \<and> set (RuleName d) \<subseteq> set rulePrefix \<union> set ''0123456789abcdef''"
proof -
  have long: "labelValue K n = take (label_value_max K - 17) n @ ''-'' @ digest n" if "label_value_max K < length n" for n
    using that by (simp add: labelValue_def Let_def diff_diff_eq)
  have len: "length (take (label_value_max K - 17) n) = label_value_max K - 17" if "label_value_max K < length n" for n :: string
    using that by simp
  have "length (labelValue K name) = label_value_max K" if "label_value_max K < length name"
    using that assms by (simp add: long)
  moreover have "take (label_value_max K - 17) name = take (label_value_max K - 17) other \<and> digest name = digest other"
    if "label_value_max K < length name" "label_value_max K < length other" "labelValue K name = labelValue K other"
    using that(3) len [OF that(1)] len [OF that(2)] unfolding long [OF that(1)] long [OF that(2)]
    by (simp add: append_eq_append_conv)
  moreover have "labelValue K name = name" if "length name \<le> label_value_max K" using that by (simp add: labelValue_def)
  moreover have "length (RuleName d) = 27" by (simp add: RuleName_def rulePrefix_def)
  moreover have "set (RuleName d) \<subseteq> set rulePrefix \<union> set ''0123456789abcdef''"
    using set_digest [of "rule_key d"] unfolding RuleName_def set_append by blast
  ultimately show ?thesis using long by (cases "length name \<le> label_value_max K") auto
qed

theorem labelValue_fits_witness:
  "length (labelValue plain_kube (replicate 100 CHR ''m'')) = 63"
  using labelValue_fits [of plain_kube "replicate 100 CHR ''m''" "[]" "Device [] [] []"] by simp

text \<open>Two devices share a rule only when they are the same, as long as their digests differ: what is digested
  tells devices apart, even when a pool has slashes in its name.\<close>

theorem RuleName_tells_devices_apart:
  assumes "CHR 0x00 \<notin> set (d_driver a)" "CHR 0x00 \<notin> set (d_pool a)"
    and "CHR 0x00 \<notin> set (d_driver b)" "CHR 0x00 \<notin> set (d_pool b)" and "a \<noteq> b"
  shows "rule_key a \<noteq> rule_key b \<and> (RuleName a = RuleName b \<longleftrightarrow> digest (rule_key a) = digest (rule_key b))"
  using rule_key_inj [OF assms(1-4)] assms(5) by (auto simp: RuleName_def)

theorem RuleName_tells_devices_apart_witness:
  "rule_key (Device ''d'' ''a/b'' ''c'') \<noteq> rule_key (Device ''d'' ''a'' ''b/c'')"
  using RuleName_tells_devices_apart [of "Device ''d'' ''a/b'' ''c''" "Device ''d'' ''a'' ''b/c''"] by simp

end
