(* ===== verification/Rules.thy ===== *)
theory Rules
  imports Quarantine
begin

text \<open>
  The DeviceTaintRules of package \<open>quarantine\<close> (\<open>internal/quarantine/rules.go\<close>): making sure a device has its rule,
  reading a rule back, and finding the rules made for a Machine. The fields of \<open>Rules\<close>, its client, reader, mapper
  and clock, are in the environment. Rules are unstructured objects; what is read of them goes through the API
  machinery's readers of nested fields, which are parameters.
\<close>

section \<open>Rules\<close>

definition deviceTaintRuleKind :: group_kind where
  "deviceTaintRuleKind = (''resource.k8s.io'', ''DeviceTaintRule'')"

definition ruleVersions :: "string list" where
  "ruleVersions = [''v1'', ''v1beta2'']"

definition blockingEffects :: "string list" where
  "blockingEffects = [''NoSchedule'', ''NoExecute'']"

record owner =
  ow_namespace :: string
  ow_name :: string
  ow_cluster :: string

definition owner_text :: "owner \<Rightarrow> string" where
  "owner_text ow = ow_namespace ow @ ''/'' @ ow_name ow"

text \<open>The object of a rule: \<open>ruleFor\<close> with the time it reads.\<close>

definition rule_object :: "kube \<Rightarrow> string \<Rightarrow> device \<Rightarrow> owner \<Rightarrow> int \<Rightarrow> unstructured" where
  "rule_object K version d ow now = \<lparr>
     u_api_version = fst deviceTaintRuleKind @ ''/'' @ version, u_kind = snd deviceTaintRuleKind,
     u_namespace = [], u_name = RuleName d, u_uid = [], u_generation = 0, u_deletion_timestamp = None,
     u_labels = [ManagedByLabel \<mapsto> ManagedBy, MachineLabel \<mapsto> labelValue K (ow_name ow),
       MachineNamespaceLabel \<mapsto> labelValue K (ow_namespace ow), ClusterLabel \<mapsto> labelValue K (ow_cluster ow)],
     u_annotations = [MachineAnnotation \<mapsto> owner_text ow, DeviceAnnotation \<mapsto> device_string d,
       RequestedAtAnnotation \<mapsto> rfc3339 K now],
     u_content = JObject [(''spec'', JObject [
       (''deviceSelector'', JObject [(''driver'', JString (d_driver d)), (''pool'', JString (d_pool d)), (''device'', JString (d_name d))]),
       (''taint'', JObject [(''key'', JString TaintKey), (''value'', JString ''true''), (''effect'', JString ''NoSchedule'')])])]\<rparr>"

definition ruleFor :: "env \<Rightarrow> kube \<Rightarrow> string \<Rightarrow> device \<Rightarrow> owner \<Rightarrow> ((call, 'w) world_scheme, unstructured) state" where
  "ruleFor E K version d ow = do {
     now \<leftarrow> read_clock E;
     State_Monad.return (rule_object K version d ow now)
   }"

text \<open>What is read of a rule: the device its selector names, a missing entry read as empty, and its effect.\<close>

definition entry :: "(string \<times> string) list \<Rightarrow> string \<Rightarrow> string" where
  "entry kvs k = (case map_of kvs k of None \<Rightarrow> [] | Some v \<Rightarrow> v)"

definition rule_device :: "kube \<Rightarrow> unstructured \<Rightarrow> device" where
  "rule_device K rule = (let selector = nested_string_map K (u_content rule) [''spec'', ''deviceSelector'']
     in Device (entry selector ''driver'') (entry selector ''pool'') (entry selector ''device''))"

definition rule_effect :: "kube \<Rightarrow> unstructured \<Rightarrow> string" where
  "rule_effect K rule = string_or_empty (nested_string K (u_content rule) [''spec'', ''taint'', ''effect''])"

text \<open>A rule that keeps a device from being allocated.\<close>

definition keeps_out :: "kube \<Rightarrow> unstructured \<Rightarrow> device \<Rightarrow> bool" where
  "keeps_out K rule d \<longleftrightarrow> rule_device K rule = d \<and> rule_effect K rule \<in> set blockingEffects"

section \<open>Operations\<close>

definition rule_kind_text :: string where
  "rule_kind_text = snd deviceTaintRuleKind @ ''.'' @ fst deviceTaintRuleKind"

definition no_version :: go_error where
  "no_version = Rejection ReasonDeviceTaintRuleUnavailable (''the cluster serves '' @ rule_kind_text @
     '' in none of the versions '' @ join '', '' ruleVersions @ ''; Kubernetes 1.36 needs the DRADeviceTaintRules feature gate and the '' @
     fst deviceTaintRuleKind @ ''/v1beta2 API enabled'')"

fun find_kind :: "env \<Rightarrow> string list \<Rightarrow> ((call, 'w) world_scheme, go_error + string) state" where
  "find_kind E [] = State_Monad.return (Inl no_version)"
| "find_kind E (version # versions) = do {
     r \<leftarrow> ask (LookUpManagement deviceTaintRuleKind (Some version))
       (\<lambda>h. look_up_management E h deviceTaintRuleKind (Some version));
     (case r of
        Inr v \<Rightarrow> State_Monad.return (Inr v)
      | Inl err \<Rightarrow>
          if kind_of err \<noteq> NoMatch
          then State_Monad.return (Inl (Wrapped (''find '' @ rule_kind_text @ '' in '' @ version) err))
          else find_kind E versions)
   }"

definition rule_kind :: "env \<Rightarrow> ((call, 'w) world_scheme, go_error + string) state" where
  "rule_kind E = find_kind E ruleVersions"

definition conflicting_rule :: "device \<Rightarrow> go_error" where
  "conflicting_rule d = Rejection ReasonDeviceTaintRuleConflict (''DeviceTaintRule '' @ RuleName d @
     '' exists but does not taint '' @ device_string d @ '' with one of '' @ join '', '' blockingEffects)"

definition check :: "env \<Rightarrow> kube \<Rightarrow> string \<Rightarrow> device \<Rightarrow> ((call, 'w) world_scheme, go_error option) state" where
  "check E K version d = do {
     r \<leftarrow> ask (GetRule version (RuleName d)) (\<lambda>h. get_rule E h version (RuleName d));
     State_Monad.return (case r of
         Inl err \<Rightarrow> Some (if kind_of err = NotFound then err
           else Wrapped (''get DeviceTaintRule '' @ RuleName d @ '' for '' @ device_string d) err)
       | Inr rule \<Rightarrow> if keeps_out K rule d then None else Some (conflicting_rule d))
   }"

definition Ensure :: "env \<Rightarrow> kube \<Rightarrow> device \<Rightarrow> owner \<Rightarrow> ((call, 'w) world_scheme, go_error + bool) state" where
  "Ensure E K d ow = do {
     k \<leftarrow> rule_kind E;
     (case k of
        Inl err \<Rightarrow> State_Monad.return (Inl err)
      | Inr version \<Rightarrow> do {
          rule \<leftarrow> ruleFor E K version d ow;
          e \<leftarrow> ask (CreateRule rule) (\<lambda>h. create_rule E h rule);
          (case e of
             None \<Rightarrow> State_Monad.return (Inr True)
           | Some err \<Rightarrow>
               if kind_of err = AlreadyExists then do {
                 c \<leftarrow> check E K version d;
                 State_Monad.return (case c of None \<Rightarrow> Inr False | Some err \<Rightarrow> Inl err)
               }
               else State_Monad.return (Inl (Wrapped (''create DeviceTaintRule '' @ u_name rule @ '' for '' @ device_string d) err)))
        })
   }"

definition Exists :: "env \<Rightarrow> kube \<Rightarrow> device \<Rightarrow> ((call, 'w) world_scheme, go_error + bool) state" where
  "Exists E K d = do {
     k \<leftarrow> rule_kind E;
     (case k of
        Inl err \<Rightarrow> State_Monad.return (Inl err)
      | Inr version \<Rightarrow> do {
          c \<leftarrow> check E K version d;
          State_Monad.return (case c of
              None \<Rightarrow> Inr True
            | Some err \<Rightarrow> if kind_of err = NotFound then Inr False else Inl err)
        })
   }"

text \<open>The rules made for a Machine: those whose annotation has its whole name, that name a device in full, keep it
  out, and have that device's name.\<close>

definition made_for :: "kube \<Rightarrow> owner \<Rightarrow> unstructured \<Rightarrow> bool" where
  "made_for K ow rule \<longleftrightarrow>
     (case u_annotations rule MachineAnnotation of None \<Rightarrow> [] | Some v \<Rightarrow> v) = owner_text ow \<and>
     (let d = rule_device K rule
      in d_driver d \<noteq> [] \<and> d_pool d \<noteq> [] \<and> d_name d \<noteq> [] \<and> rule_effect K rule \<in> set blockingEffects \<and>
         u_name rule = RuleName d)"

definition rule_labels :: "kube \<Rightarrow> owner \<Rightarrow> (string \<times> string) list" where
  "rule_labels K ow = [(ManagedByLabel, ManagedBy), (MachineLabel, labelValue K (ow_name ow)),
     (MachineNamespaceLabel, labelValue K (ow_namespace ow))]"

definition devices_of_rules :: "kube \<Rightarrow> owner \<Rightarrow> unstructured list \<Rightarrow> device list" where
  "devices_of_rules K ow rules = sort (map (rule_device K) (filter (made_for K ow) rules))"

definition Of :: "env \<Rightarrow> kube \<Rightarrow> owner \<Rightarrow> ((call, 'w) world_scheme, go_error + device list) state" where
  "Of E K ow = do {
     k \<leftarrow> rule_kind E;
     (case k of
        Inl err \<Rightarrow> State_Monad.return (Inl err)
      | Inr version \<Rightarrow> do {
          r \<leftarrow> ask (ListRules version (rule_labels K ow)) (\<lambda>h. list_rules E h version (rule_labels K ow));
          State_Monad.return (case r of
              Inl err \<Rightarrow> Inl (Wrapped (''list the DeviceTaintRules of '' @ owner_text ow) err)
            | Inr rules \<Rightarrow> Inr (devices_of_rules K ow rules))
        })
   }"

definition Covers :: "device list \<Rightarrow> string list \<Rightarrow> bool" where
  "Covers devices names \<longleftrightarrow> devices \<noteq> [] \<and> (\<forall>name \<in> set names. \<exists>d \<in> set devices. d_name d = name)"

section \<open>What the calls show\<close>

text \<open>A read of a device's rule that finds it in place, a list of rules with one made for the Machine in it, and the
  calls that creating and reading rules may make.\<close>

fun confirms :: "kube \<Rightarrow> device \<Rightarrow> call \<Rightarrow> bool" where
  "confirms K d (GetRule _ name (Inr rule)) \<longleftrightarrow> name = RuleName d \<and> keeps_out K rule d"
| "confirms K d _ \<longleftrightarrow> False"

fun shows_rule :: "kube \<Rightarrow> owner \<Rightarrow> device \<Rightarrow> call \<Rightarrow> bool" where
  "shows_rule K ow d (ListRules _ _ (Inr rules)) \<longleftrightarrow> (\<exists>rule \<in> set rules. made_for K ow rule \<and> rule_device K rule = d)"
| "shows_rule K ow d _ \<longleftrightarrow> False"

fun rule_read :: "call \<Rightarrow> bool" where
  "rule_read (LookUpManagement _ _ _) = True"
| "rule_read (GetRule _ _ _) = True"
| "rule_read (ListRules _ _ _) = True"
| "rule_read (ReadClock _) = True"
| "rule_read _ = False"

definition rule_call :: "kube \<Rightarrow> device \<Rightarrow> owner \<Rightarrow> call \<Rightarrow> bool" where
  "rule_call K d ow c \<longleftrightarrow> rule_read c \<or> (\<exists>version now r. c = CreateRule (rule_object K version d ow now) r)"

lemma rule_read_no_write: "rule_read c \<Longrightarrow> \<not> is_write c"
  by (cases c) auto

lemma rule_call_CreateRule [simp]: "rule_call K d ow (CreateRule (rule_object K version d ow now) r)"
  by (auto simp: rule_call_def)

lemma rule_call_read [simp]: "rule_read c \<Longrightarrow> rule_call K d ow c"
  by (simp add: rule_call_def)

text \<open>The lookups: at most one for each version, the preferred one first.\<close>

lemma does_find_kind:
  "does (find_kind E versions) (\<lambda>r cs. list_all rule_read cs \<and> list_all (Not \<circ> confirms K d) cs \<and> length cs \<le> length versions)"
proof (induction versions)
  case Nil
  then show ?case by (simp add: does_return)
next
  case (Cons v vs)
  show ?case unfolding find_kind.simps
    by (intro does_rules; (rule does_mono [OF Cons.IH])?) auto
qed

lemma does_rule_kind:
  assumes "\<And>r cs. list_all rule_read cs \<Longrightarrow> list_all (Not \<circ> confirms K d) cs \<Longrightarrow> length cs \<le> 2 \<Longrightarrow> Q r cs"
  shows "does (rule_kind E) Q"
  unfolding rule_kind_def
  by (rule does_mono [OF does_find_kind [of E ruleVersions K d]]) (simp add: assms ruleVersions_def)

lemma does_check:
  assumes "\<And>r. Q (case r of
         Inl err \<Rightarrow> Some (if kind_of err = NotFound then err
           else Wrapped (''get DeviceTaintRule '' @ RuleName d @ '' for '' @ device_string d) err)
       | Inr rule \<Rightarrow> if keeps_out K rule d then None else Some (conflicting_rule d)) [GetRule version (RuleName d) r]"
  shows "does (check E K version d) Q"
  unfolding check_def by (intro does_rules) (use assms in simp)

lemma list_ex_Not: "list_all (Not \<circ> P) cs \<longleftrightarrow> \<not> list_ex P cs"
  by (auto simp: list_all_iff list_ex_iff)

text \<open>A device exists when its rule was read back, and creating it either created it or found it in place.\<close>

lemma does_Exists:
  "does (Exists E K d) (\<lambda>r cs. list_all rule_read cs \<and> (r = Inr True \<longleftrightarrow> list_ex (confirms K d) cs) \<and> length cs \<le> 3)"
  unfolding Exists_def
  by (intro does_rules does_rule_kind [where K = K and d = d] does_check)
     (auto simp: list_ex_Not conflicting_rule_def split: sum.splits if_splits)

lemma rule_reads_create_nothing: "list_all rule_read cs \<Longrightarrow> CreateRule rule r \<notin> set cs"
  by (induction cs) auto

lemma rule_reads_are_calls: "list_all rule_read cs \<Longrightarrow> list_all (rule_call K d ow) cs"
  by (auto simp: list_all_iff)

lemma does_Ensure:
  "does (Ensure E K d ow) (\<lambda>r cs. list_all (rule_call K d ow) cs \<and>
     (r = Inr True \<longleftrightarrow> (\<exists>version now. CreateRule (rule_object K version d ow now) None \<in> set cs)) \<and>
     (r = Inr False \<longrightarrow> list_ex (confirms K d) cs) \<and> length cs \<le> 5)"
  unfolding Ensure_def ruleFor_def read_clock_def
  by (intro does_rules does_rule_kind [where K = K and d = d] does_check)
     (auto simp: rule_reads_create_nothing rule_reads_are_calls split: sum.splits if_splits)

lemma does_Of:
  "does (Of E K ow) (\<lambda>r cs. list_all rule_read cs \<and>
     (\<forall>ds. r = Inr ds \<longrightarrow> sorted ds \<and> (\<forall>d \<in> set ds. list_ex (shows_rule K ow d) cs)) \<and> length cs \<le> 3)"
  unfolding Of_def
  by (intro does_rules does_rule_kind [where K = K and d = "Device [] [] []"])
     (auto simp: devices_of_rules_def split: sum.splits)

section \<open>The API server and its readers\<close>

text \<open>What is relied on of the readers of nested fields: a map of strings is read as it is, and a string too.\<close>

definition documented_readers :: "kube \<Rightarrow> bool" where
  "documented_readers K \<longleftrightarrow>
     (\<forall>j path kvs. field_at j path = Some (JObject (map (\<lambda>(k, v). (k, JString v)) kvs)) \<longrightarrow> nested_string_map K j path = kvs) \<and>
     (\<forall>j path v. field_at j path = Some (JString v) \<longrightarrow> nested_string K j path = Inr v)"

text \<open>What is relied on of the API server: a rule that was created is there under its name, and another by that name
  cannot be created. Only an operator deletes rules.\<close>

fun first_created :: "call list \<Rightarrow> string \<Rightarrow> unstructured option" where
  "first_created [] name = None"
| "first_created (CreateRule rule None # cs) name = (if u_name rule = name then Some rule else first_created cs name)"
| "first_created (_ # cs) name = first_created cs name"

definition documented_rules :: "env \<Rightarrow> bool" where
  "documented_rules E \<longleftrightarrow> (\<forall>h name rule. first_created h name = Some rule \<longrightarrow>
     (\<forall>version. get_rule E h version name = Inr rule) \<and>
     (\<forall>rule'. u_name rule' = name \<longrightarrow> (\<exists>msg. create_rule E h rule' = Some (ApiError AlreadyExists msg))))"

lemma documented_rulesD:
  assumes "documented_rules E" and "first_created h name = Some rule"
  shows "get_rule E h version name = Inr rule"
    and "u_name rule' = name \<Longrightarrow> \<exists>msg. create_rule E h rule' = Some (ApiError AlreadyExists msg)"
  using assms unfolding documented_rules_def by blast+

definition serves_v1 :: "env \<Rightarrow> bool" where
  "serves_v1 E \<longleftrightarrow> (\<forall>h. look_up_management E h deviceTaintRuleKind (Some ''v1'') = Inr ''v1'')"

abbreviation v1_lookup :: call where
  "v1_lookup \<equiv> LookUpManagement deviceTaintRuleKind (Some ''v1'') (Inr ''v1'')"

lemma run_rule_kind:
  "serves_v1 E \<Longrightarrow> run_state (rule_kind E) s = (Inr ''v1'', s\<lparr>history := history s @ [v1_lookup]\<rparr>)"
  by (simp add: rule_kind_def ruleVersions_def serves_v1_def)

lemma Ensure_in_place:
  assumes "serves_v1 E" and "\<And>cs now. \<exists>msg. create_rule E (history s @ cs) (rule_object K ''v1'' d ow now) = Some (ApiError AlreadyExists msg)"
    and "\<And>cs. get_rule E (history s @ cs) ''v1'' (RuleName d) = Inr rule" and "keeps_out K rule d"
  shows "\<exists>cs. run_state (Ensure E K d ow) s = (Inr False, s\<lparr>history := history s @ cs\<rparr>)"
proof -
  let ?t = "clock E (history s @ [v1_lookup])"
  obtain msg where "create_rule E (history s @ [v1_lookup, ReadClock ?t]) (rule_object K ''v1'' d ow ?t) = Some (ApiError AlreadyExists msg)"
    using assms(2) by blast
  then show ?thesis using assms(3,4)
    by (intro exI [of _ "[v1_lookup, ReadClock ?t, CreateRule (rule_object K ''v1'' d ow ?t) (Some (ApiError AlreadyExists msg)),
        GetRule ''v1'' (RuleName d) (Inr rule)]"]) (simp add: Ensure_def run_rule_kind [OF assms(1)] ruleFor_def check_def)
qed

lemma string_entries_map [simp]: "string_entries (map (\<lambda>(k, v). (k, JString v)) kvs) = kvs"
  by (induction kvs) (auto simp: string_entries_def split: if_splits)

lemma plain_kube_readers: "documented_readers plain_kube"
  by (simp add: documented_readers_def)

lemma first_created_append:
  "first_created (cs @ ds) name = (case first_created cs name of None \<Rightarrow> first_created ds name | Some rule \<Rightarrow> Some rule)"
  by (induction cs name rule: first_created.induct) simp_all

lemma u_name_rule_object [simp]: "u_name (rule_object K version d ow now) = RuleName d"
  by (simp add: rule_object_def)

lemma rule_object_device:
  assumes "documented_readers K"
  shows "rule_device K (rule_object K version d ow now) = d" "rule_effect K (rule_object K version d ow now) = ''NoSchedule''"
proof -
  let ?j = "u_content (rule_object K version d ow now)"
  have "field_at ?j [''spec'', ''deviceSelector''] =
      Some (JObject (map (\<lambda>(k, v). (k, JString v)) [(''driver'', d_driver d), (''pool'', d_pool d), (''device'', d_name d)]))"
    "field_at ?j [''spec'', ''taint'', ''effect''] = Some (JString ''NoSchedule'')"
    by (simp_all add: rule_object_def)
  with assms have "nested_string_map K ?j [''spec'', ''deviceSelector''] =
      [(''driver'', d_driver d), (''pool'', d_pool d), (''device'', d_name d)]"
    "nested_string K ?j [''spec'', ''taint'', ''effect''] = Inr ''NoSchedule''"
    unfolding documented_readers_def by blast+
  then show "rule_device K (rule_object K version d ow now) = d" "rule_effect K (rule_object K version d ow now) = ''NoSchedule''"
    by (simp_all add: rule_device_def rule_effect_def entry_def string_or_empty_def Let_def)
qed

lemma rule_object_keeps_out: "documented_readers K \<Longrightarrow> keeps_out K (rule_object K version d ow now) d"
  by (simp add: keeps_out_def rule_object_device blockingEffects_def)

lemma rule_object_made_for:
  assumes "documented_readers K" and "d_driver d \<noteq> []" "d_pool d \<noteq> []" "d_name d \<noteq> []"
  shows "made_for K ow' (rule_object K version d ow now) \<longleftrightarrow> owner_text ow' = owner_text ow"
proof -
  have "u_annotations (rule_object K version d ow now) MachineAnnotation = Some (owner_text ow)"
    by (simp add: rule_object_def MachineAnnotation_def DeviceAnnotation_def RequestedAtAnnotation_def)
  then show ?thesis using assms by (auto simp: made_for_def rule_object_device blockingEffects_def Let_def)
qed

section \<open>Properties\<close>

text \<open>C27: A rule written for a device is read back as a rule that keeps that very device from being allocated, and it is
  found again for the Machine it was written for, by its labels, its annotation and its name, and for no other.\<close>

theorem rule_roundtrip:
  assumes "documented_readers K" and "d_driver d \<noteq> []" "d_pool d \<noteq> []" "d_name d \<noteq> []"
  shows "keeps_out K (rule_object K version d ow now) d \<and>
    (\<forall>d'. keeps_out K (rule_object K version d ow now) d' \<longrightarrow> d' = d) \<and>
    (\<forall>kv \<in> set (rule_labels K ow). u_labels (rule_object K version d ow now) (fst kv) = Some (snd kv)) \<and>
    devices_of_rules K ow' [rule_object K version d ow now] = (if owner_text ow' = owner_text ow then [d] else [])"
proof -
  have "\<forall>d'. keeps_out K (rule_object K version d ow now) d' \<longrightarrow> d' = d"
    using assms by (auto simp: keeps_out_def rule_object_device)
  moreover have "\<forall>kv \<in> set (rule_labels K ow). u_labels (rule_object K version d ow now) (fst kv) = Some (snd kv)"
    by (simp add: rule_labels_def rule_object_def ManagedByLabel_def MachineLabel_def MachineNamespaceLabel_def
        ClusterLabel_def AnnotationPrefix_def)
  ultimately show ?thesis using assms
    by (simp add: rule_object_keeps_out devices_of_rules_def rule_object_made_for rule_object_device)
qed

definition example_device :: device where
  "example_device = Device ''gpu.nvidia.com'' ''host-1'' ''gpu-3''"

definition example_owner :: owner where
  "example_owner = \<lparr>ow_namespace = ''ns'', ow_name = ''m'', ow_cluster = ''c''\<rparr>"

theorem rule_roundtrip_witness:
  "devices_of_rules plain_kube example_owner [rule_object plain_kube ''v1'' example_device example_owner 7] = [example_device]"
  using rule_roundtrip [OF plain_kube_readers, of example_device] by (simp add: example_device_def)

text \<open>C25: Once a device's rule was created, reading it back finds the device quarantined, and asking for it again, for
  whatever Machine, creates nothing: a request that is carried out twice leaves one rule, with the Machine it was made
  for first.\<close>

theorem Ensure_once:
  assumes "documented_readers K" and "documented_rules E" and "serves_v1 E"
    and "run_state (Ensure E K d ow) s = (Inr True, s1)"
    and "run_state (do { a \<leftarrow> Exists E K d; b \<leftarrow> Ensure E K d ow'; State_Monad.return (a, b) }) s1 = ((a, b), s2)"
  shows "a = Inr True \<and> b = Inr False \<and> first_created (history s2) (RuleName d) = first_created (history s1) (RuleName d)"
proof -
  let ?h = "history s @ [v1_lookup]"
  let ?t = "clock E ?h"
  let ?r = "rule_object K ''v1'' d ow ?t"
  have created: "create_rule E (?h @ [ReadClock ?t]) ?r = None"
    using assms(4) by (cases "create_rule E (?h @ [ReadClock ?t]) ?r")
      (simp_all add: Ensure_def run_rule_kind [OF assms(3)] ruleFor_def check_def split: option.splits if_splits sum.splits)
  with assms(4) have "s1 = s\<lparr>history := ?h @ [ReadClock ?t, CreateRule ?r None]\<rparr>"
    by (simp add: Ensure_def run_rule_kind [OF assms(3)] ruleFor_def)
  then have s1: "history s1 = ?h @ [ReadClock ?t, CreateRule ?r None]" by simp
  have "first_created (?h @ [ReadClock ?t]) (RuleName d) = None"
  proof (rule ccontr)
    assume "first_created (?h @ [ReadClock ?t]) (RuleName d) \<noteq> None"
    then obtain rule where "first_created (?h @ [ReadClock ?t]) (RuleName d) = Some rule" by blast
    then show False using documented_rulesD(2) [OF assms(2), of "?h @ [ReadClock ?t]" "RuleName d" rule ?r] created by simp
  qed
  then have kept: "first_created (history s1 @ cs) (RuleName d) = Some ?r" for cs
    by (simp add: s1 first_created_append split: option.splits)
  have get: "get_rule E (history s1 @ cs) ''v1'' (RuleName d) = Inr ?r"
    and create: "\<exists>msg. create_rule E (history s1 @ cs) (rule_object K version d ow' now) = Some (ApiError AlreadyExists msg)" for cs version now
    using documented_rulesD [OF assms(2) kept] by simp_all
  have out: "keeps_out K ?r d" by (rule rule_object_keeps_out [OF assms(1)])
  have exists: "run_state (Exists E K d) s1 = (Inr True, s1\<lparr>history := history s1 @
      [v1_lookup, GetRule ''v1'' (RuleName d) (Inr ?r)]\<rparr>)"
    using get by (simp add: Exists_def run_rule_kind [OF assms(3)] check_def out)
  obtain cs where ensure: "run_state (Ensure E K d ow') (s1\<lparr>history := history s1 @
      [v1_lookup, GetRule ''v1'' (RuleName d) (Inr ?r)]\<rparr>) = (Inr False, s1\<lparr>history := history s1 @ cs\<rparr>)"
    using Ensure_in_place [OF assms(3), of "s1\<lparr>history := history s1 @ [v1_lookup, GetRule ''v1'' (RuleName d) (Inr ?r)]\<rparr>"
      K d ow' ?r] get create out by auto
  from assms(5) exists ensure have "a = Inr True" "b = Inr False" "s2 = s1\<lparr>history := history s1 @ cs\<rparr>" by auto
  then show ?thesis using kept [of cs] kept [of "[]"] by simp
qed

text \<open>An API server that keeps the rules created.\<close>

definition rule_server :: env where
  "rule_server = quiet_env\<lparr>
     create_rule := (\<lambda>h rule. case first_created h (u_name rule) of None \<Rightarrow> None | Some _ \<Rightarrow> Some (ApiError AlreadyExists ''exists'')),
     get_rule := (\<lambda>h _ name. case first_created h name of None \<Rightarrow> Inl not_found | Some rule \<Rightarrow> Inr rule)\<rparr>"

lemma rule_server_documented: "documented_rules rule_server" "serves_v1 rule_server"
  by (simp_all add: documented_rules_def serves_v1_def rule_server_def)

theorem Ensure_once_witness:
  "\<exists>s1 s2 :: call world. run_state (Ensure rule_server plain_kube example_device example_owner) \<lparr>history = []\<rparr> = (Inr True, s1) \<and>
     run_state (do { a \<leftarrow> Exists rule_server plain_kube example_device; b \<leftarrow> Ensure rule_server plain_kube example_device example_owner;
       State_Monad.return (a, b) }) s1 = ((Inr True, Inr False), s2)"
proof -
  obtain s1 :: "call world" where run: "run_state (Ensure rule_server plain_kube example_device example_owner) \<lparr>history = []\<rparr> = (Inr True, s1)"
    by (simp add: Ensure_def rule_kind_def ruleVersions_def ruleFor_def rule_server_def)
  obtain a b s2 where again: "run_state (do { a \<leftarrow> Exists rule_server plain_kube example_device;
       b \<leftarrow> Ensure rule_server plain_kube example_device example_owner; State_Monad.return (a, b) }) s1 = ((a, b), s2)"
    by (metis prod.exhaust)
  from Ensure_once [OF plain_kube_readers rule_server_documented run again] run again show ?thesis by blast
qed

end
