(* ===== verification/Locator.thy ===== *)
theory Locator
  imports Quarantine
begin

text \<open>
  Finding the devices of a Machine (\<open>internal/quarantine/locator.go\<close>): the interface \<open>Locator\<close>, a locale, and
  \<open>KubeVirtLocator\<close>, which follows a Machine to its KubevirtMachine, the VM's instance, the pods that run it, their
  ResourceClaims and the devices allocated to those.
\<close>

section \<open>The interface\<close>

text \<open>A locator only reads, and lists devices in order and without repeats.\<close>

fun locator_read :: "call \<Rightarrow> bool" where
  "locator_read (LookUpManagement _ _ _) = True"
| "locator_read (GetObject _ _ _ _ _) = True"
| "locator_read (ListPods _ _ _) = True"
| "locator_read (GetClaim _ _ _) = True"
| "locator_read _ = False"

locale device_locator =
  fixes Devices :: "cluster \<Rightarrow> machine \<Rightarrow> ((call, 'w) world_scheme, go_error + device list) state"
  assumes reads: "emits locator_read (Devices c m)"
    and in_order: "yields (\<lambda>r. \<forall>ds. r = Inr ds \<longrightarrow> sorted ds \<and> distinct ds) (Devices c m)"

section \<open>Names\<close>

definition infrastructure_group :: string where
  "infrastructure_group = ''infrastructure.cluster.x-k8s.io''"

definition kubevirtMachineKind :: group_kind where
  "kubevirtMachineKind = (infrastructure_group, ''KubevirtMachine'')"

definition kubevirtClusterKind :: group_kind where
  "kubevirtClusterKind = (infrastructure_group, ''KubevirtCluster'')"

definition vmiKind :: group_kind where
  "vmiKind = (''kubevirt.io'', ''VirtualMachineInstance'')"

definition vmiRunning :: string where
  "vmiRunning = ''Running''"

section \<open>Reading an object\<close>

text \<open>\<open>get\<close>: the object in the version the cluster prefers, \<open>None\<close> when it does not exist.\<close>

definition get_preferred ::
  "env \<Rightarrow> group_kind \<Rightarrow> string \<Rightarrow> string \<Rightarrow> ((call, 'w) world_scheme, go_error + unstructured option) state" where
  "get_preferred E gk ns name = do {
     v \<leftarrow> ask (LookUpManagement gk None) (\<lambda>h. look_up_management E h gk None);
     (case v of
        Inl err \<Rightarrow> State_Monad.return (Inl (if kind_of err = NoMatch
          then Rejection ReasonNotKubeVirt (''the cluster does not serve '' @ snd gk @ ''.'' @ fst gk)
          else Wrapped (''find the version of '' @ snd gk @ ''.'' @ fst gk) err))
      | Inr version \<Rightarrow> do {
          r \<leftarrow> ask (GetObject gk version ns name) (\<lambda>h. get_object E h gk version ns name);
          State_Monad.return (case r of
              Inl err \<Rightarrow> if kind_of err = NotFound then Inr None
                else Inl (Wrapped (''get '' @ snd gk @ '' '' @ ns @ ''/'' @ name) err)
            | Inr obj \<Rightarrow> Inr (Some obj))
        })
   }"

section \<open>Where the VM runs\<close>

definition hasSecretRef :: "kube \<Rightarrow> unstructured \<Rightarrow> bool" where
  "hasSecretRef K obj = (case nested_map K (u_content obj) [''spec'', ''infraClusterSecretRef''] of
     None \<Rightarrow> False | Some ref \<Rightarrow> ref \<noteq> [])"

definition externalInfra ::
  "env \<Rightarrow> kube \<Rightarrow> cluster \<Rightarrow> unstructured \<Rightarrow> ((call, 'w) world_scheme, go_error + string) state" where
  "externalInfra E K cluster kvm =
     (if hasSecretRef K kvm then State_Monad.return (Inr (snd kubevirtMachineKind))
      else let ref = c_infrastructure cluster
      in if ref_group ref \<noteq> fst kubevirtClusterKind \<or> ref_kind ref \<noteq> snd kubevirtClusterKind
         then State_Monad.return (Inr [])
         else do {
           r \<leftarrow> get_preferred E kubevirtClusterKind (c_namespace cluster) (ref_name ref);
           State_Monad.return (case r of
               Inl err \<Rightarrow> Inl err
             | Inr None \<Rightarrow> Inr []
             | Inr (Some kvc) \<Rightarrow> Inr (if hasSecretRef K kvc then snd kubevirtClusterKind else []))
         })"

section \<open>The claims of its pods\<close>

definition add_claim :: "string option \<Rightarrow> string list \<Rightarrow> string list" where
  "add_claim name claims = (case name of None \<Rightarrow> claims | Some n \<Rightarrow> if n \<noteq> [] then append_new n claims else claims)"

definition pod_counts :: "(string \<times> string) list \<Rightarrow> pod \<Rightarrow> bool" where
  "pod_counts active p \<longleftrightarrow> p_phase p \<noteq> ''Succeeded'' \<and> p_phase p \<noteq> ''Failed'' \<and>
     (active = [] \<or> map_of active (p_uid p) \<noteq> None)"

definition claims_of_pods :: "(string \<times> string) list \<Rightarrow> pod list \<Rightarrow> string list" where
  "claims_of_pods active pods = fold (\<lambda>p claims.
     if pod_counts active p then fold add_claim (p_claims p @ p_claim_statuses p) claims else claims) pods []"

definition active_pods :: "kube \<Rightarrow> unstructured \<Rightarrow> (string \<times> string) list" where
  "active_pods K vmi = nested_string_map K (u_content vmi) [''status'', ''activePods'']"

definition claimsOf :: "env \<Rightarrow> kube \<Rightarrow> unstructured \<Rightarrow> ((call, 'w) world_scheme, go_error + string list) state" where
  "claimsOf E K vmi = do {
     r \<leftarrow> ask (ListPods (u_namespace vmi) (u_uid vmi)) (\<lambda>h. list_pods E h (u_namespace vmi) (u_uid vmi));
     State_Monad.return (case r of
         Inl err \<Rightarrow> Inl (Wrapped (''list the virt-launcher pods of '' @ u_namespace vmi @ ''/'' @ u_name vmi) err)
       | Inr pods \<Rightarrow> Inr (claims_of_pods (active_pods K vmi) pods))
   }"

section \<open>The devices of its claims\<close>

definition add_result :: "allocated \<Rightarrow> device list \<Rightarrow> device list" where
  "add_result res devices =
     (if a_admin_access res = Some True then devices
      else append_new (Device (a_driver res) (a_pool res) (a_device res)) devices)"

definition add_claim_devices :: "claim \<Rightarrow> device list \<Rightarrow> device list" where
  "add_claim_devices cl devices =
     (case cl_allocation cl of None \<Rightarrow> devices | Some results \<Rightarrow> fold add_result results devices)"

fun read_claims ::
  "env \<Rightarrow> string \<Rightarrow> string list \<Rightarrow> device list \<Rightarrow> ((call, 'w) world_scheme, go_error + device list) state" where
  "read_claims E ns [] devices = State_Monad.return (Inr devices)"
| "read_claims E ns (name # names) devices = do {
     r \<leftarrow> ask (GetClaim ns name) (\<lambda>h. get_claim E h ns name);
     (case r of
        Inl err \<Rightarrow>
          if kind_of err = NotFound then read_claims E ns names devices
          else State_Monad.return (Inl (Wrapped (''get ResourceClaim '' @ ns @ ''/'' @ name) err))
      | Inr cl \<Rightarrow> read_claims E ns names (add_claim_devices cl devices))
   }"

section \<open>The devices of a Machine\<close>

definition vm_phase :: "kube \<Rightarrow> unstructured \<Rightarrow> string" where
  "vm_phase K vmi = string_or_empty (nested_string K (u_content vmi) [''status'', ''phase''])"

definition not_there :: "string \<Rightarrow> string \<Rightarrow> string \<Rightarrow> go_error" where
  "not_there ns name what = Rejection ReasonNoDevices (''the Machine's VM '' @ ns @ ''/'' @ name @ '' '' @ what)"

text \<open>From the instance of the VM on, and from the KubevirtMachine on.\<close>

definition devices_of_vmi ::
  "env \<Rightarrow> kube \<Rightarrow> string \<Rightarrow> unstructured \<Rightarrow> ((call, 'w) world_scheme, go_error + device list) state" where
  "devices_of_vmi E K ns vmi = do {
     c \<leftarrow> claimsOf E K vmi;
     (case c of
        Inl err \<Rightarrow> State_Monad.return (Inl err)
      | Inr claims \<Rightarrow> do {
          r \<leftarrow> read_claims E ns claims [];
          State_Monad.return (case r of Inl err \<Rightarrow> Inl err | Inr devices \<Rightarrow> Inr (sort devices))
        })
   }"

definition vm_namespace :: "kube \<Rightarrow> unstructured \<Rightarrow> go_error + string" where
  "vm_namespace K kvm =
     (case nested_string K (u_content kvm) [''spec'', ''virtualMachineTemplate'', ''metadata'', ''namespace''] of
        Inl err \<Rightarrow> Inl (Wrapped (''read the VM namespace of '' @ snd kubevirtMachineKind @ '' '' @ u_namespace kvm @ ''/'' @ u_name kvm) err)
      | Inr ns \<Rightarrow> Inr (if ns = [] then u_namespace kvm else ns))"

definition devices_of_machine ::
  "env \<Rightarrow> kube \<Rightarrow> cluster \<Rightarrow> unstructured \<Rightarrow> ((call, 'w) world_scheme, go_error + device list) state" where
  "devices_of_machine E K cluster kvm = do {
     ext \<leftarrow> externalInfra E K cluster kvm;
     (case ext of
        Inl err \<Rightarrow> State_Monad.return (Inl err)
      | Inr external \<Rightarrow>
          if external \<noteq> [] then State_Monad.return (Inl (Rejection ReasonExternalInfraCluster
            (''the Machine's VM runs in the cluster of the '' @ external @ [CHR 0x27] @ ''s infraClusterSecretRef'')))
          else (case vm_namespace K kvm of
             Inl err \<Rightarrow> State_Monad.return (Inl err)
           | Inr ns \<Rightarrow> do {
               r \<leftarrow> get_preferred E vmiKind ns (u_name kvm);
               (case r of
                  Inl err \<Rightarrow> State_Monad.return (Inl err)
                | Inr None \<Rightarrow> State_Monad.return (Inl (not_there ns (u_name kvm) ''is not running''))
                | Inr (Some vmi) \<Rightarrow>
                    if u_deletion_timestamp vmi \<noteq> None
                    then State_Monad.return (Inl (not_there ns (u_name kvm) ''is being deleted''))
                    else if vm_phase K vmi \<noteq> vmiRunning
                    then State_Monad.return (Inl (not_there ns (u_name kvm)
                      (''is not running (phase '' @ quote K (vm_phase K vmi) @ '')'')))
                    else devices_of_vmi E K ns vmi)
             }))
   }"

definition Devices ::
  "env \<Rightarrow> kube \<Rightarrow> cluster \<Rightarrow> machine \<Rightarrow> ((call, 'w) world_scheme, go_error + device list) state" where
  "Devices E K cluster m =
     (let ref = m_infrastructure m
      in if ref_group ref \<noteq> fst kubevirtMachineKind \<or> ref_kind ref \<noteq> snd kubevirtMachineKind
         then State_Monad.return (Inl (Rejection ReasonNotKubeVirt (''the Machine's infrastructure is a '' @ ref_kind ref @
           '' of '' @ ref_group ref @ '', not a '' @ snd kubevirtMachineKind)))
         else do {
           r \<leftarrow> get_preferred E kubevirtMachineKind (m_namespace m) (ref_name ref);
           (case r of
              Inl err \<Rightarrow> State_Monad.return (Inl err)
            | Inr None \<Rightarrow> State_Monad.return (Inl (Rejection ReasonNoDevices
                (''the Machine's '' @ snd kubevirtMachineKind @ '' '' @ ref_name ref @ '' does not exist'')))
            | Inr (Some kvm) \<Rightarrow> devices_of_machine E K cluster kvm)
         })"

section \<open>What the calls show\<close>

text \<open>The devices a claim was read to hold: those allocated to it but not for monitoring only.\<close>

definition usable :: "claim \<Rightarrow> device set" where
  "usable cl = (case cl_allocation cl of None \<Rightarrow> {} | Some results \<Rightarrow>
     {Device (a_driver res) (a_pool res) (a_device res) | res. res \<in> set results \<and> a_admin_access res \<noteq> Some True})"

fun devices_read :: "call \<Rightarrow> device set" where
  "devices_read (GetClaim _ _ (Inr cl)) = usable cl"
| "devices_read _ = {}"

fun claim_asked :: "call \<Rightarrow> string option" where
  "claim_asked (GetClaim _ name _) = Some name"
| "claim_asked _ = None"

definition all_devices_read :: "call list \<Rightarrow> device set" where
  "all_devices_read cs = (\<Union>c \<in> set cs. devices_read c)"

definition claims_asked :: "call list \<Rightarrow> string list" where
  "claims_asked cs = List.map_filter claim_asked cs"

lemma all_devices_read_simps [simp]:
  "all_devices_read [] = {}" "all_devices_read (c # cs) = devices_read c \<union> all_devices_read cs"
  "all_devices_read (cs @ ds) = all_devices_read cs \<union> all_devices_read ds"
  by (auto simp: all_devices_read_def)

lemma claims_asked_simps [simp]:
  "claims_asked [] = []" "claims_asked (cs @ ds) = claims_asked cs @ claims_asked ds"
  "claims_asked (c # cs) = (case claim_asked c of None \<Rightarrow> claims_asked cs | Some name \<Rightarrow> name # claims_asked cs)"
  by (auto simp: claims_asked_def map_filter_def split: option.split)

lemma set_fold_add_result:
  "set (fold add_result results devices) = set devices \<union>
     {Device (a_driver res) (a_pool res) (a_device res) | res. res \<in> set results \<and> a_admin_access res \<noteq> Some True}"
  by (induction results arbitrary: devices) (auto simp: add_result_def)

lemma distinct_fold_add_result: "distinct devices \<Longrightarrow> distinct (fold add_result results devices)"
  by (induction results arbitrary: devices) (auto simp: add_result_def)

lemma set_add_claim_devices [simp]: "set (add_claim_devices cl devices) = set devices \<union> usable cl"
  by (auto simp: add_claim_devices_def usable_def set_fold_add_result split: option.split)

lemma distinct_add_claim_devices [simp]: "distinct devices \<Longrightarrow> distinct (add_claim_devices cl devices)"
  by (simp add: add_claim_devices_def distinct_fold_add_result split: option.split)

text \<open>The claims of the pods that count, each once.\<close>

lemma set_fold_add_claim: "set (fold add_claim names claims) = set claims \<union> {n. Some n \<in> set names \<and> n \<noteq> []}"
  by (induction names arbitrary: claims) (auto simp: add_claim_def split: option.splits if_splits)

lemma distinct_fold_add_claim: "distinct claims \<Longrightarrow> distinct (fold add_claim names claims)"
  by (induction names arbitrary: claims) (auto simp: add_claim_def split: option.splits)

lemma set_claims_of_pods:
  "set (claims_of_pods active pods) =
     {n. n \<noteq> [] \<and> (\<exists>p \<in> set pods. pod_counts active p \<and> (Some n \<in> set (p_claims p) \<or> Some n \<in> set (p_claim_statuses p)))}"
proof -
  have "set (fold (\<lambda>p claims. if pod_counts active p then fold add_claim (p_claims p @ p_claim_statuses p) claims else claims) pods claims) =
      set claims \<union> {n. n \<noteq> [] \<and> (\<exists>p \<in> set pods. pod_counts active p \<and> (Some n \<in> set (p_claims p) \<or> Some n \<in> set (p_claim_statuses p)))}"
    for claims
    by (induction pods arbitrary: claims) (auto simp: set_fold_add_claim)
  then show ?thesis by (simp add: claims_of_pods_def)
qed

lemma distinct_claims_of_pods: "distinct (claims_of_pods active pods)"
proof -
  have "distinct claims \<Longrightarrow> distinct (fold (\<lambda>p claims.
      if pod_counts active p then fold add_claim (p_claims p @ p_claim_statuses p) claims else claims) pods claims)" for claims
    by (induction pods arbitrary: claims) (auto simp: distinct_fold_add_claim)
  then show ?thesis by (simp add: claims_of_pods_def)
qed

section \<open>What each step reads\<close>

lemma does_get_preferred:
  "does (get_preferred E gk ns name) (\<lambda>r cs. list_all locator_read cs \<and> length cs \<le> 2 \<and> claims_asked cs = [] \<and> all_devices_read cs = {} \<and>
     (\<forall>obj. r = Inr (Some obj) \<longrightarrow> (\<exists>version. GetObject gk version ns name (Inr obj) \<in> set cs)))"
  unfolding get_preferred_def by (intro does_rules) (auto split: sum.splits if_splits)

lemma does_externalInfra:
  "does (externalInfra E K cluster kvm) (\<lambda>r cs. list_all locator_read cs \<and> length cs \<le> 2 \<and> claims_asked cs = [] \<and> all_devices_read cs = {} \<and>
     (r = Inr [] \<longrightarrow> \<not> hasSecretRef K kvm))"
  unfolding externalInfra_def Let_def
  by (intro does_rules; (rule does_mono [OF does_get_preferred])?; (intro does_rules)?)
     (auto simp: kubevirtMachineKind_def kubevirtClusterKind_def split: sum.splits option.splits if_splits)

lemma does_read_claims:
  "does (read_claims E ns names devices) (\<lambda>r cs. list_all locator_read cs \<and> length cs \<le> length names \<and>
     (\<forall>ds. r = Inr ds \<longrightarrow> claims_asked cs = names \<and> set ds = set devices \<union> all_devices_read cs \<and> (distinct devices \<longrightarrow> distinct ds)))"
proof (induction names arbitrary: devices)
  case Nil
  then show ?case by (simp add: does_return)
next
  case (Cons name names)
  show ?case unfolding read_claims.simps
    by (intro does_rules; (rule does_mono [OF Cons.IH])?) auto
qed

text \<open>The devices of an instance are exactly those its claims were read to hold.\<close>

definition shows_devices :: "kube \<Rightarrow> unstructured \<Rightarrow> device list \<Rightarrow> call list \<Rightarrow> bool" where
  "shows_devices K vmi ds cs \<longleftrightarrow> sorted ds \<and> distinct ds \<and> set ds = all_devices_read cs \<and>
     (\<exists>pods. ListPods (u_namespace vmi) (u_uid vmi) (Inr pods) \<in> set cs \<and>
        claims_asked cs = claims_of_pods (active_pods K vmi) pods)"

lemma does_devices_of_vmi:
  "does (devices_of_vmi E K ns vmi) (\<lambda>r cs. list_all locator_read cs \<and> (\<forall>ds. r = Inr ds \<longrightarrow> shows_devices K vmi ds cs))"
  unfolding devices_of_vmi_def claimsOf_def
  by (intro does_rules; (rule does_mono [OF does_read_claims])?; (intro does_rules)?)
     (auto simp: shows_devices_def split: sum.splits)

lemma does_devices_of_machine:
  "does (devices_of_machine E K cluster kvm) (\<lambda>r cs. list_all locator_read cs \<and> (\<forall>ds. r = Inr ds \<longrightarrow> \<not> hasSecretRef K kvm \<and>
     (\<exists>version ns vmi. GetObject vmiKind version ns (u_name kvm) (Inr vmi) \<in> set cs \<and>
        u_deletion_timestamp vmi = None \<and> vm_phase K vmi = vmiRunning \<and> shows_devices K vmi ds cs)))"
  unfolding devices_of_machine_def
  by (intro does_rules does_mono [OF does_externalInfra] does_mono [OF does_get_preferred] does_mono [OF does_devices_of_vmi]) (auto simp: shows_devices_def, blast)

lemma does_Devices:
  "does (Devices E K cluster m) (\<lambda>r cs. list_all locator_read cs \<and> (\<forall>ds. r = Inr ds \<longrightarrow>
     (\<exists>v1 kvm v2 ns vmi. GetObject kubevirtMachineKind v1 (m_namespace m) (ref_name (m_infrastructure m)) (Inr kvm) \<in> set cs \<and>
        \<not> hasSecretRef K kvm \<and> GetObject vmiKind v2 ns (u_name kvm) (Inr vmi) \<in> set cs \<and>
        u_deletion_timestamp vmi = None \<and> vm_phase K vmi = vmiRunning \<and> shows_devices K vmi ds cs)))"
  unfolding Devices_def Let_def
  by (intro does_rules does_mono [OF does_get_preferred] does_mono [OF does_devices_of_machine]) (auto simp: shows_devices_def, blast)

section \<open>The interpretation\<close>

lemma emits_Devices: "emits locator_read (Devices E K cluster m)"
  by (rule emits_does, rule does_mono [OF does_Devices]) blast

lemma yields_Devices: "yields (\<lambda>r. \<forall>ds. r = Inr ds \<longrightarrow> sorted ds \<and> distinct ds) (Devices E K cluster m)"
  by (rule yields_does, rule does_mono [OF does_Devices]) (auto simp: shows_devices_def)

interpretation kubevirt: device_locator "Devices E K" for E K
  by unfold_locales (rule emits_Devices yields_Devices)+

end
