(* ===== verification/Replace.thy ===== *)
theory Replace
  imports Actuator Rules Locator
begin

text \<open>
  The controller that replaces Machines on request (\<open>internal/controller/quarantine_controller.go\<close>): it quarantines
  the devices a Machine's workload holds and, once every rule is in place, deletes the Machine for its MachineSet to
  replace. What is configured is a record; the locator is an argument, as the interface it is in the code. The Machine
  is updated in place by a status patch, so operations return it.
\<close>

section \<open>Names and configuration\<close>

definition ActionQuarantine :: string where "ActionQuarantine = ''Quarantine''"
definition EventQuarantineRejected :: string where "EventQuarantineRejected = ''QuarantineRejected''"
definition EventDevicesQuarantined :: string where "EventDevicesQuarantined = ''DevicesQuarantined''"
definition EventMachineReplaced :: string where "EventMachineReplaced = ''MachineReplaced''"
definition QuarantineClusterPaused :: string where "QuarantineClusterPaused = ''ClusterPaused''"
definition QuarantineNotReplaceable :: string where "QuarantineNotReplaceable = ''NotReplaceable''"

text \<open>A second, in nanoseconds.\<close>

definition conflictRetry :: int where "conflictRetry = 1000000000"

record replace_config =
  q_drivers :: "string set"
  q_dry_run :: bool
  q_selector :: "(labels \<Rightarrow> bool) option"

type_synonym 'w locator = "cluster \<Rightarrow> machine \<Rightarrow> ((call, 'w) world_scheme, go_error + device list) state"

definition deviceList :: "device list \<Rightarrow> string" where
  "deviceList ds = join '', '' (map device_string ds)"

definition ruleList :: "device list \<Rightarrow> string" where
  "ruleList ds = join '', '' (map (\<lambda>d. device_string d @ '' ('' @ RuleName d @ '')'') ds)"

section \<open>Guards\<close>

definition cluster_api_group :: string where "cluster_api_group = ''cluster.x-k8s.io''"

definition ownedByMachineSet :: "kube \<Rightarrow> machine \<Rightarrow> bool" where
  "ownedByMachineSet K m = (case controller_of K (m_owners m) of
     None \<Rightarrow> False
   | Some ref \<Rightarrow> owner_kind ref = ''MachineSet'' \<and>
       (case parse_group_version K (owner_api_version ref) of None \<Rightarrow> False | Some gv \<Rightarrow> fst gv = cluster_api_group))"

definition skipped :: "skip_reason \<Rightarrow> string \<times> string" where
  "skipped skip = (skip_string skip, skip_Message skip)"

definition guardReplace :: "kube \<Rightarrow> cluster \<Rightarrow> machine \<Rightarrow> (string \<times> string) option" where
  "guardReplace K cluster m =
     (if is_paused_cluster K cluster then Some (QuarantineClusterPaused, ''the Cluster is paused'')
      else if IsControlPlane m then Some (skipped SkipControlPlane)
      else if IsMarkedForRemediation m then Some (skip_string SkipAlreadyMarked,
        ''the Machine is marked for remediation, so its VM may be restarted with other devices or replaced meanwhile; '' @
        ''ask again once the mark is gone'')
      else if IsPaused m then Some (skipped SkipPaused)
      else if IsOptedOut m then Some (skipped SkipOptedOut)
      else if \<not> ownedByMachineSet K m then Some (QuarantineNotReplaceable, ''no MachineSet owns the Machine, so nothing would replace it'')
      else None)"

section \<open>The status of a request\<close>

definition with_status :: "machine \<Rightarrow> string \<Rightarrow> machine" where
  "with_status m status = m\<lparr>m_annotations := (m_annotations m)(ReplaceStatusAnnotation := (if status = [] then None else Some status))\<rparr>"

definition setStatus :: "env \<Rightarrow> machine \<Rightarrow> string \<Rightarrow> ((call, 'w) world_scheme, go_error option \<times> machine) state" where
  "setStatus E m status =
     (let current = m_annotations m ReplaceStatusAnnotation
      in if (status = [] \<and> current = None) \<or> current = Some status then State_Monad.return (None, m)
         else do {
           r \<leftarrow> patch E m (with_status m status) True;
           State_Monad.return (case r of Inl err \<Rightarrow> (Some (patch_error m err), m) | Inr updated \<Rightarrow> (None, updated))
         })"

definition reject ::
  "env \<Rightarrow> kube \<Rightarrow> replace_config \<Rightarrow> machine \<Rightarrow> string \<Rightarrow> string \<Rightarrow> string \<Rightarrow>
   ((call, 'w) world_scheme, go_error option \<times> machine) state" where
  "reject E K cfg m request reason message = do {
     log_line Info ''replace request rejected'';
     (if q_dry_run cfg then State_Monad.return (None, m)
      else do {
        (e, m') \<leftarrow> setStatus E m (RejectedStatus reason);
        (case e of
           Some err \<Rightarrow> State_Monad.return (Some err, m')
         | None \<Rightarrow> do {
             emit_event (on_machine m') WarningEvent EventQuarantineRejected ActionQuarantine
               (EventNote (''Replace request '' @ quote K request @ '' rejected ('' @ reason @ ''): '' @ message));
             State_Monad.return (None, m')
           })
      })
   }"

definition fail ::
  "env \<Rightarrow> kube \<Rightarrow> replace_config \<Rightarrow> machine \<Rightarrow> string \<Rightarrow> go_error \<Rightarrow>
   ((call, 'w) world_scheme, go_error option \<times> machine) state" where
  "fail E K cfg m request err =
     (if kind_of err = Conflict then State_Monad.return (Some err, m)
      else (case rejection_of err of
          Some (reason, message) \<Rightarrow> reject E K cfg m request reason message
        | None \<Rightarrow>
            if kind_of err = Forbidden then reject E K cfg m request ReasonForbidden (error_text err)
            else State_Monad.return (Some err, m)))"

section \<open>Quarantining the devices\<close>

text \<open>The two loops over the devices: creating each rule, and reading each back. Either may end the request, with the
  error returned, if any, and the Machine.\<close>

fun ensure_rules ::
  "env \<Rightarrow> kube \<Rightarrow> replace_config \<Rightarrow> owner \<Rightarrow> machine \<Rightarrow> string \<Rightarrow> device list \<Rightarrow>
   ((call, 'w) world_scheme, (go_error option \<times> machine) option) state" where
  "ensure_rules E K cfg ow m request [] = State_Monad.return None"
| "ensure_rules E K cfg ow m request (d # ds) = do {
     r \<leftarrow> Ensure E K d ow;
     (case r of
        Inl err \<Rightarrow> do { res \<leftarrow> fail E K cfg m request err; State_Monad.return (Some res) }
      | Inr created \<Rightarrow> do {
          (if created then log_line Info ''device quarantined'' else State_Monad.return ());
          ensure_rules E K cfg ow m request ds
        })
   }"

definition missing_rule :: "device \<Rightarrow> go_error" where
  "missing_rule d = Plain (''DeviceTaintRule '' @ RuleName d @ '' for '' @ device_string d @ '' is missing right after it was made'')"

fun confirm_rules ::
  "env \<Rightarrow> kube \<Rightarrow> replace_config \<Rightarrow> machine \<Rightarrow> string \<Rightarrow> device list \<Rightarrow>
   ((call, 'w) world_scheme, (go_error option \<times> machine) option) state" where
  "confirm_rules E K cfg m request [] = State_Monad.return None"
| "confirm_rules E K cfg m request (d # ds) = do {
     r \<leftarrow> Exists E K d;
     (case r of
        Inl err \<Rightarrow> do { res \<leftarrow> fail E K cfg m request err; State_Monad.return (Some res) }
      | Inr ok \<Rightarrow>
          if \<not> ok then State_Monad.return (Some (Some (missing_rule d), m))
          else confirm_rules E K cfg m request ds)
   }"

definition owner_of :: "cluster \<Rightarrow> machine \<Rightarrow> owner" where
  "owner_of cluster m = \<lparr>ow_namespace = m_namespace m, ow_name = m_name m, ow_cluster = c_name cluster\<rparr>"

text \<open>The rules of the devices, from the status the request has: what \<open>quarantine\<close> does once it knows the devices.
  The result is what \<open>quarantine\<close> returns, with the Machine.\<close>

definition make_rules ::
  "env \<Rightarrow> kube \<Rightarrow> replace_config \<Rightarrow> cluster \<Rightarrow> machine \<Rightarrow> string \<Rightarrow> string \<Rightarrow> device list \<Rightarrow>
   ((call, 'w) world_scheme, go_error option \<times> device list \<times> machine) state" where
  "make_rules E K cfg cluster m request status devices = do {
     (e, m1) \<leftarrow> (if status \<noteq> StatusReplacing then setStatus E m StatusQuarantining else State_Monad.return (None, m));
     (case e of
        Some err \<Rightarrow> State_Monad.return (Some err, [], m1)
      | None \<Rightarrow> do {
          stop \<leftarrow> ensure_rules E K cfg (owner_of cluster m1) m1 request devices;
          (case stop of
             Some (e, m2) \<Rightarrow> State_Monad.return (e, [], m2)
           | None \<Rightarrow> do {
               stop \<leftarrow> confirm_rules E K cfg m1 request devices;
               (case stop of
                  Some (e, m2) \<Rightarrow> State_Monad.return (e, [], m2)
                | None \<Rightarrow> do {
                    (e, m2) \<leftarrow> (if status \<noteq> StatusReplacing then setStatus E m1 StatusReplacing else State_Monad.return (None, m1));
                    (case e of
                       Some err \<Rightarrow> State_Monad.return (Some err, [], m2)
                     | None \<Rightarrow> do {
                         emit_event (on_machine m2) WarningEvent EventDevicesQuarantined ActionQuarantine
                           (EventNote (''Quarantined with DeviceTaintRules: '' @ ruleList devices));
                         State_Monad.return (None, devices, m2)
                       })
                  })
             })
        })
   }"

definition quarantine ::
  "env \<Rightarrow> kube \<Rightarrow> replace_config \<Rightarrow> 'w locator \<Rightarrow> cluster \<Rightarrow> machine \<Rightarrow> string \<Rightarrow> string list \<Rightarrow> string \<Rightarrow>
   ((call, 'w) world_scheme, go_error option \<times> device list \<times> machine) state" where
  "quarantine E K cfg locator cluster m request names status = do {
     r \<leftarrow> locator cluster m;
     (case r of
        Inl err \<Rightarrow> do { (e, m') \<leftarrow> fail E K cfg m request err; State_Monad.return (e, [], m') }
      | Inr held \<Rightarrow>
          (case Select K held (q_drivers cfg) names of
             Inl err \<Rightarrow> do { (e, m') \<leftarrow> fail E K cfg m request err; State_Monad.return (e, [], m') }
           | Inr devices \<Rightarrow>
               if q_dry_run cfg then do {
                 log_line Info ''dry run: would quarantine the devices and delete the Machine for its MachineSet to replace'';
                 State_Monad.return (None, [], m)
               }
               else make_rules E K cfg cluster m request status devices))
   }"

section \<open>Carrying out a request\<close>

definition delete_machine_for ::
  "env \<Rightarrow> kube \<Rightarrow> replace_config \<Rightarrow> machine \<Rightarrow> string \<Rightarrow> device list \<Rightarrow> ((call, 'w) world_scheme, go_error option) state" where
  "delete_machine_for E K cfg m request devices = do {
     r \<leftarrow> ask (DeleteMachine m) (\<lambda>h. delete_machine E h m);
     (case r of
        Some err \<Rightarrow>
          if kind_of err = NotFound then State_Monad.return None
          else do {
            (e, _) \<leftarrow> fail E K cfg m request (Wrapped (''delete machine '' @ m_namespace m @ ''/'' @ m_name m) err);
            State_Monad.return e
          }
      | None \<Rightarrow> do {
          log_line Info ''Machine deleted for its MachineSet to replace'';
          emit_event (on_machine m) WarningEvent EventMachineReplaced ActionQuarantine
            (EventNote (''Deleted for its MachineSet to replace, with '' @ deviceList devices @ '' quarantined''));
          State_Monad.return None
        })
   }"

text \<open>The rules made before, when the request had got as far as \<open>StatusReplacing\<close>: the devices they quarantine when
  they cover the request, none otherwise, or an end to the request.\<close>

definition rules_made ::
  "env \<Rightarrow> kube \<Rightarrow> replace_config \<Rightarrow> cluster \<Rightarrow> machine \<Rightarrow> string \<Rightarrow> string list \<Rightarrow> string \<Rightarrow>
   ((call, 'w) world_scheme, go_error option + device list) state" where
  "rules_made E K cfg cluster m request names status =
     (if status \<noteq> StatusReplacing then State_Monad.return (Inr [])
      else do {
        r \<leftarrow> Of E K (owner_of cluster m);
        (case r of
           Inl err \<Rightarrow> do { (e, _) \<leftarrow> fail E K cfg m request err; State_Monad.return (Inl e) }
         | Inr made \<Rightarrow>
             if Covers made names then State_Monad.return (Inr made)
             else do {
               log_line Info ''the rules made for the Machine do not cover its request, carrying it out again'';
               State_Monad.return (Inr [])
             })
      })"

text \<open>A request whose Cluster was read and is one of the selector's.\<close>

definition carry_out ::
  "env \<Rightarrow> kube \<Rightarrow> replace_config \<Rightarrow> 'w locator \<Rightarrow> cluster \<Rightarrow> machine \<Rightarrow> string \<Rightarrow> string \<Rightarrow>
   ((call, 'w) world_scheme, go_error option) state" where
  "carry_out E K cfg locator cluster m request status =
     (case guardReplace K cluster m of
        Some (reason, message) \<Rightarrow> do { (e, _) \<leftarrow> reject E K cfg m request reason message; State_Monad.return e }
      | None \<Rightarrow> (case ParseRequest K request of
          Inl err \<Rightarrow> do { (e, _) \<leftarrow> fail E K cfg m request err; State_Monad.return e }
        | Inr names \<Rightarrow> do {
            d \<leftarrow> rules_made E K cfg cluster m request names status;
            (case d of
               Inl e \<Rightarrow> State_Monad.return e
             | Inr devices \<Rightarrow>
                 if devices = [] then do {
                   (e, devices, m') \<leftarrow> quarantine E K cfg locator cluster m request names status;
                   (if e \<noteq> None \<or> devices = [] then State_Monad.return e
                    else delete_machine_for E K cfg m' request devices)
                 }
                 else if q_dry_run cfg then do {
                   log_line Info ''dry run: would delete the Machine for its MachineSet to replace'';
                   State_Monad.return None
                 }
                 else delete_machine_for E K cfg m request devices)
          }))"

definition replace :: "env \<Rightarrow> kube \<Rightarrow> replace_config \<Rightarrow> 'w locator \<Rightarrow> machine \<Rightarrow> ((call, 'w) world_scheme, go_error option) state" where
  "replace E K cfg locator m =
     (let status = annotation m ReplaceStatusAnnotation
      in if deleting m then State_Monad.return None
         else (case m_annotations m ReplaceAnnotation of
            None \<Rightarrow>
              if status = [] \<or> q_dry_run cfg then State_Monad.return None
              else do { (e, _) \<leftarrow> setStatus E m []; State_Monad.return e }
          | Some request \<Rightarrow>
              if IsRejected status then do {
                log_line Debug ''replace request rejected before; remove the status annotation to try again'';
                State_Monad.return None
              }
              else do {
                c \<leftarrow> ask (GetCluster (m_namespace m, m_cluster m)) (\<lambda>h. get_cluster E h (m_namespace m, m_cluster m));
                (case c of
                   Inl err \<Rightarrow>
                     if kind_of err = NotFound then do {
                       log_line Debug ''the Machine's Cluster is not watched, leaving the replace request alone'';
                       State_Monad.return None
                     }
                     else State_Monad.return (Some (Wrapped (''get cluster '' @ m_namespace m @ ''/'' @ m_cluster m) err))
                 | Inr cluster \<Rightarrow>
                     if (case q_selector cfg of None \<Rightarrow> False | Some matches \<Rightarrow> \<not> matches (c_labels cluster))
                     then State_Monad.return None
                     else carry_out E K cfg locator cluster m request status)
              }))"

definition Reconcile_replace ::
  "env \<Rightarrow> kube \<Rightarrow> replace_config \<Rightarrow> 'w locator \<Rightarrow> string \<Rightarrow> string \<Rightarrow> ((call, 'w) world_scheme, go_error + int) state" where
  "Reconcile_replace E K cfg locator ns name = do {
     r \<leftarrow> ask (GetMachine ns name) (\<lambda>h. get_machine E h ns name);
     (case r of
        Inl err \<Rightarrow> State_Monad.return (case ignore_not_found (Some err) of None \<Rightarrow> Inr 0 | Some e \<Rightarrow> Inl e)
      | Inr m \<Rightarrow> do {
          e \<leftarrow> replace E K cfg locator m;
          (case e of
             None \<Rightarrow> State_Monad.return (Inr 0)
           | Some err \<Rightarrow>
               if kind_of err = Conflict then do {
                 log_line Debug ''the Machine changed while its replace request was carried out, evaluating it again'';
                 State_Monad.return (Inr conflictRetry)
               }
               else State_Monad.return (Inl err))
        })
   }"

section \<open>What wakes the controller\<close>

datatype machine_event =
  MachineCreated machine
| MachineUpdated machine machine
| MachineDeleted
| MachineGeneric

definition request_keys :: "string list" where
  "request_keys = [ReplaceAnnotation, ReplaceStatusAnnotation]"

fun replaceRequestChanged :: "machine_event \<Rightarrow> bool" where
  "replaceRequestChanged (MachineCreated m) \<longleftrightarrow> (\<exists>k \<in> set request_keys. m_annotations m k \<noteq> None)"
| "replaceRequestChanged (MachineUpdated old new) \<longleftrightarrow> (\<exists>k \<in> set request_keys. m_annotations old k \<noteq> m_annotations new k)"
| "replaceRequestChanged MachineDeleted = False"
| "replaceRequestChanged MachineGeneric = False"

section \<open>The life of a request\<close>

text \<open>What an operator sees of a request: not there, asked for, its rules being made, its Machine being replaced, or
  rejected; withdrawn while its status is still there; and the Machine gone.\<close>

datatype request_state = Idle | Withdrawn | Requested | Quarantining | Replacing | Rejected | Gone

definition request_state :: "machine \<Rightarrow> request_state" where
  "request_state m = (let status = annotation m ReplaceStatusAnnotation in
     case m_annotations m ReplaceAnnotation of
       None \<Rightarrow> if status = [] then Idle else Withdrawn
     | Some _ \<Rightarrow>
         if status = StatusQuarantining then Quarantining
         else if status = StatusReplacing then Replacing
         else if IsRejected status then Rejected
         else Requested)"

text \<open>The steps the controller may take it through.\<close>

inductive replace_step :: "request_state \<Rightarrow> request_state \<Rightarrow> bool" where
  begin_request: "replace_step Requested Quarantining"
| rules_in_place: "replace_step Quarantining Replacing"
| reject_request: "s \<in> {Requested, Quarantining, Replacing} \<Longrightarrow> replace_step s Rejected"
| forget_status: "replace_step Withdrawn Idle"
| delete_machine: "replace_step Replacing Gone"

inductive_cases from_Gone: "replace_step Gone s"
inductive_cases from_Idle: "replace_step Idle s"
inductive_cases from_Rejected: "replace_step Rejected s"
inductive_cases to_Gone: "replace_step s Gone"
inductive_simps replace_step_iff: "replace_step s t"

definition active :: "request_state \<Rightarrow> bool" where
  "active s \<longleftrightarrow> s = Requested \<or> s = Quarantining \<or> s = Replacing"

text \<open>
  The writes of a Machine in the calls made, as steps: each patch is made from the Machine as it was read or as the
  last patch returned it, with its resource version, and an accepted one is a step; so is an accepted deletion, after
  which the Machine is left alone.
\<close>

fun machine_write :: "call \<Rightarrow> bool" where
  "machine_write (PatchMachine _ _ _ _) = True"
| "machine_write (DeleteMachine _ _) = True"
| "machine_write _ = False"

inductive machine_run :: "machine \<Rightarrow> call list \<Rightarrow> machine option \<Rightarrow> bool" where
  finished: "machine_run m [] (Some m)"
| other_call: "\<not> machine_write c \<Longrightarrow> machine_run m cs x \<Longrightarrow> machine_run m (c # cs) x"
| patch_failed: "machine_run m cs x \<Longrightarrow> machine_run m (PatchMachine m u True (Inl e) # cs) x"
| patched: "replace_step (request_state m) (request_state m') \<Longrightarrow> machine_run m' cs x \<Longrightarrow>
    machine_run m (PatchMachine m u True (Inr m') # cs) x"
| delete_failed: "replace_step (request_state m) Gone \<Longrightarrow> machine_run m cs x \<Longrightarrow>
    machine_run m (DeleteMachine m (Some e) # cs) x"
| deleted: "replace_step (request_state m) Gone \<Longrightarrow> list_all (Not \<circ> machine_write) cs \<Longrightarrow>
    machine_run m (DeleteMachine m None # cs) None"

lemma machine_run_append:
  "machine_run m cs x \<Longrightarrow> x = Some m' \<Longrightarrow> machine_run m' ds y \<Longrightarrow> machine_run m (cs @ ds) y"
  by (induction rule: machine_run.induct) (auto intro: machine_run.intros)

lemma machine_run_other: "list_all (Not \<circ> machine_write) cs \<Longrightarrow> machine_run m cs (Some m)"
  by (induction cs) (auto intro: machine_run.intros)

lemma machine_run_other_append:
  "list_all (Not \<circ> machine_write) cs \<Longrightarrow> machine_run m ds x \<Longrightarrow> machine_run m (cs @ ds) x"
  using machine_run_append machine_run_other by blast

text \<open>Every accepted run of the concrete calls is a run of the abstract steps.\<close>

fun state_of :: "machine option \<Rightarrow> request_state" where
  "state_of (Some m) = request_state m"
| "state_of None = Gone"

lemma machine_run_refines: "machine_run m cs x \<Longrightarrow> replace_step\<^sup>*\<^sup>* (request_state m) (state_of x)"
  by (induction rule: machine_run.induct) (auto intro: converse_rtranclp_into_rtranclp)

lemma request_state_with_status:
  "m_annotations m ReplaceAnnotation = Some req \<Longrightarrow> request_state (with_status m StatusQuarantining) = Quarantining"
  "m_annotations m ReplaceAnnotation = Some req \<Longrightarrow> request_state (with_status m StatusReplacing) = Replacing"
  "m_annotations m ReplaceAnnotation = Some req \<Longrightarrow> request_state (with_status m (RejectedStatus reason)) = Rejected"
  "m_annotations m ReplaceAnnotation = None \<Longrightarrow> request_state (with_status m []) = Idle"
  by (simp_all add: request_state_def with_status_def annotation_def)

lemma request_state_Withdrawn:
  "m_annotations m ReplaceAnnotation = None \<Longrightarrow> annotation m ReplaceStatusAnnotation \<noteq> [] \<Longrightarrow> request_state m = Withdrawn"
  by (simp add: request_state_def)

lemma request_state_cong:
  "m_annotations m = m_annotations m' \<Longrightarrow> request_state m = request_state m'"
  by (simp add: request_state_def annotation_def)

lemma active_simps [simp]:
  "active Requested" "active Quarantining" "active Replacing" "\<not> active Idle" "\<not> active Withdrawn" "\<not> active Rejected" "\<not> active Gone"
  by (simp_all add: active_def)

lemma active_request: "active (request_state m) \<Longrightarrow> \<exists>req. m_annotations m ReplaceAnnotation = Some req"
  by (auto simp: active_def request_state_def Let_def split: option.splits if_splits)

lemma active_iff: "m_annotations m ReplaceAnnotation = Some req \<Longrightarrow>
    active (request_state m) \<longleftrightarrow> \<not> IsRejected (annotation m ReplaceStatusAnnotation)"
  by (auto simp: active_def request_state_def Let_def)

lemma request_state_Replacing_iff: "m_annotations m ReplaceAnnotation = Some req \<Longrightarrow>
    request_state m = Replacing \<longleftrightarrow> annotation m ReplaceStatusAnnotation = StatusReplacing"
  by (auto simp: request_state_def Let_def)

section \<open>Each operation is a run of the machine\<close>

text \<open>A run from a Machine that ends with the Machine returned.\<close>

definition runs_to :: "machine \<Rightarrow> call list \<Rightarrow> machine \<Rightarrow> bool" where
  "runs_to m cs m' \<longleftrightarrow> machine_run m cs (Some m')"

lemma runs_to_same [simp]: "runs_to m [] m"
  by (simp add: runs_to_def finished)

lemma runs_to_append: "runs_to m cs m' \<Longrightarrow> runs_to m' ds m'' \<Longrightarrow> runs_to m (cs @ ds) m''"
  unfolding runs_to_def using machine_run_append by blast

lemma runs_to_others: "list_all (Not \<circ> machine_write) cs \<Longrightarrow> runs_to m cs m"
  by (simp add: runs_to_def machine_run_other)

lemma runs_to_snoc: "runs_to m cs m' \<Longrightarrow> list_all (Not \<circ> machine_write) ds \<Longrightarrow> runs_to m (cs @ ds) m'"
  using runs_to_append runs_to_others by blast

lemma runs_to_cons: "\<not> machine_write c \<Longrightarrow> runs_to m cs m' \<Longrightarrow> runs_to m (c # cs) m'"
  by (simp add: runs_to_def other_call)

lemma does_patch_locked:
  assumes "documented_patch E" and "\<And>e. Q (Inl e) [PatchMachine b u True (Inl e)]"
    and "\<And>m. m_annotations m = m_annotations u \<Longrightarrow> m_namespace m = m_namespace u \<Longrightarrow> m_name m = m_name u \<Longrightarrow>
      Q (Inr m) [PatchMachine b u True (Inr m)]"
  shows "does (patch E b u True) Q"
  unfolding patch_def
proof (rule does_answer)
  fix h
  show "Q (patch_machine E h b u True) [PatchMachine b u True (patch_machine E h b u True)]"
  proof (cases "patch_machine E h b u True")
    case (Inl e)
    then show ?thesis by (simp add: assms(2))
  next
    case (Inr m)
    then have "m_annotations m = m_annotations u \<and> m_namespace m = m_namespace u \<and> m_name m = m_name u"
      using assms(1) unfolding documented_patch_def by blast
    with Inr show ?thesis by (simp add: assms(3))
  qed
qed

text \<open>The same Machine: a patch leaves its name and namespace.\<close>

definition same_machine :: "machine \<Rightarrow> machine \<Rightarrow> bool" where
  "same_machine m m' \<longleftrightarrow> m_namespace m' = m_namespace m \<and> m_name m' = m_name m \<and>
     (\<forall>k. k \<noteq> ReplaceStatusAnnotation \<longrightarrow> m_annotations m' k = m_annotations m k)"

lemma same_machine_refl [simp]: "same_machine m m"
  by (simp add: same_machine_def)

lemma same_machine_trans: "same_machine a b \<Longrightarrow> same_machine b c \<Longrightarrow> same_machine a c"
  by (simp add: same_machine_def)

lemma same_machine_request: "same_machine m m' \<Longrightarrow> m_annotations m' ReplaceAnnotation = m_annotations m ReplaceAnnotation"
  by (simp add: same_machine_def)

lemma same_machine_owner: "same_machine m m' \<Longrightarrow> owner_of c m' = owner_of c m"
  by (simp add: same_machine_def owner_of_def)

text \<open>An operation that leaves a request's Machine undeleted, with what each of them keeps.\<close>

fun is_delete :: "call \<Rightarrow> bool" where
  "is_delete (DeleteMachine _ _) = True"
| "is_delete _ = False"

definition leaves :: "machine \<Rightarrow> call list \<Rightarrow> machine \<Rightarrow> bool" where
  "leaves m cs m' \<longleftrightarrow> runs_to m cs m' \<and> same_machine m m' \<and> list_all (Not \<circ> is_delete) cs"

lemma delete_writes: "is_delete c \<Longrightarrow> machine_write c"
  by (cases c) auto

lemma leaves_append: "leaves m cs m' \<Longrightarrow> leaves m' ds m'' \<Longrightarrow> leaves m (cs @ ds) m''"
  by (auto simp: leaves_def intro: runs_to_append same_machine_trans)

lemma leaves_others: "list_all (Not \<circ> machine_write) cs \<Longrightarrow> leaves m cs m"
  by (auto simp: leaves_def runs_to_others list_all_iff dest: delete_writes)

lemma leaves_Nil [simp]: "leaves m [] m"
  by (rule leaves_others) simp

lemma leaves_cons: "\<not> machine_write c \<Longrightarrow> leaves m cs m' \<Longrightarrow> leaves m (c # cs) m'"
  by (auto simp: leaves_def intro: runs_to_cons dest: delete_writes)

lemma leaves_snoc: "leaves m cs m' \<Longrightarrow> \<not> machine_write c \<Longrightarrow> leaves m (cs @ [c]) m'"
  by (erule leaves_append) (simp add: leaves_cons)

lemma reads_no_machine_write:
  "list_all locator_read cs \<Longrightarrow> list_all (Not \<circ> machine_write) cs"
  "list_all rule_read cs \<Longrightarrow> list_all (Not \<circ> machine_write) cs"
  "list_all (rule_call K d ow) cs \<Longrightarrow> list_all (Not \<circ> machine_write) cs"
proof -
  have "\<not> machine_write c" if "locator_read c \<or> rule_call K d ow c" for c
    using that by (cases c) (auto simp: rule_call_def)
  then show "list_all locator_read cs \<Longrightarrow> list_all (Not \<circ> machine_write) cs"
    "list_all rule_read cs \<Longrightarrow> list_all (Not \<circ> machine_write) cs"
    "list_all (rule_call K d ow) cs \<Longrightarrow> list_all (Not \<circ> machine_write) cs"
    by (auto simp: list_all_iff)
qed

lemma does_setStatus:
  assumes "documented_patch E" and "status = [] \<Longrightarrow> annotation m ReplaceStatusAnnotation \<noteq> []"
    and "m_annotations m ReplaceStatusAnnotation \<noteq> Some status \<Longrightarrow> replace_step (request_state m) (request_state (with_status m status))"
  shows "does (setStatus E m status) (\<lambda>(e, m') cs. leaves m cs m' \<and>
    (e = None \<longrightarrow> request_state m' = request_state (with_status m status)))"
  unfolding setStatus_def Let_def
proof (intro does_rules does_patch_locked [OF assms(1)], goal_cases)
  case 1
  have "status \<noteq> []" if "m_annotations m ReplaceStatusAnnotation = Some status"
    using assms(2) that by (auto simp: annotation_def)
  with 1 have "m_annotations m ReplaceStatusAnnotation = (if status = [] then None else Some status)" by auto
  then have "(m_annotations m)(ReplaceStatusAnnotation := (if status = [] then None else Some status)) = m_annotations m"
    by (rule fun_upd_idem)
  then have "m_annotations (with_status m status) = m_annotations m"
    unfolding with_status_def by simp
  from request_state_cong [OF this] show ?case by simp
next
  case (2 e)
  then show ?case by (simp add: leaves_def runs_to_def patch_failed finished)
next
  case (3 m')
  from 3(2) have "request_state m' = request_state (with_status m status)" by (rule request_state_cong)
  moreover have "replace_step (request_state m) (request_state (with_status m status))" using 3(1) assms(3) by simp
  ultimately have "runs_to m [PatchMachine m (with_status m status) True (Inr m')] m'"
    unfolding runs_to_def by (intro patched finished) simp
  moreover have "same_machine m m'" using 3(2-4) by (simp add: same_machine_def with_status_def)
  ultimately show ?case using \<open>request_state m' = _\<close> by (simp add: leaves_def)
qed

lemma does_reject:
  assumes "documented_patch E" and "active (request_state m)"
  shows "does (reject E K cfg m request reason message) (\<lambda>(e, m') cs. leaves m cs m')"
proof -
  from active_request [OF assms(2)] obtain req where "m_annotations m ReplaceAnnotation = Some req" by blast
  then have "replace_step (request_state m) (request_state (with_status m (RejectedStatus reason)))"
    using assms(2) by (simp add: request_state_with_status replace_step_iff active_def)
  note set = does_setStatus [OF assms(1) _ this]
  show ?thesis unfolding reject_def log_line_def emit_event_def
    by (intro does_rules does_mono [OF set]) (simp_all add: leaves_cons leaves_snoc)
qed

lemma does_fail:
  assumes "documented_patch E" and "active (request_state m)"
  shows "does (fail E K cfg m request err) (\<lambda>(e, m') cs. leaves m cs m')"
  unfolding fail_def by (intro does_rules does_reject [OF assms]) auto

lemma does_ensure_rules:
  assumes "documented_patch E" and "active (request_state m)"
  shows "does (ensure_rules E K cfg ow m request ds) (\<lambda>r cs. leaves m cs (case r of None \<Rightarrow> m | Some (e, m') \<Rightarrow> m'))"
proof (induction ds)
  case Nil
  then show ?case by (simp add: does_return)
next
  case (Cons d ds)
  show ?case unfolding ensure_rules.simps log_line_def
    by (intro does_rules does_mono [OF does_Ensure] does_mono [OF does_fail [OF assms]] does_mono [OF Cons.IH])
      (auto intro!: leaves_cons leaves_append [OF leaves_others [OF reads_no_machine_write(3)]] split: option.splits)
qed

lemma does_confirm_rules:
  assumes "documented_patch E" and "active (request_state m)"
  shows "does (confirm_rules E K cfg m request ds) (\<lambda>r cs. leaves m cs (case r of None \<Rightarrow> m | Some (e, m') \<Rightarrow> m') \<and>
    (r = None \<longrightarrow> (\<forall>d \<in> set ds. list_ex (confirms K d) cs)))"
proof (induction ds)
  case Nil
  then show ?case by (simp add: does_return)
next
  case (Cons d ds)
  show ?case unfolding confirm_rules.simps
    by (intro does_rules does_mono [OF does_Exists] does_mono [OF does_fail [OF assms]] does_mono [OF Cons.IH])
      (auto intro!: leaves_append [OF leaves_others [OF reads_no_machine_write(2)]] split: option.splits
        intro: leaves_others reads_no_machine_write(2))
qed

text \<open>The rules of the devices: when any are returned, each was read back and the request has got as far as
  \<open>StatusReplacing\<close>.\<close>

lemma does_start:
  assumes "documented_patch E" and "active (request_state m)" and "status = annotation m ReplaceStatusAnnotation"
  shows "does (if status \<noteq> StatusReplacing then setStatus E m StatusQuarantining else State_Monad.return (None, m))
    (\<lambda>(e, m1) cs. leaves m cs m1 \<and> (e = None \<longrightarrow> request_state m1 = (if status = StatusReplacing then Replacing else Quarantining)))"
proof -
  obtain req where req: "m_annotations m ReplaceAnnotation = Some req" using active_request [OF assms(2)] by blast
  have replacing: "request_state m = Replacing \<longleftrightarrow> status = StatusReplacing"
    using request_state_Replacing_iff [OF req] assms(3) by simp
  have step: "replace_step (request_state m) (request_state (with_status m StatusQuarantining))"
    if "m_annotations m ReplaceStatusAnnotation \<noteq> Some StatusQuarantining" "status \<noteq> StatusReplacing"
  proof -
    from that(1) have "request_state m \<noteq> Quarantining" using req
      by (cases "m_annotations m ReplaceStatusAnnotation")
        (auto simp: request_state_def annotation_def Let_def quarantine_names_neq(5) [symmetric] split: if_splits)
    then show ?thesis using assms(2) replacing that(2)
      by (auto simp: request_state_with_status(1-3) [OF req] active_def intro: begin_request)
  qed
  show ?thesis
    by (intro does_rules does_mono [OF does_setStatus [OF assms(1)]])
      (use step replacing in \<open>simp_all add: request_state_with_status(1-3) [OF req] split: prod.splits\<close>)
qed

lemma does_finish:
  assumes "documented_patch E" and "request_state m = (if status = StatusReplacing then Replacing else Quarantining)"
  shows "does (if status \<noteq> StatusReplacing then setStatus E m StatusReplacing else State_Monad.return (None, m))
    (\<lambda>(e, m2) cs. leaves m cs m2 \<and> (e = None \<longrightarrow> request_state m2 = Replacing))"
proof -
  have "active (request_state m)" using assms(2) by (simp add: active_def)
  then obtain req where req: "m_annotations m ReplaceAnnotation = Some req" using active_request by blast
  show ?thesis
    by (intro does_rules does_mono [OF does_setStatus [OF assms(1)]])
      (use assms(2) in \<open>simp_all add: request_state_with_status(1-3) [OF req] rules_in_place split: prod.splits\<close>)
qed

lemma leaves_chain:
  assumes "leaves m a m1" and "leaves m1 b m1" and "leaves m1 c m1" and "leaves m1 d m2" and "\<not> machine_write e"
  shows "leaves m (a @ b @ c @ d @ [e]) m2"
  using leaves_append [OF assms(1) leaves_append [OF assms(2) leaves_append [OF assms(3) leaves_snoc [OF assms(4,5)]]]] by simp

lemma does_make_rules:
  assumes "documented_patch E" and "active (request_state m)" and "status = annotation m ReplaceStatusAnnotation"
  shows "does (make_rules E K cfg cluster m request status devices) (\<lambda>(e, ds, m') cs. leaves m cs m' \<and>
    (ds \<noteq> [] \<longrightarrow> e = None \<and> ds = devices \<and> request_state m' = Replacing \<and> (\<forall>d \<in> set ds. list_ex (confirms K d) cs)))"
proof -
  have active: "active (request_state m1)" if "request_state m1 = (if status = StatusReplacing then Replacing else Quarantining)" for m1
    using that by (simp add: active_def)
  show ?thesis
    unfolding make_rules_def emit_event_def
    by (intro does_bind does_return does_tell does_case_option does_case_prod does_mono [OF does_start [OF assms]]
        does_mono [OF does_ensure_rules [OF assms(1)]] does_mono [OF does_confirm_rules [OF assms(1)]]
        does_mono [OF does_finish [OF assms(1)]])
      (auto simp: active intro: leaves_append leaves_snoc leaves_chain)
qed

lemma deleted_run:
  "replace_step (request_state m) Gone \<Longrightarrow> list_all (Not \<circ> machine_write) cs \<Longrightarrow> \<exists>x. machine_run m (DeleteMachine m None # cs) x"
  using deleted by blast

lemma does_delete_machine_for:
  assumes "documented_patch E" and "request_state m = Replacing"
  shows "does (delete_machine_for E K cfg m request devices) (\<lambda>e cs. \<exists>r rest. cs = DeleteMachine m r # rest \<and>
    list_all (Not \<circ> is_delete) rest \<and> (\<exists>x. machine_run m cs x))"
proof -
  have active: "active (request_state m)" using assms(2) by simp
  have step: "replace_step (request_state m) Gone" using assms(2) by (simp add: delete_machine)
  show ?thesis
    unfolding delete_machine_for_def log_line_def emit_event_def
    by (intro does_rules does_mono [OF does_fail [OF assms(1) active]])
      (use step in \<open>auto simp: leaves_def runs_to_def intro: machine_run.intros intro!: deleted_run\<close>)
qed

text \<open>The rules found for the Machine.\<close>

lemma does_rules_made:
  assumes "documented_patch E" and "active (request_state m)"
  shows "does (rules_made E K cfg cluster m request names status) (\<lambda>r cs. \<exists>m'. leaves m cs m' \<and>
    (\<forall>ds. r = Inr ds \<longrightarrow> m' = m \<and> (ds \<noteq> [] \<longrightarrow> status = StatusReplacing \<and> Covers ds names \<and>
      (\<forall>d \<in> set ds. list_ex (shows_rule K (owner_of cluster m) d) cs))))"
proof -
  have reads: "leaves m cs m" if "list_all rule_read cs" for cs
    using that by (intro leaves_others reads_no_machine_write(2))
  show ?thesis
    unfolding rules_made_def log_line_def
    by (intro does_rules does_mono [OF does_Of] does_mono [OF does_fail [OF assms]])
      (auto intro: reads leaves_append leaves_snoc)
qed

lemma Select_covers:
  "Select K held drivers names = Inr ds \<Longrightarrow> Covers ds names \<and> (\<forall>d \<in> set ds. d_driver d \<in> drivers \<and> d \<in> set held)"
proof -
  assume sel: "Select K held drivers names = Inr ds"
  then have clear: "clear_request (held_devices held drivers) names" and ds: "set ds = asked_devices (held_devices held drivers) names"
    by (auto simp: Select_exact)
  have "\<exists>d \<in> set ds. d_name d = n" if "n \<in> set names" for n
  proof -
    from that have "names \<noteq> []" by auto
    then have "card {d \<in> held_devices held drivers. d_name d = n} = 1" using clear that by (auto simp: clear_request_def)
    then obtain d where "d \<in> held_devices held drivers" "d_name d = n" by (metis (mono_tags, lifting) card_1_singletonE insertI1 mem_Collect_eq)
    then show ?thesis using ds \<open>names \<noteq> []\<close> that by (auto simp: asked_devices_def)
  qed
  then show ?thesis using Select_not_Nil [OF sel] ds by (auto simp: Covers_def asked_devices_def held_devices_def split: if_splits)
qed

section \<open>The reconciler, for any locator\<close>

text \<open>What is known when the Machine is deleted.\<close>

definition quarantined_before :: "kube \<Rightarrow> replace_config \<Rightarrow> cluster \<Rightarrow> machine \<Rightarrow> device list \<Rightarrow> call list \<Rightarrow> bool" where
  "quarantined_before K cfg cluster m ds cs \<longleftrightarrow> ds \<noteq> [] \<and>
     ((\<forall>d \<in> set ds. d_driver d \<in> q_drivers cfg \<and> list_ex (confirms K d) cs) \<or>
      (annotation m ReplaceStatusAnnotation = StatusReplacing \<and> (\<forall>d \<in> set ds. list_ex (shows_rule K (owner_of cluster m) d) cs)))"

definition may_delete :: "kube \<Rightarrow> replace_config \<Rightarrow> cluster \<Rightarrow> machine \<Rightarrow> string \<Rightarrow> call list \<Rightarrow> bool" where
  "may_delete K cfg cluster m request cs \<longleftrightarrow> \<not> q_dry_run cfg \<and> guardReplace K cluster m = None \<and>
     (\<exists>names ds. ParseRequest K request = Inr names \<and> Covers ds names \<and> quarantined_before K cfg cluster m ds cs)"

fun before_delete :: "call list \<Rightarrow> call list option" where
  "before_delete [] = None"
| "before_delete (c # cs) = (if is_delete c then Some [] else map_option (Cons c) (before_delete cs))"

lemma before_delete_None: "list_all (Not \<circ> is_delete) cs \<Longrightarrow> before_delete cs = None"
  by (induction cs) auto

lemma before_delete_append:
  "list_all (Not \<circ> is_delete) cs \<Longrightarrow> before_delete (cs @ ds) = map_option ((@) cs) (before_delete ds)"
  by (induction cs; cases "before_delete ds") auto

definition deletes_once :: "call list \<Rightarrow> bool" where
  "deletes_once cs \<longleftrightarrow> length (filter is_delete cs) \<le> 1"

lemma deletes_once_append: "list_all (Not \<circ> is_delete) cs \<Longrightarrow> deletes_once (cs @ ds) = deletes_once ds"
  by (auto simp: deletes_once_def list_all_iff filter_empty_conv)

lemma no_delete_once: "list_all (Not \<circ> is_delete) cs \<Longrightarrow> deletes_once cs"
  by (auto simp: deletes_once_def list_all_iff filter_empty_conv)

text \<open>What carrying out a request, and so a whole reconcile, does to the Machine.\<close>

definition carried_out :: "kube \<Rightarrow> replace_config \<Rightarrow> cluster \<Rightarrow> machine \<Rightarrow> string \<Rightarrow> call list \<Rightarrow> bool" where
  "carried_out K cfg cluster m request cs \<longleftrightarrow> (\<exists>x. machine_run m cs x) \<and> deletes_once cs \<and>
     (\<forall>pre. before_delete cs = Some pre \<longrightarrow> may_delete K cfg cluster m request pre)"

text \<open>The same for a whole pass over a Machine that was read, with what it rests on.\<close>

definition replaced :: "kube \<Rightarrow> replace_config \<Rightarrow> machine \<Rightarrow> call list \<Rightarrow> bool" where
  "replaced K cfg m cs \<longleftrightarrow> (\<exists>x. machine_run m cs x) \<and> deletes_once cs \<and>
     (\<forall>pre. before_delete cs = Some pre \<longrightarrow> \<not> deleting m \<and> (\<exists>request cluster.
        m_annotations m ReplaceAnnotation = Some request \<and> GetCluster (m_namespace m, m_cluster m) (Inr cluster) \<in> set pre \<and>
        (\<forall>matches. q_selector cfg = Some matches \<longrightarrow> matches (c_labels cluster)) \<and> may_delete K cfg cluster m request pre))"

lemma replaced_leaves: "leaves m cs m' \<Longrightarrow> replaced K cfg m cs"
  by (auto simp: replaced_def leaves_def runs_to_def no_delete_once before_delete_None)

lemma machine_run_snoc: "machine_run m cs x \<Longrightarrow> \<not> machine_write c \<Longrightarrow> machine_run m (cs @ [c]) x"
  by (induction rule: machine_run.induct) (auto intro: machine_run.intros)

lemma before_delete_snoc: "\<not> is_delete c \<Longrightarrow> before_delete (cs @ [c]) = before_delete cs"
  by (induction cs) auto

lemma replaced_snoc: "replaced K cfg m cs \<Longrightarrow> \<not> machine_write c \<Longrightarrow> replaced K cfg m (cs @ [c])"
proof -
  assume "replaced K cfg m cs" and c: "\<not> machine_write c"
  moreover from this have "\<exists>x. machine_run m (cs @ [c]) x" by (auto simp: replaced_def intro: machine_run_snoc)
  moreover have "\<not> is_delete c" using c delete_writes by blast
  ultimately show ?thesis by (simp add: replaced_def before_delete_snoc deletes_once_def)
qed

lemma replaced_others: "list_all (Not \<circ> machine_write) cs \<Longrightarrow> replaced K cfg m cs"
  by (rule replaced_leaves [OF leaves_others])

text \<open>And for a reconcile, which reads the Machine first.\<close>

fun reads_machine :: "string \<Rightarrow> string \<Rightarrow> call \<Rightarrow> machine option" where
  "reads_machine ns name (GetMachine ns' name' (Inr m)) = (if ns' = ns \<and> name' = name then Some m else None)"
| "reads_machine ns name _ = None"

definition reconciled :: "kube \<Rightarrow> replace_config \<Rightarrow> string \<Rightarrow> string \<Rightarrow> call list \<Rightarrow> bool" where
  "reconciled K cfg ns name cs \<longleftrightarrow> (case cs of
     [] \<Rightarrow> False
   | c # rest \<Rightarrow> (case reads_machine ns name c of None \<Rightarrow> rest = [] \<and> \<not> machine_write c | Some m \<Rightarrow> replaced K cfg m rest))"

lemma carried_out_leaves: "leaves m cs m' \<Longrightarrow> carried_out K cfg cluster m request cs"
  by (auto simp: carried_out_def leaves_def runs_to_def no_delete_once before_delete_None)

lemma carried_out_logged: "leaves m cs m' \<Longrightarrow> carried_out K cfg cluster m request (cs @ [LogLine l msg])"
  by (rule carried_out_leaves [OF leaves_snoc]) simp_all

lemma carried_out_deletes:
  assumes "leaves m cs m'" and "list_all (Not \<circ> is_delete) rest" and "machine_run m' (DeleteMachine m' r # rest) x"
    and "may_delete K cfg cluster m request cs"
  shows "carried_out K cfg cluster m request (cs @ DeleteMachine m' r # rest)"
proof -
  have nodel: "list_all (Not \<circ> is_delete) cs" and run: "machine_run m cs (Some m')"
    using assms(1) by (simp_all add: leaves_def runs_to_def)
  have "\<exists>x. machine_run m (cs @ DeleteMachine m' r # rest) x" using machine_run_append [OF run] assms(3) by blast
  moreover have "deletes_once (cs @ DeleteMachine m' r # rest)"
    using no_delete_once [OF assms(2)] assms(2) nodel
    by (simp add: deletes_once_append) (auto simp: deletes_once_def list_all_iff filter_empty_conv)
  ultimately show ?thesis using assms(4) nodel by (simp add: carried_out_def before_delete_append)
qed

lemma quarantined_before_more:
  "quarantined_before K cfg cluster m ds cs \<Longrightarrow> quarantined_before K cfg cluster m ds (cs' @ cs @ cs'')"
  by (auto simp: quarantined_before_def)

lemma may_delete_more: "may_delete K cfg cluster m request cs \<Longrightarrow> may_delete K cfg cluster m request (cs' @ cs)"
  using quarantined_before_more [of K cfg cluster m _ cs cs' "[]"] unfolding may_delete_def by fastforce

text \<open>The deletion at the end, once the devices are known to be quarantined.\<close>

lemma does_delete_after:
  assumes "documented_patch E" and "leaves m cs m'" and "request_state m' = Replacing"
    and "may_delete K cfg cluster m request cs"
  shows "does (delete_machine_for E K cfg m' request devices) (\<lambda>e ds. carried_out K cfg cluster m request (cs @ ds))"
proof (rule does_mono [OF does_delete_machine_for [OF assms(1,3)]])
  fix e ds
  assume "\<exists>r rest. ds = DeleteMachine m' r # rest \<and> list_all (Not \<circ> is_delete) rest \<and> (\<exists>x. machine_run m' ds x)"
  then obtain r rest x where "ds = DeleteMachine m' r # rest" "list_all (Not \<circ> is_delete) rest" "machine_run m' ds x" by blast
  then show "carried_out K cfg cluster m request (cs @ ds)" using carried_out_deletes [OF assms(2) _ _ assms(4)] by blast
qed

context device_locator
begin

lemma does_locator: "does (Devices c m) (\<lambda>_ cs. list_all locator_read cs)"
  by (rule does_emits) (rule reads)

lemma does_quarantine:
  assumes "documented_patch E" and "active (request_state m)" and "status = annotation m ReplaceStatusAnnotation"
  shows "does (quarantine E K cfg Devices cluster m request names status) (\<lambda>(e, ds, m') cs. leaves m cs m' \<and>
    (ds \<noteq> [] \<longrightarrow> e = None \<and> request_state m' = Replacing \<and> \<not> q_dry_run cfg \<and> Covers ds names \<and>
      (\<forall>d \<in> set ds. d_driver d \<in> q_drivers cfg \<and> list_ex (confirms K d) cs)))"
proof -
  have reads: "leaves m cs m" if "list_all locator_read cs" for cs
    using that by (intro leaves_others reads_no_machine_write(1))
  show ?thesis
    unfolding quarantine_def log_line_def
    by (intro does_rules does_mono [OF does_locator] does_mono [OF does_fail [OF assms(1,2)]] does_mono [OF does_make_rules [OF assms]])
      (auto intro: reads leaves_append leaves_snoc dest: Select_covers)
qed

lemma does_carry_out:
  assumes "documented_patch E" and "active (request_state m)" and "status = annotation m ReplaceStatusAnnotation"
  shows "does (carry_out E K cfg Devices cluster m request status) (\<lambda>e cs. carried_out K cfg cluster m request cs)"
proof (cases "guardReplace K cluster m")
  case (Some p)
  then show ?thesis unfolding carry_out_def
    by (simp, intro does_rules does_mono [OF does_reject [OF assms(1,2)]]) (auto intro: carried_out_leaves)
next
  case guarded: None
  show ?thesis
  proof (cases "ParseRequest K request")
    case (Inl err)
    with guarded show ?thesis unfolding carry_out_def
      by (simp, intro does_rules does_mono [OF does_fail [OF assms(1,2)]]) (auto intro: carried_out_leaves)
  next
    case names: (Inr names)
    obtain req where req: "m_annotations m ReplaceAnnotation = Some req" using active_request [OF assms(2)] by blast
    have may: "may_delete K cfg cluster m request cs"
      if "\<not> q_dry_run cfg" "Covers ds names" "quarantined_before K cfg cluster m ds cs" for ds cs
      using that guarded names by (auto simp: may_delete_def)
    have resumed: "does (delete_machine_for E K cfg m request ds) (\<lambda>e es. carried_out K cfg cluster m request (cs @ es))"
      if "leaves m cs m" "\<not> q_dry_run cfg" "ds \<noteq> []" "status = StatusReplacing" "Covers ds names"
        "\<forall>d \<in> set ds. list_ex (shows_rule K (owner_of cluster m) d) cs" for ds cs
      using that assms(3) req
      by (intro does_delete_after [OF assms(1)] may [of ds]) (auto simp: quarantined_before_def request_state_Replacing_iff [OF req])
    have anew: "does (delete_machine_for E K cfg m' request ds) (\<lambda>e es. carried_out K cfg cluster m request (cs @ cs' @ es))"
      if "leaves m cs m" "leaves m cs' m'" "ds \<noteq> []" "request_state m' = Replacing" "\<not> q_dry_run cfg" "Covers ds names"
        "\<forall>d \<in> set ds. d_driver d \<in> q_drivers cfg \<and> list_ex (confirms K d) cs'" for ds cs cs' m'
    proof -
      have "quarantined_before K cfg cluster m ds (cs @ cs' @ [])"
        by (rule quarantined_before_more) (use that in \<open>auto simp: quarantined_before_def\<close>)
      then show ?thesis using does_delete_after [OF assms(1) leaves_append [OF that(1,2)] that(4) may [of ds]] that by simp
    qed
    show ?thesis using guarded names unfolding carry_out_def log_line_def
      by (simp, intro does_rules does_mono [OF does_rules_made [OF assms(1,2)]] does_mono [OF does_quarantine [OF assms]])
        (auto intro: carried_out_leaves carried_out_logged resumed anew leaves_append leaves_snoc)
  qed
qed

lemma does_replace:
  assumes "documented_patch E"
  shows "does (replace E K cfg Devices m) (\<lambda>e cs. replaced K cfg m cs)"
proof (cases "deleting m")
  case True
  then show ?thesis by (simp add: replace_def Let_def does_return replaced_leaves [OF leaves_Nil])
next
  case alive: False
  show ?thesis
  proof (cases "m_annotations m ReplaceAnnotation")
    case None
    have "replace_step (request_state m) (request_state (with_status m []))" if "annotation m ReplaceStatusAnnotation \<noteq> []"
      unfolding request_state_with_status(4) [OF None] request_state_Withdrawn [OF None that] by (rule forget_status)
    note set = does_setStatus [OF assms _ this]
    have "replace E K cfg Devices m = (if annotation m ReplaceStatusAnnotation = [] \<or> q_dry_run cfg then State_Monad.return None
        else do { (e, _) \<leftarrow> setStatus E m []; State_Monad.return e })"
      using None alive by (simp add: replace_def Let_def)
    then show ?thesis by (simp only:, intro does_rules does_mono [OF set]) (auto intro: replaced_leaves leaves_Nil)
  next
    case request: (Some request)
    have read: "replaced K cfg m (GetCluster (m_namespace m, m_cluster m) (Inr cluster) # cs)"
      if "carried_out K cfg cluster m request cs" "\<forall>matches. q_selector cfg = Some matches \<longrightarrow> matches (c_labels cluster)" for cluster cs
    proof -
      let ?c = "GetCluster (m_namespace m, m_cluster m) (Inr cluster)"
      have "may_delete K cfg cluster m request (?c # pre)" if "before_delete cs = Some pre" for pre
        using \<open>carried_out K cfg cluster m request cs\<close> that may_delete_more [of K cfg cluster m request pre "[?c]"]
        by (simp add: carried_out_def)
      moreover obtain x where "machine_run m cs x" using \<open>carried_out K cfg cluster m request cs\<close> by (auto simp: carried_out_def)
      then have "machine_run m (?c # cs) x" by (intro other_call) simp
      then have "\<exists>x. machine_run m (?c # cs) x" by blast
      moreover have "deletes_once (?c # cs)" using that(1) by (simp add: carried_out_def deletes_once_def)
      ultimately show ?thesis using alive request that(2) by (auto simp: replaced_def)
    qed
    have active: "active (request_state m)" if "\<not> IsRejected (annotation m ReplaceStatusAnnotation)"
      using that active_iff [OF request] by simp
    show ?thesis unfolding replace_def Let_def log_line_def request option.case if_not_P [OF alive]
      by (intro does_rules does_mono [OF does_carry_out [OF assms]])
        (auto intro: read active replaced_others split: option.splits)
  qed
qed

text \<open>A whole reconcile: the Machine is read, and what is done to it follows from what was read.\<close>

lemma does_Reconcile_replace:
  assumes "documented_patch E"
  shows "does (Reconcile_replace E K cfg Devices ns name) (\<lambda>r cs. reconciled K cfg ns name cs)"
  unfolding Reconcile_replace_def log_line_def
  by (intro does_rules does_mono [OF does_replace [OF assms]]) (auto simp: reconciled_def intro: replaced_snoc)

lemma emits_locator: "(\<And>c. locator_read c \<Longrightarrow> P c) \<Longrightarrow> emits P (Devices cl m)"
  using reads by (rule emits_mono)

end

section \<open>The calls a reconcile may make\<close>

fun replace_call :: "kube \<Rightarrow> bool \<Rightarrow> call \<Rightarrow> bool" where
  "replace_call K dry (PatchMachine b u lock _) \<longleftrightarrow> \<not> dry \<and> lock \<and>
     (\<exists>status. u = with_status b status \<and> (status = [] \<or> status = StatusQuarantining \<or> status = StatusReplacing \<or> IsRejected status))"
| "replace_call K dry (DeleteMachine _ _) \<longleftrightarrow> \<not> dry"
| "replace_call K dry (CreateRule rule _) \<longleftrightarrow> \<not> dry \<and> (\<exists>version d ow now. rule = rule_object K version d ow now)"
| "replace_call K dry (EmitEvent _ _ _ _ nt) \<longleftrightarrow> \<not> dry \<and> length nt \<le> EventNoteLimit"
| "replace_call K dry (PatchRequestStatus _ _ _) \<longleftrightarrow> False"
| "replace_call K dry (ListMachines _ _) \<longleftrightarrow> False"
| "replace_call K dry (ListChecks _ _) \<longleftrightarrow> False"
| "replace_call K dry (ConnectWorkload _ _) \<longleftrightarrow> False"
| "replace_call K dry (ConnectUncached _ _) \<longleftrightarrow> False"
| "replace_call K dry (LookUpWorkload _ _ _) \<longleftrightarrow> False"
| "replace_call K dry (WatchRequests _ _) \<longleftrightarrow> False"
| "replace_call K dry (ListNodes _) \<longleftrightarrow> False"
| "replace_call K dry (ListRequests _) \<longleftrightarrow> False"
| "replace_call K dry (GetRequest _ _) \<longleftrightarrow> False"
| "replace_call K dry _ \<longleftrightarrow> True"

lemma replace_call_reads: "locator_read c \<Longrightarrow> replace_call K dry c" "rule_read c \<Longrightarrow> replace_call K dry c"
  by (cases c; simp)+

lemma replace_call_rule: "rule_call K d ow c \<Longrightarrow> replace_call K False c"
  by (auto simp: rule_call_def replace_call_reads) blast

lemma replace_call_dry: "replace_call K True c \<Longrightarrow> \<not> is_write c"
  by (cases c) auto

lemma emits_Ensure: "emits (replace_call K False) (Ensure E K d ow)"
  by (rule emits_does, rule does_mono [OF does_Ensure]) (auto simp: list_all_iff replace_call_rule)

lemma emits_Exists: "emits (replace_call K dry) (Exists E K d)"
  by (rule emits_does, rule does_mono [OF does_Exists]) (auto simp: list_all_iff replace_call_reads)

lemma emits_Of: "emits (replace_call K dry) (Of E K ow)"
  by (rule emits_does, rule does_mono [OF does_Of]) (auto simp: list_all_iff replace_call_reads)

lemma emits_setStatus:
  assumes "status = [] \<or> status = StatusQuarantining \<or> status = StatusReplacing \<or> IsRejected status"
  shows "emits (replace_call K False) (setStatus E m status)"
  unfolding setStatus_def Let_def by (intro emits_rules) (use assms in auto)

lemma emits_reject: "emits (replace_call K (q_dry_run cfg)) (reject E K cfg m request reason message)"
  unfolding reject_def by (intro emits_rules; (simp, rule emits_setStatus)?) auto

lemma emits_fail: "emits (replace_call K (q_dry_run cfg)) (fail E K cfg m request err)"
  unfolding fail_def by (intro emits_rules emits_reject)

lemma emits_ensure_rules: "\<not> q_dry_run cfg \<Longrightarrow> emits (replace_call K False) (ensure_rules E K cfg ow m request ds)"
proof (induction ds)
  case (Cons d ds)
  then show ?case using emits_fail [of K cfg] unfolding ensure_rules.simps
    by (intro emits_rules emits_Ensure) simp_all
qed (simp add: emits_return)

lemma emits_confirm_rules: "\<not> q_dry_run cfg \<Longrightarrow> emits (replace_call K False) (confirm_rules E K cfg m request ds)"
proof (induction ds)
  case (Cons d ds)
  then show ?case using emits_fail [of K cfg] unfolding confirm_rules.simps
    by (intro emits_rules emits_Exists) simp_all
qed (simp add: emits_return)

lemma emits_make_rules:
  "\<not> q_dry_run cfg \<Longrightarrow> emits (replace_call K False) (make_rules E K cfg cluster m request status devices)"
  unfolding make_rules_def by (intro emits_rules emits_setStatus emits_ensure_rules emits_confirm_rules) auto

lemma emits_delete_machine_for:
  "\<not> q_dry_run cfg \<Longrightarrow> emits (replace_call K False) (delete_machine_for E K cfg m request devices)"
  using emits_fail [of K cfg] unfolding delete_machine_for_def by (intro emits_rules) auto

lemma emits_rules_made: "emits (replace_call K (q_dry_run cfg)) (rules_made E K cfg cluster m request names status)"
  unfolding rules_made_def by (intro emits_rules emits_Of emits_fail) auto

context device_locator
begin

lemma emits_quarantine:
  "emits (replace_call K (q_dry_run cfg)) (quarantine E K cfg Devices cluster m request names status)"
  using emits_make_rules [of cfg K] unfolding quarantine_def
  by (intro emits_rules emits_locator emits_fail) (auto simp: replace_call_reads)

lemma quarantine_dry_run:
  "q_dry_run cfg \<Longrightarrow> yields (\<lambda>(e, ds, m'). ds = []) (quarantine E K cfg Devices cluster m request names status)"
  unfolding quarantine_def by (intro yields_rules) simp_all

lemma emits_carry_out:
  "emits (replace_call K (q_dry_run cfg)) (carry_out E K cfg Devices cluster m request status)"
proof -
  have last: "emits (replace_call K (q_dry_run cfg)) (do {
      (e, devices, m') \<leftarrow> quarantine E K cfg Devices cluster m request names status;
      (if e \<noteq> None \<or> devices = [] then State_Monad.return e else delete_machine_for E K cfg m' request devices) })" for names
  proof (rule emits_bind_run [OF emits_quarantine])
    fix a s s' assume run: "run_state (quarantine E K cfg Devices cluster m request names status) s = (a, s')"
    obtain e ds m' where a: "a = (e, ds, m')" by (cases a)
    have "ds = []" if "q_dry_run cfg" using yieldsD [OF quarantine_dry_run [OF that] run] by (simp add: a)
    then show "emits (replace_call K (q_dry_run cfg)) (case a of (e, devices, m') \<Rightarrow>
        if e \<noteq> None \<or> devices = [] then State_Monad.return e else delete_machine_for E K cfg m' request devices)"
      using emits_delete_machine_for [of cfg K] unfolding a by (cases "q_dry_run cfg") (auto intro: emits_return)
  qed
  show ?thesis using emits_delete_machine_for [of cfg K] unfolding carry_out_def
    by (intro emits_rules emits_reject emits_fail emits_rules_made last) auto
qed

lemma emits_replace: "emits (replace_call K (q_dry_run cfg)) (replace E K cfg Devices m)"
  using emits_setStatus [of "[]" K E] unfolding replace_def Let_def
  by (intro emits_rules emits_carry_out) auto

lemma emits_Reconcile_replace: "emits (replace_call K (q_dry_run cfg)) (Reconcile_replace E K cfg Devices ns name)"
  unfolding Reconcile_replace_def by (intro emits_rules emits_replace) auto

end

end
