(* ===== verification/ReplaceProperties.thy ===== *)
theory ReplaceProperties
  imports Replace
begin

text \<open>
  What holds of a reconcile of a replace request, with the locator the program is set up with: that a Machine is only
  deleted once its devices are quarantined, that the writes follow the life of a request, that a clear request of a
  replaceable Machine is carried out, and how errors end it.
\<close>

section \<open>Conflicts\<close>

text \<open>A write of the Machine that was refused because the Machine has changed.\<close>

fun refused :: "call \<Rightarrow> bool" where
  "refused (PatchMachine _ _ _ (Inl e)) = (kind_of e = Conflict)"
| "refused (DeleteMachine _ (Some e)) = (kind_of e = Conflict)"
| "refused _ = False"

definition is_conflict_error :: "go_error option \<Rightarrow> bool" where
  "is_conflict_error e \<longleftrightarrow> (\<exists>err. e = Some err \<and> kind_of err = Conflict)"

lemma is_conflict_error_simps [simp]:
  "is_conflict_error (Some err) = (kind_of err = Conflict)" "\<not> is_conflict_error None"
  by (simp_all add: is_conflict_error_def)

lemma not_refused:
  "list_all (Not \<circ> machine_write) cs \<Longrightarrow> \<not> list_ex refused cs"
  by (induction cs) (auto elim: refused.elims)

lemmas reads_not_refused = reads_no_machine_write [THEN not_refused]

lemma conflict_setStatus: "does (setStatus E m status) (\<lambda>(e, m') cs. list_ex refused cs \<longrightarrow> is_conflict_error e)"
  unfolding setStatus_def Let_def patch_def by (intro does_rules) (auto simp: patch_error_def split: sum.splits)

lemma conflict_reject: "does (reject E K cfg m request reason message) (\<lambda>(e, m') cs. list_ex refused cs \<longrightarrow> is_conflict_error e)"
  unfolding reject_def log_line_def emit_event_def by (intro does_rules does_mono [OF conflict_setStatus]) auto

lemma conflict_fail: "does (fail E K cfg m request err) (\<lambda>(e, m') cs. (list_ex refused cs \<or> kind_of err = Conflict) \<longrightarrow> is_conflict_error e)"
  unfolding fail_def by (intro does_rules does_mono [OF conflict_reject]) auto

lemma conflict_ensure_rules:
  "does (ensure_rules E K cfg ow m request ds) (\<lambda>r cs. list_ex refused cs \<longrightarrow> (\<exists>e m'. r = Some (e, m') \<and> is_conflict_error e))"
proof (induction ds)
  case (Cons d ds)
  show ?case unfolding ensure_rules.simps log_line_def
    by (intro does_rules does_mono [OF does_Ensure] does_mono [OF conflict_fail] does_mono [OF Cons.IH])
      (auto simp: reads_not_refused)
qed (simp add: does_return)

lemma conflict_confirm_rules:
  "does (confirm_rules E K cfg m request ds) (\<lambda>r cs. list_ex refused cs \<longrightarrow> (\<exists>e m'. r = Some (e, m') \<and> is_conflict_error e))"
proof (induction ds)
  case (Cons d ds)
  show ?case unfolding confirm_rules.simps
    by (intro does_rules does_mono [OF does_Exists] does_mono [OF conflict_fail] does_mono [OF Cons.IH])
      (auto simp: reads_not_refused)
qed (simp add: does_return)

lemma conflict_make_rules:
  "does (make_rules E K cfg cluster m request status devices) (\<lambda>(e, ds, m') cs. list_ex refused cs \<longrightarrow> is_conflict_error e)"
  unfolding make_rules_def emit_event_def
  by (intro does_rules does_mono [OF conflict_setStatus] does_mono [OF conflict_ensure_rules] does_mono [OF conflict_confirm_rules]) auto

lemma conflict_delete_machine_for:
  "does (delete_machine_for E K cfg m request devices) (\<lambda>e cs. list_ex refused cs \<longrightarrow> is_conflict_error e)"
  unfolding delete_machine_for_def log_line_def emit_event_def
  by (intro does_rules does_mono [OF conflict_fail]) auto

lemma conflict_rules_made:
  "does (rules_made E K cfg cluster m request names status) (\<lambda>r cs. list_ex refused cs \<longrightarrow> (\<exists>e. r = Inl e \<and> is_conflict_error e))"
  unfolding rules_made_def log_line_def
  by (intro does_rules does_mono [OF does_Of] does_mono [OF conflict_fail]) (auto simp: reads_not_refused)

context device_locator
begin

lemma conflict_quarantine:
  "does (quarantine E K cfg Devices cluster m request names status) (\<lambda>(e, ds, m') cs. list_ex refused cs \<longrightarrow> is_conflict_error e)"
  unfolding quarantine_def log_line_def
  by (intro does_rules does_mono [OF does_locator] does_mono [OF conflict_fail] does_mono [OF conflict_make_rules])
    (auto simp: reads_not_refused)

lemma conflict_carry_out:
  "does (carry_out E K cfg Devices cluster m request status) (\<lambda>e cs. list_ex refused cs \<longrightarrow> is_conflict_error e)"
  unfolding carry_out_def log_line_def
  by (intro does_rules does_mono [OF conflict_reject] does_mono [OF conflict_fail] does_mono [OF conflict_rules_made]
      does_mono [OF conflict_quarantine] does_mono [OF conflict_delete_machine_for]) auto

lemma conflict_replace: "does (replace E K cfg Devices m) (\<lambda>e cs. list_ex refused cs \<longrightarrow> is_conflict_error e)"
  unfolding replace_def Let_def log_line_def
  by (intro does_rules does_mono [OF conflict_setStatus] does_mono [OF conflict_carry_out]) auto

lemma conflict_Reconcile_replace:
  "does (Reconcile_replace E K cfg Devices ns name) (\<lambda>r cs. list_ex refused cs \<longrightarrow> r = Inr conflictRetry)"
  unfolding Reconcile_replace_def log_line_def
  by (intro does_rules does_mono [OF conflict_replace]) auto

end

section \<open>A clear request is carried out\<close>

text \<open>An API server that takes every write: rules that are not there yet are created, and the Machine is deleted.\<close>

definition accepting :: "env \<Rightarrow> bool" where
  "accepting E \<longleftrightarrow> undisturbed E \<and> documented_rules E \<and> serves_v1 E \<and>
     (\<forall>h rule. first_created h (u_name rule) = None \<longrightarrow> create_rule E h rule = None) \<and> (\<forall>h m. delete_machine E h m = None)"

text \<open>The rules of some devices that are there keep them out.\<close>

definition rules_fit :: "kube \<Rightarrow> device set \<Rightarrow> call list \<Rightarrow> bool" where
  "rules_fit K D h \<longleftrightarrow> (\<forall>d \<in> D. \<forall>rule. first_created h (RuleName d) = Some rule \<longrightarrow> keeps_out K rule d)"

definition rule_there :: "kube \<Rightarrow> call list \<Rightarrow> device \<Rightarrow> bool" where
  "rule_there K h d \<longleftrightarrow> (\<exists>rule. first_created h (RuleName d) = Some rule \<and> keeps_out K rule d)"

lemma first_created_other: "(\<And>rule. c \<noteq> CreateRule rule None) \<Longrightarrow> first_created (c # cs) name = first_created cs name"
  by (cases "(c # cs, name)" rule: first_created.cases) auto

lemma first_created_none: "list_all (\<lambda>c. \<forall>rule. c \<noteq> CreateRule rule None) cs \<Longrightarrow> first_created cs name = None"
  by (induction cs) (auto simp: first_created_other)

lemma first_created_frame:
  "list_all (\<lambda>c. \<forall>rule. c \<noteq> CreateRule rule None) cs \<Longrightarrow> first_created (h @ cs) name = first_created h name"
  by (simp add: first_created_append first_created_none split: option.split)

lemma rule_there_append: "rule_there K h d \<Longrightarrow> rule_there K (h @ cs) d"
  by (auto simp: rule_there_def first_created_append)

lemma Ensure_accepted:
  assumes "accepting E" and "documented_readers K" and "inj_on RuleName D" and "d \<in> D" and "rules_fit K D (history s)"
  shows "\<exists>cs b. run_state (Ensure E K d ow) s = (Inr b, s\<lparr>history := history s @ cs\<rparr>) \<and>
    rules_fit K D (history s @ cs) \<and> rule_there K (history s @ cs) d"
proof -
  let ?h = "history s @ [v1_lookup]"
  let ?t = "clock E ?h"
  let ?r = "rule_object K ''v1'' d ow ?t"
  have served: "serves_v1 E" and rules: "documented_rules E" using assms(1) by (simp_all add: accepting_def)
  have frame: "first_created (?h @ [ReadClock ?t]) name = first_created (history s) name" for name
    using first_created_frame [of "[v1_lookup, ReadClock ?t]" "history s" name] by simp
  show ?thesis
  proof (cases "first_created (history s) (RuleName d)")
    case None
    then have "create_rule E (?h @ [ReadClock ?t]) ?r = None"
      using assms(1) frame [of "RuleName d"] by (simp add: accepting_def)
    then have "run_state (Ensure E K d ow) s = (Inr True, s\<lparr>history := history s @ [v1_lookup, ReadClock ?t, CreateRule ?r None]\<rparr>)"
      by (simp add: Ensure_def run_rule_kind [OF served] ruleFor_def)
    moreover have "first_created (history s @ [v1_lookup, ReadClock ?t, CreateRule ?r None]) name =
        (case first_created (history s) name of None \<Rightarrow> if RuleName d = name then Some ?r else None | Some rule \<Rightarrow> Some rule)" for name
      by (simp add: first_created_append split: option.split)
    moreover from this None have "rule_there K (history s @ [v1_lookup, ReadClock ?t, CreateRule ?r None]) d"
      by (simp add: rule_there_def rule_object_keeps_out [OF assms(2)])
    moreover have "d' = d" if "d' \<in> D" "RuleName d = RuleName d'" for d'
      using inj_onD [OF assms(3) that(2) assms(4) that(1)] by simp
    ultimately show ?thesis using assms(5) rule_object_keeps_out [OF assms(2)]
      by (intro exI [of _ "[v1_lookup, ReadClock ?t, CreateRule ?r None]"] exI [of _ True])
        (auto simp: rules_fit_def split: option.splits if_splits)
  next
    case (Some rule)
    then have keeps: "keeps_out K rule d" using assms(4,5) by (auto simp: rules_fit_def)
    have there: "first_created (history s @ cs) (RuleName d) = Some rule" for cs
      using Some by (simp add: first_created_append)
    obtain msg where "create_rule E (?h @ [ReadClock ?t]) ?r = Some (ApiError AlreadyExists msg)"
      using documented_rulesD(2) [OF rules, of "?h @ [ReadClock ?t]" "RuleName d" rule ?r] frame Some by auto
    moreover have "get_rule E (history s @ cs) ''v1'' (RuleName d) = Inr rule" for cs
      by (rule documented_rulesD(1) [OF rules there])
    ultimately have run: "run_state (Ensure E K d ow) s = (Inr False, s\<lparr>history := history s @
        [v1_lookup, ReadClock ?t, CreateRule ?r (Some (ApiError AlreadyExists msg)), GetRule ''v1'' (RuleName d) (Inr rule)]\<rparr>)"
      (is "_ = (_, s\<lparr>history := _ @ ?cs\<rparr>)")
      using keeps by (simp add: Ensure_def run_rule_kind [OF served] ruleFor_def check_def)
    have "first_created (history s @ ?cs) name = first_created (history s) name" for name
      by (rule first_created_frame) simp
    with run there keeps assms(5) show ?thesis by (auto simp: rules_fit_def rule_there_def)
  qed
qed

lemma ensure_rules_accepted:
  assumes "accepting E" and "documented_readers K" and "inj_on RuleName D" and "set ds \<subseteq> D" and "rules_fit K D (history s)"
  shows "\<exists>cs. run_state (ensure_rules E K cfg ow m request ds) s = (None, s\<lparr>history := history s @ cs\<rparr>) \<and>
    (\<forall>d \<in> set ds. rule_there K (history s @ cs) d)"
  using assms(4,5)
proof (induction ds arbitrary: s)
  case Nil
  show ?case by (intro exI [of _ "[]"]) simp
next
  case (Cons d ds)
  obtain cs b where ensure: "run_state (Ensure E K d ow) s = (Inr b, s\<lparr>history := history s @ cs\<rparr>)"
    "rules_fit K D (history s @ cs)" "rule_there K (history s @ cs) d"
    using Ensure_accepted [OF assms(1-3) _ Cons.prems(2)] Cons.prems(1) by fastforce
  define es where "es = (if b then [LogLine Info ''device quarantined''] else [])"
  let ?s = "s\<lparr>history := history s @ cs @ es\<rparr>"
  have "rules_fit K D (history ?s)"
    using ensure(2) first_created_frame [of es "history s @ cs"] by (simp add: rules_fit_def es_def)
  then obtain ds' where rest: "run_state (ensure_rules E K cfg ow m request ds) ?s = (None, ?s\<lparr>history := history ?s @ ds'\<rparr>)"
    "\<forall>d \<in> set ds. rule_there K (history ?s @ ds') d" using Cons.IH [of ?s] Cons.prems(1) by auto
  have "run_state (if b then log_line Info ''device quarantined'' else State_Monad.return ()) (s\<lparr>history := history s @ cs\<rparr>) = ((), ?s)"
    by (simp add: es_def)
  with ensure(1) rest(1) have "run_state (ensure_rules E K cfg ow m request (d # ds)) s =
      (None, s\<lparr>history := history s @ cs @ es @ ds'\<rparr>)" by simp
  with rest(2) rule_there_append [OF ensure(3), of "es @ ds'"] show ?case by (intro exI [of _ "cs @ es @ ds'"]) auto
qed

lemma confirm_rules_accepted:
  assumes "accepting E" and "\<forall>d \<in> set ds. rule_there K (history s) d"
  shows "\<exists>cs. run_state (confirm_rules E K cfg m request ds) s = (None, s\<lparr>history := history s @ cs\<rparr>)"
  using assms(2)
proof (induction ds arbitrary: s)
  case Nil
  show ?case by (intro exI [of _ "[]"]) simp
next
  case (Cons d ds)
  have served: "serves_v1 E" and rules: "documented_rules E" using assms(1) by (simp_all add: accepting_def)
  from Cons.prems obtain rule where rule: "first_created (history s) (RuleName d) = Some rule" "keeps_out K rule d"
    by (auto simp: rule_there_def)
  then have "get_rule E (history s @ [v1_lookup]) ''v1'' (RuleName d) = Inr rule"
    by (intro documented_rulesD(1) [OF rules]) (simp add: first_created_append)
  then have exists: "run_state (Exists E K d) s = (Inr True, s\<lparr>history := history s @ [v1_lookup, GetRule ''v1'' (RuleName d) (Inr rule)]\<rparr>)"
    (is "_ = (_, ?s)")
    using rule(2) by (simp add: Exists_def run_rule_kind [OF served] check_def)
  obtain cs where "run_state (confirm_rules E K cfg m request ds) ?s = (None, ?s\<lparr>history := history ?s @ cs\<rparr>)"
    using Cons.IH [of ?s] Cons.prems rule_there_append by auto
  with exists show ?case by (intro exI [of _ "[v1_lookup, GetRule ''v1'' (RuleName d) (Inr rule)] @ cs"]) simp
qed

lemma setStatus_accepted:
  assumes "undisturbed E" and "status \<noteq> []"
  shows "\<exists>cs m'. run_state (setStatus E m status) s = ((None, m'), s\<lparr>history := history s @ cs\<rparr>) \<and>
    list_all machine_write cs \<and> list_all (Not \<circ> is_delete) cs \<and>
    m_annotations m' ReplaceStatusAnnotation = Some status \<and> m_namespace m' = m_namespace m \<and> m_name m' = m_name m"
proof (cases "m_annotations m ReplaceStatusAnnotation = Some status")
  case True
  then show ?thesis by (intro exI [of _ "[]"] exI [of _ m]) (simp add: setStatus_def)
next
  case False
  obtain v where v: "patch_machine E (history s) m (with_status m status) True = Inr ((with_status m status)\<lparr>m_resource_version := v\<rparr>)"
    using assms(1) unfolding undisturbed_def by blast
  let ?m = "(with_status m status)\<lparr>m_resource_version := v\<rparr>"
  from False assms(2) have "run_state (setStatus E m status) s =
      ((None, ?m), s\<lparr>history := history s @ [PatchMachine m (with_status m status) True (Inr ?m)]\<rparr>)"
    by (simp add: setStatus_def v)
  then show ?thesis using assms(2)
    by (intro exI [of _ "[PatchMachine m (with_status m status) True (Inr ?m)]"] exI [of _ ?m]) (simp add: with_status_def)
qed

lemma machine_writes_create_nothing:
  "list_all machine_write cs \<Longrightarrow> list_all (\<lambda>c. \<forall>rule. c \<noteq> CreateRule rule None) cs"
  by (auto simp: list_all_iff)

lemma make_rules_accepted:
  assumes "accepting E" and "documented_readers K" and "inj_on RuleName (set devices)" and "rules_fit K (set devices) (history s)"
  shows "\<exists>cs m'. run_state (make_rules E K cfg cluster m request status devices) s = ((None, devices, m'), s\<lparr>history := history s @ cs\<rparr>) \<and>
    m_namespace m' = m_namespace m \<and> m_name m' = m_name m"
proof -
  have und: "undisturbed E" using assms(1) by (simp add: accepting_def)
  obtain c1 m1 where first: "run_state (if status \<noteq> StatusReplacing then setStatus E m StatusQuarantining else State_Monad.return (None, m)) s =
      ((None, m1), s\<lparr>history := history s @ c1\<rparr>)" and c1: "list_all machine_write c1"
    and m1: "m_namespace m1 = m_namespace m \<and> m_name m1 = m_name m"
  proof (cases "status = StatusReplacing")
    case True
    then show ?thesis using that [of m "[]"] by simp
  next
    case False
    then show ?thesis using setStatus_accepted [OF und, of StatusQuarantining m s] that by auto
  qed
  let ?s1 = "s\<lparr>history := history s @ c1\<rparr>"
  have "rules_fit K (set devices) (history ?s1)"
    using assms(4) by (simp add: rules_fit_def first_created_frame [OF machine_writes_create_nothing [OF c1]])
  then obtain c2 where ensure: "run_state (ensure_rules E K cfg (owner_of cluster m1) m1 request devices) ?s1 =
      (None, ?s1\<lparr>history := history ?s1 @ c2\<rparr>)" and there: "\<forall>d \<in> set devices. rule_there K (history ?s1 @ c2) d"
    using ensure_rules_accepted [OF assms(1-3) order_refl] by blast
  let ?s2 = "s\<lparr>history := history s @ c1 @ c2\<rparr>"
  obtain c3 where confirm: "run_state (confirm_rules E K cfg m1 request devices) ?s2 = (None, ?s2\<lparr>history := history ?s2 @ c3\<rparr>)"
    using confirm_rules_accepted [OF assms(1), of devices K ?s2 cfg m1 request] there by auto
  let ?s3 = "s\<lparr>history := history s @ c1 @ c2 @ c3\<rparr>"
  obtain c4 m4 where last: "run_state (if status \<noteq> StatusReplacing then setStatus E m1 StatusReplacing else State_Monad.return (None, m1)) ?s3 =
      ((None, m4), ?s3\<lparr>history := history ?s3 @ c4\<rparr>)" and m4: "m_namespace m4 = m_namespace m1 \<and> m_name m4 = m_name m1"
  proof (cases "status = StatusReplacing")
    case True
    then show ?thesis using that [of m1 "[]"] by simp
  next
    case False
    then show ?thesis using setStatus_accepted [OF und, of StatusReplacing m1 ?s3] that by auto
  qed
  show ?thesis
    using first ensure confirm last m1 m4 unfolding make_rules_def by auto
qed

context device_locator
begin

lemma carried_out_accepted:
  assumes "accepting E" and "documented_readers K" and "get_machine E (history s) ns name = Inr m" and "\<not> deleting m"
    and "m_annotations m ReplaceAnnotation = Some request" and "annotation m ReplaceStatusAnnotation \<noteq> StatusReplacing"
    and "\<not> IsRejected (annotation m ReplaceStatusAnnotation)"
    and "\<And>h. get_cluster E h (m_namespace m, m_cluster m) = Inr cluster"
    and "\<And>matches. q_selector cfg = Some matches \<Longrightarrow> matches (c_labels cluster)" and "\<not> q_dry_run cfg"
    and "guardReplace K cluster m = None" and "ParseRequest K request = Inr names"
    and "yields (\<lambda>r. r = Inr held) (Devices cluster m)" and "Select K held (q_drivers cfg) names = Inr ds"
    and "inj_on RuleName (set ds)" and "rules_fit K (set ds) (history s)"
  shows "\<exists>s' pre m' rest. run_state (Reconcile_replace E K cfg Devices ns name) s = (Inr 0, s') \<and>
    history s' = history s @ pre @ DeleteMachine m' None # rest \<and> m_namespace m' = m_namespace m \<and> m_name m' = m_name m"
proof -
  let ?h = "history s @ [GetMachine ns name (Inr m), GetCluster (m_namespace m, m_cluster m) (Inr cluster)]"
  let ?s1 = "s\<lparr>history := ?h\<rparr>"
  obtain r s2 where "run_state (Devices cluster m) ?s1 = (r, s2)" by fastforce
  with yieldsD [OF assms(13)] have loc: "run_state (Devices cluster m) ?s1 = (Inr held, s2)" by simp
  obtain cs where s2: "history s2 = ?h @ cs" and reads: "list_all locator_read cs"
    using doesD [OF does_locator loc] by auto
  have "list_all (\<lambda>c. \<forall>rule. c \<noteq> CreateRule rule None)
      ([GetMachine ns name (Inr m), GetCluster (m_namespace m, m_cluster m) (Inr cluster)] @ cs)"
    using reads by (auto simp: list_all_iff)
  from first_created_frame [OF this] have "rules_fit K (set ds) (history s2)"
    using assms(16) by (simp add: rules_fit_def s2)
  from make_rules_accepted [OF assms(1,2,15) this] obtain cs2 m' where
    make: "run_state (make_rules E K cfg cluster m request (annotation m ReplaceStatusAnnotation) ds) s2 =
      ((None, ds, m'), s2\<lparr>history := history s2 @ cs2\<rparr>)" and same: "m_namespace m' = m_namespace m" "m_name m' = m_name m" by blast
  have nonempty: "ds \<noteq> []" using Select_not_Nil [OF assms(14)] .
  have "delete_machine E h m' = None" for h using assms(1) by (simp add: accepting_def)
  then obtain rest where delete: "run_state (delete_machine_for E K cfg m' request ds) (s2\<lparr>history := history s2 @ cs2\<rparr>) =
      (None, s2\<lparr>history := history s2 @ cs2 @ DeleteMachine m' None # rest\<rparr>)"
    by (auto simp: delete_machine_for_def)
  have "run_state (carry_out E K cfg Devices cluster m request (annotation m ReplaceStatusAnnotation)) ?s1 =
      (None, s2\<lparr>history := history s2 @ cs2 @ DeleteMachine m' None # rest\<rparr>)"
    using assms(6,10-12,14) nonempty loc make delete by (simp add: carry_out_def rules_made_def quarantine_def)
  moreover have "\<not> (case q_selector cfg of None \<Rightarrow> False | Some matches \<Rightarrow> \<not> matches (c_labels cluster))"
    using assms(9) by (auto split: option.splits)
  ultimately have "run_state (replace E K cfg Devices m) (s\<lparr>history := history s @ [GetMachine ns name (Inr m)]\<rparr>) =
      (None, s2\<lparr>history := history s2 @ cs2 @ DeleteMachine m' None # rest\<rparr>)"
    using assms(4,5,7,8) by (simp add: replace_def Let_def)
  then have "run_state (Reconcile_replace E K cfg Devices ns name) s = (Inr 0, s2\<lparr>history := history s2 @ cs2 @ DeleteMachine m' None # rest\<rparr>)"
    using assms(3) by (simp add: Reconcile_replace_def)
  moreover have "history s2 @ cs2 @ DeleteMachine m' None # rest = history s @
      ([GetMachine ns name (Inr m), GetCluster (m_namespace m, m_cluster m) (Inr cluster)] @ cs @ cs2) @ DeleteMachine m' None # rest"
    by (simp add: s2)
  ultimately show ?thesis using same
    by (intro exI [of _ "s2\<lparr>history := history s2 @ cs2 @ DeleteMachine m' None # rest\<rparr>"]
        exI [of _ "[GetMachine ns name (Inr m), GetCluster (m_namespace m, m_cluster m) (Inr cluster)] @ cs @ cs2"]
        exI [of _ m'] exI [of _ rest]) simp
qed

end

section \<open>An example\<close>

text \<open>A Machine of a MachineSet whose VM runs with one GPU, and a request to replace it.\<close>

definition faulty_machine :: machine where
  "faulty_machine = example_machine\<lparr>m_annotations := [ReplaceAnnotation \<mapsto> RequestQuarantine],
     m_owners := [\<lparr>owner_api_version = ''cluster.x-k8s.io/v1beta2'', owner_kind = ''MachineSet'', owner_name = ''ms'', owner_controller = Some True\<rparr>],
     m_infrastructure := \<lparr>ref_group = infrastructure_group, ref_kind = ''KubevirtMachine'', ref_name = ''m''\<rparr>\<rparr>"

definition example_object :: "json \<Rightarrow> unstructured" where
  "example_object content = \<lparr>u_api_version = ''v1'', u_kind = ''Kind'', u_namespace = ''ns'', u_name = ''m'', u_uid = ''uid'',
     u_generation = 1, u_deletion_timestamp = None, u_labels = Map.empty, u_annotations = Map.empty, u_content = content\<rparr>"

definition running_vmi :: unstructured where
  "running_vmi = example_object (JObject [(''status'', JObject [(''phase'', JString ''Running'')])])"

definition example_allocation :: claim where
  "example_allocation = \<lparr>cl_allocation = Some [\<lparr>a_driver = ''gpu.nvidia.com'', a_pool = ''host-1'', a_device = ''gpu-3'', a_admin_access = None\<rparr>,
     \<lparr>a_driver = ''gpu.nvidia.com'', a_pool = ''host-1'', a_device = ''gpu-0'', a_admin_access = Some True\<rparr>]\<rparr>"

definition vm_server :: env where
  "vm_server = rule_server\<lparr>
     get_machine := (\<lambda>_ _ _. Inr faulty_machine), get_cluster := (\<lambda>_ _. Inr example_cluster),
     get_object := (\<lambda>_ gk _ _ _. Inr (if gk = vmiKind then running_vmi else example_object (JObject []))),
     list_pods := (\<lambda>_ _ _. Inr [\<lparr>p_uid = ''p'', p_phase = ''Running'', p_claims = [Some ''claim''], p_claim_statuses = [None]\<rparr>]),
     get_claim := (\<lambda>_ _ _. Inr example_allocation)\<rparr>"

definition replace_config_example :: replace_config where
  "replace_config_example = \<lparr>q_drivers = {''gpu.nvidia.com''}, q_dry_run = False, q_selector = None\<rparr>"

lemma vm_server_accepting: "accepting vm_server"
proof -
  have "documented_rules vm_server" "serves_v1 vm_server"
    using rule_server_documented by (simp_all add: documented_rules_def serves_v1_def vm_server_def)
  moreover have "undisturbed vm_server"
    using quiet_env_undisturbed by (simp add: undisturbed_def vm_server_def rule_server_def)
  ultimately show ?thesis by (simp add: accepting_def vm_server_def rule_server_def)
qed

lemma vm_server_documented: "documented_patch vm_server"
  using quiet_env_documented by (simp add: documented_patch_def vm_server_def rule_server_def)

lemma run_get_preferred_vm:
  "run_state (get_preferred vm_server gk ns name) s = (Inr (Some (if gk = vmiKind then running_vmi else example_object (JObject []))),
     s\<lparr>history := history s @ [LookUpManagement gk None (Inr ''v1''),
       GetObject gk ''v1'' ns name (Inr (if gk = vmiKind then running_vmi else example_object (JObject [])))]\<rparr>)"
  by (simp add: get_preferred_def vm_server_def rule_server_def)

lemma kinds_neq [simp]: "kubevirtMachineKind \<noteq> vmiKind"
  by (simp add: kubevirtMachineKind_def vmiKind_def)

lemma example_external:
  "externalInfra vm_server plain_kube example_cluster (example_object (JObject [])) = State_Monad.return (Inr [])"
  by (simp add: externalInfra_def example_cluster_def kubevirtClusterKind_def hasSecretRef_def example_object_def)

lemma example_vmi:
  "vm_namespace plain_kube (example_object (JObject [])) = Inr ''ns''"
  "u_deletion_timestamp running_vmi = None" "vm_phase plain_kube running_vmi = vmiRunning"
  by (simp_all add: vm_namespace_def running_vmi_def example_object_def vm_phase_def vmiRunning_def string_or_empty_def)

lemma example_vmi_devices:
  "fst (run_state (devices_of_vmi vm_server plain_kube ns running_vmi) s) = Inr [example_device]"
  by (simp add: devices_of_vmi_def claimsOf_def vm_server_def active_pods_def running_vmi_def example_object_def string_entries_def
      claims_of_pods_def pod_counts_def add_claim_def append_new_def add_claim_devices_def example_allocation_def add_result_def
      example_device_def)

lemma example_devices:
  "fst (run_state (Devices vm_server plain_kube example_cluster faulty_machine) s) = Inr [example_device]"
proof -
  have ref: "m_infrastructure faulty_machine = \<lparr>ref_group = fst kubevirtMachineKind, ref_kind = snd kubevirtMachineKind, ref_name = ''m''\<rparr>"
    by (simp add: faulty_machine_def kubevirtMachineKind_def)
  show ?thesis
    by (simp add: Devices_def ref devices_of_machine_def run_get_preferred_vm example_external example_vmi example_vmi_devices Let_def)
qed

lemma reconciled_new_calls:
  assumes "documented_patch E"
  shows "reconciled K cfg ns name (new_calls (Reconcile_replace E K cfg (Devices E K) ns name) s)"
  using does_new_calls [OF kubevirt.does_Reconcile_replace [OF assms]] .

lemma reads_machine_SomeD: "reads_machine ns name c = Some m \<Longrightarrow> c = GetMachine ns name (Inr m)"
  by (cases "(ns, name, c)" rule: reads_machine.cases) (auto split: if_splits)

section \<open>What happens to the example\<close>

lemma faulty_machine_request:
  "m_annotations faulty_machine ReplaceAnnotation = Some RequestQuarantine" "annotation faulty_machine ReplaceStatusAnnotation = []"
  by (simp_all add: faulty_machine_def annotation_def)

lemma vm_server_answers:
  "get_machine vm_server h ''ns'' ''m'' = Inr faulty_machine" "get_cluster vm_server h key = Inr example_cluster"
  by (simp_all add: vm_server_def)

lemma faulty_machine_replaceable:
  "\<not> deleting faulty_machine" "guardReplace plain_kube example_cluster faulty_machine = None"
  by (simp_all add: faulty_machine_def deleting_def annotation_def guardReplace_def example_cluster_def example_machine_def
      IsControlPlane_def IsMarkedForRemediation_def IsPaused_def IsOptedOut_def ownedByMachineSet_def cut_def
      cluster_api_group_def remediate_annotation_def ReplaceAnnotation_def AnnotationPrefix_def paused_annotation_def
      skip_remediation_annotation_def)

lemma example_found:
  "yields (\<lambda>r. r = Inr [example_device]) (Devices vm_server plain_kube example_cluster faulty_machine)"
  by (simp add: yields_def example_devices)

lemma example_selected:
  "Select plain_kube [example_device] (q_drivers replace_config_example) [] = Inr [example_device]"
  by (simp add: Select_def candidates_def append_new_def example_device_def replace_config_example_def)

lemmas example_facts = vm_server_answers faulty_machine_replaceable faulty_machine_request example_found example_selected

lemma example_carried_out:
  "\<exists>(s' :: call world) pre m' rest. run_state (Reconcile_replace vm_server plain_kube replace_config_example (Devices vm_server plain_kube) ''ns'' ''m'')
     \<lparr>history = []\<rparr> = (Inr 0, s') \<and> history s' = history \<lparr>history = []\<rparr> @ pre @ DeleteMachine m' None # rest \<and>
     m_namespace m' = m_namespace faulty_machine \<and> m_name m' = m_name faulty_machine"
  by (rule kubevirt.carried_out_accepted [OF vm_server_accepting plain_kube_readers, where request = RequestQuarantine and names = "[]"
        and held = "[example_device]" and ds = "[example_device]"])
    (use example_facts in \<open>simp_all add: replace_config_example_def rules_fit_def StatusReplacing_def\<close>)

lemma before_delete_Some: "list_ex is_delete cs \<Longrightarrow> \<exists>pre. before_delete cs = Some pre"
  by (induction cs) auto

text \<open>The calls of the example, with what a reconcile is known to start with.\<close>

definition example_replacement :: "call list" where
  "example_replacement = new_calls (Reconcile_replace vm_server plain_kube replace_config_example (Devices vm_server plain_kube) ''ns'' ''m'')
     \<lparr>history = []\<rparr>"

lemma example_replacement_deletes:
  "\<exists>pre m' rest. example_replacement = pre @ DeleteMachine m' None # rest"
proof -
  obtain s' :: "call world" and pre m' rest where "run_state (Reconcile_replace vm_server plain_kube replace_config_example
      (Devices vm_server plain_kube) ''ns'' ''m'') \<lparr>history = []\<rparr> = (Inr 0, s')"
    "history s' = history (\<lparr>history = []\<rparr> :: call world) @ pre @ DeleteMachine m' None # rest" using example_carried_out by blast
  then have "example_replacement = pre @ DeleteMachine m' None # rest" by (simp add: example_replacement_def new_calls_def)
  then show ?thesis by blast
qed

lemma example_replacement_deleted: "\<exists>pre. before_delete example_replacement = Some pre"
proof (rule before_delete_Some)
  obtain pre m' rest where calls: "example_replacement = pre @ DeleteMachine m' None # rest" using example_replacement_deletes by blast
  show "list_ex is_delete example_replacement" unfolding calls by simp
qed

lemma example_replacement_reads:
  "\<exists>m rest. example_replacement = GetMachine ''ns'' ''m'' (Inr m) # rest"
proof -
  have rec: "reconciled plain_kube replace_config_example ''ns'' ''m'' example_replacement"
    unfolding example_replacement_def by (rule reconciled_new_calls [OF vm_server_documented])
  obtain pre m' rest where calls: "example_replacement = pre @ DeleteMachine m' None # rest" using example_replacement_deletes by blast
  then obtain c cs where cs: "example_replacement = c # cs" by (cases pre) auto
  have "reads_machine ''ns'' ''m'' c \<noteq> None"
  proof
    assume "reads_machine ''ns'' ''m'' c = None"
    then have "cs = []" "\<not> machine_write c" using rec by (simp_all add: reconciled_def cs)
    with calls show False unfolding cs by (cases pre) simp_all
  qed
  with cs show ?thesis using reads_machine_SomeD by blast
qed

section \<open>Properties\<close>

text \<open>C1: A Machine is deleted only once its devices are quarantined. When a reconcile deletes a Machine, it was read before
  and was not being deleted, it carried a request, its Cluster was read, is one of the selector's and does not guard it, a
  MachineSet owns it and no remediation is under way, the request was valid, and there are devices, among them every one the request
  names, each of which was seen to be kept from being allocated: by its rule, read back after it was made, or, when the
  request had already got as far as replacing, by the rules found for the Machine. In a dry run none is deleted.\<close>

theorem deletes_only_quarantined:
  assumes "documented_patch E"
    and "before_delete (new_calls (Reconcile_replace E K cfg (Devices E K) ns name) s) = Some pre"
  shows "\<exists>m request cluster names ds. GetMachine ns name (Inr m) \<in> set pre \<and> \<not> deleting m \<and>
    m_annotations m ReplaceAnnotation = Some request \<and> GetCluster (m_namespace m, m_cluster m) (Inr cluster) \<in> set pre \<and>
    (\<forall>matches. q_selector cfg = Some matches \<longrightarrow> matches (c_labels cluster)) \<and>
    \<not> q_dry_run cfg \<and> guardReplace K cluster m = None \<and> ownedByMachineSet K m \<and> \<not> IsMarkedForRemediation m \<and>
    ParseRequest K request = Inr names \<and> Covers ds names \<and> ds \<noteq> [] \<and>
    ((\<forall>d \<in> set ds. d_driver d \<in> q_drivers cfg \<and> list_ex (confirms K d) pre) \<or>
     (annotation m ReplaceStatusAnnotation = StatusReplacing \<and> (\<forall>d \<in> set ds. list_ex (shows_rule K (owner_of cluster m) d) pre)))"
proof -
  let ?cs = "new_calls (Reconcile_replace E K cfg (Devices E K) ns name) s"
  obtain c rest where cs: "?cs = c # rest" using assms(2) by (cases ?cs) auto
  with reconciled_new_calls [OF assms(1), of K cfg ns name s]
  have rec: "case reads_machine ns name c of None \<Rightarrow> rest = [] \<and> \<not> machine_write c | Some m \<Rightarrow> replaced K cfg m rest"
    by (simp add: reconciled_def)
  obtain m where m: "c = GetMachine ns name (Inr m)" and rep: "replaced K cfg m rest"
  proof (cases "reads_machine ns name c")
    case None
    then show ?thesis using rec assms(2) cs by (auto split: if_splits dest: delete_writes)
  next
    case (Some m)
    then show ?thesis using that [OF reads_machine_SomeD [OF Some]] rec by simp
  qed
  from assms(2) cs m obtain pre' where pre: "pre = c # pre'" "before_delete rest = Some pre'" by auto
  with rep obtain request cluster where alive: "\<not> deleting m" and r: "m_annotations m ReplaceAnnotation = Some request"
    and c: "GetCluster (m_namespace m, m_cluster m) (Inr cluster) \<in> set pre'"
    and sel: "\<forall>matches. q_selector cfg = Some matches \<longrightarrow> matches (c_labels cluster)"
    and may: "may_delete K cfg cluster m request pre'" unfolding replaced_def by blast
  from may_delete_more [OF may, of "[c]"] have may: "may_delete K cfg cluster m request pre" by (simp add: pre)
  then obtain names ds where names: "ParseRequest K request = Inr names" "Covers ds names" "quarantined_before K cfg cluster m ds pre"
    and guard: "guardReplace K cluster m = None" "\<not> q_dry_run cfg" unfolding may_delete_def by blast
  have "ownedByMachineSet K m \<and> \<not> IsMarkedForRemediation m"
    using guard(1) by (auto simp: guardReplace_def split: if_splits)
  moreover have "GetMachine ns name (Inr m) \<in> set pre" using m pre by simp
  moreover have "GetCluster (m_namespace m, m_cluster m) (Inr cluster) \<in> set pre" using c pre by simp
  ultimately show ?thesis using alive r sel names guard unfolding quarantined_before_def by blast
qed

theorem deletes_only_quarantined_witness:
  "\<exists>pre m request ds. before_delete (new_calls
      (Reconcile_replace vm_server plain_kube replace_config_example (Devices vm_server plain_kube) ''ns'' ''m'') \<lparr>history = []\<rparr>) = Some pre \<and>
    GetMachine ''ns'' ''m'' (Inr m) \<in> set pre \<and> m_annotations m ReplaceAnnotation = Some request \<and> ds \<noteq> [] \<and> Covers ds []"
proof -
  obtain pre where pre: "before_delete example_replacement = Some pre" using example_replacement_deleted by blast
  with deletes_only_quarantined [OF vm_server_documented, of plain_kube replace_config_example "''ns''" "''m''" "\<lparr>history = []\<rparr> :: call world" pre]
  show ?thesis unfolding example_replacement_def by (auto simp: Covers_def)
qed

text \<open>C6: Each write of the Machine is a step of a request's life. The calls of a reconcile after the Machine was read are a run of
  the request's states: every patch is made from the Machine as read or as last returned, with its resource version,
  every accepted write takes the request one step, and nothing is written once the Machine is gone. So what
  is seen of the request moves only along these steps, and at most one deletion is tried.\<close>

theorem Reconcile_replace_refines:
  assumes "documented_patch E"
    and "new_calls (Reconcile_replace E K cfg (Devices E K) ns name) s = GetMachine ns name (Inr m) # rest"
  shows "\<exists>x. machine_run m rest x \<and> replace_step\<^sup>*\<^sup>* (request_state m) (state_of x) \<and> length (filter is_delete rest) \<le> 1"
proof -
  have "replaced K cfg m rest"
    using reconciled_new_calls [OF assms(1), of K cfg ns name s] by (simp add: assms(2) reconciled_def)
  then obtain x where "machine_run m rest x" "deletes_once rest" by (auto simp: replaced_def)
  then show ?thesis using machine_run_refines deletes_once_def by blast
qed

theorem Reconcile_replace_refines_witness:
  "\<exists>m rest x. new_calls (Reconcile_replace vm_server plain_kube replace_config_example (Devices vm_server plain_kube) ''ns'' ''m'')
      (\<lparr>history = []\<rparr> :: call world) = GetMachine ''ns'' ''m'' (Inr m) # rest \<and>
    machine_run m rest x \<and> replace_step\<^sup>*\<^sup>* (request_state m) (state_of x)"
proof -
  obtain m rest where "example_replacement = GetMachine ''ns'' ''m'' (Inr m) # rest" using example_replacement_reads by blast
  note calls = this [unfolded example_replacement_def]
  from Reconcile_replace_refines [OF vm_server_documented calls] calls show ?thesis by blast
qed

text \<open>How many writes of its Machine a request may still take, whatever becomes of it.\<close>

fun writes_left :: "request_state \<Rightarrow> nat" where
  "writes_left Requested = 3"
| "writes_left Quarantining = 2"
| "writes_left Replacing = 1"
| "writes_left Withdrawn = 1"
| "writes_left _ = 0"

fun accepted_write :: "call \<Rightarrow> bool" where
  "accepted_write (PatchMachine _ _ _ (Inr _)) = True"
| "accepted_write (DeleteMachine _ None) = True"
| "accepted_write _ = False"

lemma writes_left_step: "replace_step s t \<Longrightarrow> writes_left t < writes_left s"
  by (induction rule: replace_step.induct) auto

lemma accepted_is_write: "accepted_write c \<Longrightarrow> machine_write c"
  by (cases c rule: accepted_write.cases) auto

lemma machine_run_writes: "machine_run m cs x \<Longrightarrow> length (filter accepted_write cs) + writes_left (state_of x) \<le> writes_left (request_state m)"
proof (induction rule: machine_run.induct)
  case (other_call c m cs x)
  then show ?case using accepted_is_write by auto
next
  case (patched m m' cs x u)
  then show ?case using writes_left_step by fastforce
next
  case (deleted m cs)
  then have "filter accepted_write cs = []" using accepted_is_write by (auto simp: list_all_iff filter_empty_conv)
  then show ?case using writes_left_step [OF deleted(1)] by simp
qed auto

text \<open>A request comes to rest. Every accepted write of its Machine takes a request nearer to its end: a step is
  never taken back, no run of steps is endless, and the accepted writes of a reconcile are no more than what was left to do,
  three at most, less what is still left after them. So without the operator's doing no request keeps a Machine being written.\<close>

theorem Reconcile_replace_comes_to_rest:
  assumes "documented_patch E"
    and "new_calls (Reconcile_replace E K cfg (Devices E K) ns name) s = GetMachine ns name (Inr m) # rest"
  shows "wfP (\<lambda>t s. replace_step s t) \<and> writes_left (request_state m) \<le> 3 \<and>
    (\<exists>x. machine_run m rest x \<and> length (filter accepted_write rest) + writes_left (state_of x) \<le> writes_left (request_state m))"
proof -
  have "replaced K cfg m rest"
    using reconciled_new_calls [OF assms(1), of K cfg ns name s] by (simp add: assms(2) reconciled_def)
  then obtain x where "machine_run m rest x" by (auto simp: replaced_def)
  moreover have "wfP (\<lambda>t s. replace_step s t)"
    by (rule wfp_if_convertible_to_nat [where f = writes_left]) (rule writes_left_step)
  moreover have "writes_left r \<le> 3" for r by (cases r) auto
  ultimately show ?thesis using machine_run_writes by blast
qed

theorem Reconcile_replace_comes_to_rest_witness:
  "\<exists>m rest. new_calls (Reconcile_replace vm_server plain_kube replace_config_example (Devices vm_server plain_kube) ''ns'' ''m'')
      (\<lparr>history = []\<rparr> :: call world) = GetMachine ''ns'' ''m'' (Inr m) # rest \<and>
    (\<exists>x. machine_run m rest x \<and> length (filter accepted_write rest) + writes_left (state_of x) \<le> writes_left (request_state m))"
proof -
  obtain m rest where "example_replacement = GetMachine ''ns'' ''m'' (Inr m) # rest" using example_replacement_reads by blast
  note calls = this [unfolded example_replacement_def]
  from Reconcile_replace_comes_to_rest [OF vm_server_documented calls] calls show ?thesis by blast
qed

text \<open>C8: A clear request is carried out. When the calls it needs are answered (\<open>accepting\<close>: writes are accepted, the server
  serves v1 rules and answers for the rules made), a Machine that may be replaced and whose request asks
  clearly for devices its VM holds is deleted in one reconcile, whatever became of the rules for them before.\<close>

theorem clear_request_carried_out:
  fixes s :: "(call, 'w) world_scheme"
  assumes "accepting E" and "documented_readers K" and "get_machine E (history s) ns name = Inr m" and "\<not> deleting m"
    and "m_annotations m ReplaceAnnotation = Some request" and "annotation m ReplaceStatusAnnotation \<noteq> StatusReplacing"
    and "\<not> IsRejected (annotation m ReplaceStatusAnnotation)"
    and "\<And>h. get_cluster E h (m_namespace m, m_cluster m) = Inr cluster"
    and "\<And>matches. q_selector cfg = Some matches \<Longrightarrow> matches (c_labels cluster)" and "\<not> q_dry_run cfg"
    and "guardReplace K cluster m = None" and "ParseRequest K request = Inr names"
    and "yields (\<lambda>r. r = Inr held) (Devices E K cluster m :: ((call, 'w) world_scheme, go_error + device list) state)"
    and "Select K held (q_drivers cfg) names = Inr ds"
    and "inj_on RuleName (set ds)" and "rules_fit K (set ds) (history s)"
  shows "fst (run_state (Reconcile_replace E K cfg (Devices E K) ns name) s) = Inr 0 \<and>
    (\<exists>m'. DeleteMachine m' None \<in> set (new_calls (Reconcile_replace E K cfg (Devices E K) ns name) s) \<and>
      m_namespace m' = m_namespace m \<and> m_name m' = m_name m)"
proof -
  have "\<exists>s' pre m' rest. run_state (Reconcile_replace E K cfg (Devices E K) ns name) s = (Inr 0, s') \<and>
    history s' = history s @ pre @ DeleteMachine m' None # rest \<and> m_namespace m' = m_namespace m \<and> m_name m' = m_name m"
    by (rule kubevirt.carried_out_accepted [OF assms(1-7) _ _ assms(10-16)]) (fact assms(8), fact assms(9))
  then show ?thesis by (auto simp: new_calls_def)
qed

theorem clear_request_carried_out_witness:
  "fst (run_state (Reconcile_replace vm_server plain_kube replace_config_example (Devices vm_server plain_kube) ''ns'' ''m'')
      (\<lparr>history = []\<rparr> :: call world)) = Inr 0 \<and>
   (\<exists>m'. DeleteMachine m' None \<in> set (new_calls
        (Reconcile_replace vm_server plain_kube replace_config_example (Devices vm_server plain_kube) ''ns'' ''m'') (\<lparr>history = []\<rparr> :: call world)) \<and>
      m_namespace m' = m_namespace faulty_machine \<and> m_name m' = m_name faulty_machine)"
  by (rule clear_request_carried_out [OF vm_server_accepting plain_kube_readers, where m = faulty_machine and cluster = example_cluster
        and cfg = replace_config_example and s = "\<lparr>history = []\<rparr>" and ns = "''ns''" and name = "''m''" and request = RequestQuarantine and names = "[]"
        and held = "[example_device]" and ds = "[example_device]"])
    (use example_facts in \<open>simp_all add: replace_config_example_def rules_fit_def StatusReplacing_def\<close>)

text \<open>C18: What a reconcile may do. It patches only the status annotation of the Machine, always with a lock on the version it
  read, to no value but none, quarantining, replacing or a rejection; it creates only DeviceTaintRules of the form of
  \<open>rule_object\<close>; its events fit their limit; and a dry run patches, deletes, creates and announces nothing.\<close>

theorem Reconcile_replace_calls:
  "list_all (replace_call K (q_dry_run cfg)) (new_calls (Reconcile_replace E K cfg (Devices E K) ns name) s) \<and>
   \<not> (q_dry_run cfg \<and> list_ex is_write (new_calls (Reconcile_replace E K cfg (Devices E K) ns name) s))"
proof -
  have calls: "list_all (replace_call K (q_dry_run cfg)) (new_calls (Reconcile_replace E K cfg (Devices E K) ns name) s)"
    using does_new_calls [OF does_emits [OF kubevirt.emits_Reconcile_replace]] .
  moreover have "\<not> list_ex is_write cs" if "list_all (replace_call K True) cs" for cs
    using that replace_call_dry by (auto simp: list_all_iff list_ex_iff)
  ultimately show ?thesis by auto
qed

text \<open>C19: A change under the controller's feet is not an error. Whenever a patch or a deletion of the Machine is refused because
  the Machine has changed, the reconcile ends well and asks to be run again in a second, whatever it was doing.\<close>

theorem refused_writes_retried:
  assumes "list_ex refused (new_calls (Reconcile_replace E K cfg (Devices E K) ns name) s)"
  shows "fst (run_state (Reconcile_replace E K cfg (Devices E K) ns name) s) = Inr conflictRetry"
proof -
  obtain r s' where run: "run_state (Reconcile_replace E K cfg (Devices E K) ns name) s = (r, s')" by fastforce
  with assms doesD [OF kubevirt.conflict_Reconcile_replace run] show ?thesis by (auto simp: new_calls_def)
qed

definition withdrawn_machine :: machine where
  "withdrawn_machine = example_machine\<lparr>m_annotations := [ReplaceStatusAnnotation \<mapsto> StatusQuarantining]\<rparr>"

definition busy_server :: env where
  "busy_server = vm_server\<lparr>get_machine := (\<lambda>_ _ _. Inr withdrawn_machine), patch_machine := (\<lambda>_ _ _ _. Inl (ApiError Conflict ''changed''))\<rparr>"

theorem refused_writes_retried_witness:
  "fst (run_state (Reconcile_replace busy_server plain_kube replace_config_example (Devices busy_server plain_kube) ''ns'' ''m'')
      (\<lparr>history = []\<rparr> :: call world)) = Inr conflictRetry"
proof (rule refused_writes_retried)
  have m: "get_machine busy_server h ns name = Inr withdrawn_machine" "\<not> deleting withdrawn_machine"
    "m_annotations withdrawn_machine ReplaceAnnotation = None" "m_annotations withdrawn_machine ReplaceStatusAnnotation = Some StatusQuarantining"
    "annotation withdrawn_machine ReplaceStatusAnnotation \<noteq> []" for h ns name
    by (simp_all add: busy_server_def withdrawn_machine_def deleting_def example_machine_def annotation_def
        ReplaceAnnotation_def ReplaceStatusAnnotation_def AnnotationPrefix_def StatusQuarantining_def)
  have p: "patch_machine busy_server h b u l = Inl (ApiError Conflict ''changed'')" for h b u l by (simp add: busy_server_def)
  show "list_ex refused (new_calls (Reconcile_replace busy_server plain_kube replace_config_example (Devices busy_server plain_kube) ''ns'' ''m'')
      (\<lparr>history = []\<rparr> :: call world))"
    using m p by (simp add: new_calls_def Reconcile_replace_def replace_def setStatus_def patch_def replace_config_example_def StatusQuarantining_def Let_def)
qed

text \<open>A rejection whose patch is accepted.\<close>

definition rejected_as :: "machine \<Rightarrow> string \<Rightarrow> string \<Rightarrow> machine" where
  "rejected_as m reason v = (with_status m (RejectedStatus reason))\<lparr>m_resource_version := v\<rparr>"

lemma rejected_as_settled:
  assumes "m_annotations m ReplaceAnnotation = Some request"
  shows "request_state (rejected_as m reason v) = Rejected \<and> annotation (rejected_as m reason v) ReplaceStatusAnnotation = RejectedStatus reason"
proof -
  have "m_annotations (rejected_as m reason v) = m_annotations (with_status m (RejectedStatus reason))" by (simp add: rejected_as_def)
  from request_state_cong [OF this] show ?thesis
    by (simp add: request_state_with_status(3) [OF assms]) (simp add: rejected_as_def with_status_def annotation_def)
qed

lemma reject_accepted:
  assumes "undisturbed E" and "\<not> IsRejected (annotation m ReplaceStatusAnnotation)" and "\<not> q_dry_run cfg"
  shows "\<exists>v. run_state (reject E K cfg m request reason message) s = ((None, rejected_as m reason v), s\<lparr>history := history s @
      [LogLine Info ''replace request rejected'',
       PatchMachine m (with_status m (RejectedStatus reason)) True (Inr (rejected_as m reason v)),
       EmitEvent (on_machine (rejected_as m reason v)) WarningEvent EventQuarantineRejected ActionQuarantine
         (EventNote (''Replace request '' @ quote K request @ '' rejected ('' @ reason @ ''): '' @ message))]\<rparr>)"
proof -
  let ?h = "history s @ [LogLine Info ''replace request rejected'']"
  obtain v where v: "patch_machine E ?h m (with_status m (RejectedStatus reason)) True = Inr (rejected_as m reason v)"
    using assms(1) unfolding undisturbed_def rejected_as_def by blast
  have anew: "m_annotations m ReplaceStatusAnnotation \<noteq> Some (RejectedStatus reason)" "RejectedStatus reason \<noteq> []"
    using assms(2) by (auto simp: annotation_def)
  show ?thesis by (intro exI [of _ v]) (simp add: reject_def setStatus_def assms(3) anew v)
qed

definition paused_server :: env where
  "paused_server = vm_server\<lparr>get_cluster := (\<lambda>_ _. Inr (example_cluster\<lparr>c_spec_paused := Some True\<rparr>))\<rparr>"

text \<open>C20: What stands against a replacement is told. A request for a Machine that a guard keeps from being replaced is
  rejected with the guard's reason in the status, read back as rejected, and an event that says why; the calls made are exactly
  these, so that no device is looked for, no rule made and nothing deleted.\<close>

theorem guarded_request_rejected:
  assumes "undisturbed E" and "get_machine E (history s) ns name = Inr m" and "\<not> deleting m"
    and "m_annotations m ReplaceAnnotation = Some request" and "\<not> IsRejected (annotation m ReplaceStatusAnnotation)"
    and "\<And>h. get_cluster E h (m_namespace m, m_cluster m) = Inr cluster"
    and "\<And>matches. q_selector cfg = Some matches \<Longrightarrow> matches (c_labels cluster)" and "\<not> q_dry_run cfg"
    and "guardReplace K cluster m = Some (reason, message)"
  shows "\<exists>m'. run_state (Reconcile_replace E K cfg (Devices E K) ns name) s = (Inr 0, s\<lparr>history := history s @
      [GetMachine ns name (Inr m), GetCluster (m_namespace m, m_cluster m) (Inr cluster), LogLine Info ''replace request rejected'',
       PatchMachine m (with_status m (RejectedStatus reason)) True (Inr m'),
       EmitEvent (on_machine m') WarningEvent EventQuarantineRejected ActionQuarantine
         (EventNote (''Replace request '' @ quote K request @ '' rejected ('' @ reason @ ''): '' @ message))]\<rparr>) \<and>
    request_state m' = Rejected \<and> annotation m' ReplaceStatusAnnotation = RejectedStatus reason"
proof -
  let ?t = "s\<lparr>history := history s @ [GetMachine ns name (Inr m), GetCluster (m_namespace m, m_cluster m) (Inr cluster)]\<rparr>"
  obtain v where rejected: "run_state (reject E K cfg m request reason message) ?t = ((None, rejected_as m reason v), ?t\<lparr>history := history ?t @
      [LogLine Info ''replace request rejected'',
       PatchMachine m (with_status m (RejectedStatus reason)) True (Inr (rejected_as m reason v)),
       EmitEvent (on_machine (rejected_as m reason v)) WarningEvent EventQuarantineRejected ActionQuarantine
         (EventNote (''Replace request '' @ quote K request @ '' rejected ('' @ reason @ ''): '' @ message))]\<rparr>)"
    using reject_accepted [OF assms(1,5,8)] by blast
  have selected: "\<not> (case q_selector cfg of None \<Rightarrow> False | Some matches \<Rightarrow> \<not> matches (c_labels cluster))"
    using assms(7) by (auto split: option.splits)
  have "run_state (replace E K cfg (Devices E K) m) (s\<lparr>history := history s @ [GetMachine ns name (Inr m)]\<rparr>) =
      (None, snd (run_state (reject E K cfg m request reason message) ?t))"
    unfolding replace_def carry_out_def using selected assms(6) rejected by (simp add: assms(3-5,9) Let_def)
  then show ?thesis using rejected_as_settled [OF assms(4)] rejected assms(2)
    by (intro exI [of _ "rejected_as m reason v"]) (simp add: Reconcile_replace_def)
qed

theorem guarded_request_rejected_witness:
  "\<exists>m'. annotation m' ReplaceStatusAnnotation = RejectedStatus QuarantineClusterPaused \<and> request_state m' = Rejected \<and>
     fst (run_state (Reconcile_replace paused_server plain_kube replace_config_example (Devices paused_server plain_kube) ''ns'' ''m'')
       (\<lparr>history = []\<rparr> :: call world)) = Inr 0"
proof -
  have und: "undisturbed paused_server" using vm_server_accepting by (simp add: accepting_def undisturbed_def paused_server_def)
  have facts: "get_machine paused_server h ''ns'' ''m'' = Inr faulty_machine"
    "get_cluster paused_server h key = Inr (example_cluster\<lparr>c_spec_paused := Some True\<rparr>)"
    "guardReplace plain_kube (example_cluster\<lparr>c_spec_paused := Some True\<rparr>) faulty_machine = Some (QuarantineClusterPaused, ''the Cluster is paused'')"
    for h key by (simp_all add: paused_server_def vm_server_def guardReplace_def)
  from guarded_request_rejected [OF und facts(1) faulty_machine_replaceable(1) faulty_machine_request(1) _ _ _ _ facts(3),
      where cfg = replace_config_example and s = "\<lparr>history = []\<rparr> :: call world"]
  show ?thesis using facts faulty_machine_request by (auto simp: replace_config_example_def)
qed

definition idle_server :: env where
  "idle_server = vm_server\<lparr>get_machine := (\<lambda>_ _ _. Inr example_machine)\<rparr>"

text \<open>C21: What is settled stays so. A Machine that is being deleted, one with neither a request nor a status, and one whose request
  was rejected are left alone: the reconcile ends well and writes nothing, until the request or its status is changed.\<close>

theorem settled_requests_stay:
  assumes "get_machine E (history s) ns name = Inr m"
    and "deleting m \<or> request_state m \<in> {Idle, Rejected}"
  shows "fst (run_state (Reconcile_replace E K cfg (Devices E K) ns name) s) = Inr 0 \<and>
    \<not> list_ex is_write (new_calls (Reconcile_replace E K cfg (Devices E K) ns name) s)"
  using assms
  by (auto simp: Reconcile_replace_def replace_def new_calls_def request_state_def Let_def split: option.splits if_splits)

theorem settled_requests_stay_witness:
  "fst (run_state (Reconcile_replace idle_server plain_kube replace_config_example (Devices idle_server plain_kube) ''ns'' ''m'')
      (\<lparr>history = []\<rparr> :: call world)) = Inr 0"
  by (rule settled_requests_stay [where m = example_machine, THEN conjunct1])
    (simp_all add: idle_server_def request_state_def example_machine_def annotation_def)

text \<open>C24: The devices of a Machine are those its running VM is allocated. The devices the locator returns, in order and each
  once, are exactly the ones allocated (other than for monitoring) to the claims it read; it read the claims named by
  the pods of the VM's instance that count (active, or not ended where none is listed as active) and no other; and the
  instance was running, not being deleted, and in this cluster as far as its KubevirtMachine tells.\<close>

theorem Devices_allocated:
  assumes "fst (run_state (Devices E K cluster m) s) = Inr ds"
  shows "sorted ds \<and> distinct ds \<and> set ds = all_devices_read (new_calls (Devices E K cluster m) s) \<and>
    (\<exists>v1 kvm v2 ns vmi pods.
      GetObject kubevirtMachineKind v1 (m_namespace m) (ref_name (m_infrastructure m)) (Inr kvm) \<in> set (new_calls (Devices E K cluster m) s) \<and>
      \<not> hasSecretRef K kvm \<and> GetObject vmiKind v2 ns (u_name kvm) (Inr vmi) \<in> set (new_calls (Devices E K cluster m) s) \<and>
      u_deletion_timestamp vmi = None \<and> vm_phase K vmi = vmiRunning \<and>
      ListPods (u_namespace vmi) (u_uid vmi) (Inr pods) \<in> set (new_calls (Devices E K cluster m) s) \<and>
      distinct (claims_asked (new_calls (Devices E K cluster m) s)) \<and>
      set (claims_asked (new_calls (Devices E K cluster m) s)) = {n. n \<noteq> [] \<and> (\<exists>p \<in> set pods.
        pod_counts (active_pods K vmi) p \<and> (Some n \<in> set (p_claims p) \<or> Some n \<in> set (p_claim_statuses p)))})"
proof -
  obtain s' where run: "run_state (Devices E K cluster m) s = (Inr ds, s')" using assms by (metis prod.collapse)
  from run have calls: "history s' = history s @ new_calls (Devices E K cluster m) s"
    using doesD [OF does_Devices run] by (auto simp: new_calls_def)
  with doesD [OF does_Devices run] obtain v1 kvm v2 ns vmi where
    seen: "GetObject kubevirtMachineKind v1 (m_namespace m) (ref_name (m_infrastructure m)) (Inr kvm) \<in> set (new_calls (Devices E K cluster m) s)"
      "\<not> hasSecretRef K kvm" "GetObject vmiKind v2 ns (u_name kvm) (Inr vmi) \<in> set (new_calls (Devices E K cluster m) s)"
      "u_deletion_timestamp vmi = None" "vm_phase K vmi = vmiRunning"
    and shown: "shows_devices K vmi ds (new_calls (Devices E K cluster m) s)" by auto
  from shown obtain pods where pods: "ListPods (u_namespace vmi) (u_uid vmi) (Inr pods) \<in> set (new_calls (Devices E K cluster m) s)"
    and claims: "claims_asked (new_calls (Devices E K cluster m) s) = claims_of_pods (active_pods K vmi) pods" by (auto simp: shows_devices_def)
  have devices: "sorted ds" "distinct ds" "set ds = all_devices_read (new_calls (Devices E K cluster m) s)"
    using shown by (simp_all add: shows_devices_def)
  have "distinct (claims_asked (new_calls (Devices E K cluster m) s))"
    unfolding claims by (rule distinct_claims_of_pods)
  moreover have "set (claims_asked (new_calls (Devices E K cluster m) s)) = {n. n \<noteq> [] \<and> (\<exists>p \<in> set pods.
      pod_counts (active_pods K vmi) p \<and> (Some n \<in> set (p_claims p) \<or> Some n \<in> set (p_claim_statuses p)))}"
    unfolding claims by (rule set_claims_of_pods)
  ultimately show ?thesis by (intro conjI devices exI) (rule seen pods | assumption)+
qed

theorem Devices_allocated_witness:
  "all_devices_read (new_calls (Devices vm_server plain_kube example_cluster faulty_machine) (\<lparr>history = []\<rparr> :: call world)) = {example_device}"
proof -
  have "set [example_device] = all_devices_read (new_calls (Devices vm_server plain_kube example_cluster faulty_machine) (\<lparr>history = []\<rparr> :: call world))"
    by (rule Devices_allocated [OF example_devices, THEN conjunct2, THEN conjunct2, THEN conjunct1])
  from this [symmetric] show ?thesis by (simp only: list.set)
qed

section \<open>What is noticed\<close>

text \<open>Every update of a Machine that changes the state of its request, or withdraws it and asks again in other words, passes, and
  so does the first sight of a Machine that has anything to do.\<close>

lemma request_changes_admitted:
  "((request_state old = request_state new \<and> m_annotations old ReplaceAnnotation = m_annotations new ReplaceAnnotation) \<or>
     replaceRequestChanged (MachineUpdated old new)) \<and>
   (request_state m = Idle \<or> replaceRequestChanged (MachineCreated m))"
proof (rule conjI)
  have same: "request_state old = request_state new"
    if "m_annotations old ReplaceAnnotation = m_annotations new ReplaceAnnotation"
      "m_annotations old ReplaceStatusAnnotation = m_annotations new ReplaceStatusAnnotation"
    using that by (simp add: request_state_def annotation_def)
  then show "(request_state old = request_state new \<and> m_annotations old ReplaceAnnotation = m_annotations new ReplaceAnnotation) \<or>
     replaceRequestChanged (MachineUpdated old new)"
    by (auto simp: request_keys_def)
  show "request_state m = Idle \<or> replaceRequestChanged (MachineCreated m)"
    by (cases "m_annotations m ReplaceAnnotation") (auto simp: request_state_def annotation_def request_keys_def split: option.splits)
qed

end
