(* ===== verification/Setup.thy ===== *)
theory Setup
  imports Remembering ReplaceProperties
begin

text \<open>
  How the program is put together (\<open>cmd/manager/main.go\<close>): the flags are read one after another, the first that is
  wrong ends the program, and otherwise they give what the two controllers are configured with. The manager, the caches
  and the clients are controller-runtime's, and so is the parser of label selectors, a parameter here.
\<close>

section \<open>The flags\<close>

record options =
  op_selector :: string
  op_fallback :: string
  op_decisions :: string
  op_drivers :: string
  op_dry_run :: bool
  op_quarantine :: bool
  op_poll_interval :: int

definition default_options :: options where
  "default_options = \<lparr>op_selector = [], op_fallback = fallback_string RestartFallbackReport, op_decisions = [],
     op_drivers = [], op_dry_run = True, op_quarantine = False, op_poll_interval = DefaultPollInterval\<rparr>"

section \<open>The drivers\<close>

definition bad_driver :: "kube \<Rightarrow> string \<Rightarrow> go_error" where
  "bad_driver K name = Plain (''driver '' @ quote K name @ '': '' @ join ''; '' (dns1123_errors K name))"

definition no_drivers :: go_error where
  "no_drivers = Plain ''--device-quarantine needs at least one driver''"

fun add_drivers :: "kube \<Rightarrow> string list \<Rightarrow> string set \<Rightarrow> go_error + string set" where
  "add_drivers K [] drivers = Inr drivers"
| "add_drivers K (part # parts) drivers =
     (let name = trim_space part
      in if name = [] then add_drivers K parts drivers
         else if dns1123_errors K name \<noteq> [] then Inl (bad_driver K name)
         else add_drivers K parts (insert name drivers))"

definition parseDrivers :: "kube \<Rightarrow> string \<Rightarrow> go_error + string set" where
  "parseDrivers K s = (case add_drivers K (split_on CHR '','' s) {} of
     Inl err \<Rightarrow> Inl err
   | Inr drivers \<Rightarrow> if drivers = {} then Inl no_drivers else Inr drivers)"

section \<open>Starting\<close>

datatype startup_error =
  InvalidSelector go_error
| InvalidFallback go_error
| InvalidDecisions decision_error
| InvalidDrivers go_error

text \<open>What the controllers are made of, and what is logged about the flags. The second one is only set up on request.\<close>

record program =
  pr_cluster :: config
  pr_replace :: "replace_config option"
  pr_logged :: "string list"

definition read_selector ::
  "(string \<Rightarrow> go_error + (labels \<Rightarrow> bool)) \<Rightarrow> string \<Rightarrow> startup_error + (labels \<Rightarrow> bool) option" where
  "read_selector parse s =
     (if s = [] then Inr None
      else (case parse s of Inl err \<Rightarrow> Inl (InvalidSelector err) | Inr matches \<Rightarrow> Inr (Some matches)))"

definition read_table :: "string \<Rightarrow> startup_error + table" where
  "read_table s = (case ParseOverrides s of
     Inl err \<Rightarrow> Inl (InvalidDecisions err)
   | Inr overrides \<Rightarrow> (case New overrides of Inl err \<Rightarrow> Inl (InvalidDecisions err) | Inr table \<Rightarrow> Inr table))"

definition read_drivers :: "kube \<Rightarrow> bool \<Rightarrow> string \<Rightarrow> startup_error + string set" where
  "read_drivers K deviceQuarantine s =
     (if deviceQuarantine then (case parseDrivers K s of Inl err \<Rightarrow> Inl (InvalidDrivers err) | Inr drivers \<Rightarrow> Inr drivers)
      else Inr {})"

definition custom_actions_note :: string where
  "custom_actions_note = ''the decision table has entries for actions NVSentinel does not recommend itself; '' @
     ''they apply to custom actions of exactly these names''"

definition ignored_drivers_note :: string where
  "ignored_drivers_note = ''--quarantine-drivers is ignored without --device-quarantine''"

text \<open>What the two reconcilers are made with; setting the first one up gives it its watcher.\<close>

definition cluster_config :: "table \<Rightarrow> bool \<Rightarrow> int \<Rightarrow> (labels \<Rightarrow> bool) option \<Rightarrow> restart_fallback \<Rightarrow> config" where
  "cluster_config table dryRun interval selector fallback =
     \<lparr>cf_table = table, cf_dry_run = dryRun, cf_poll_interval = interval, cf_selector = selector, cf_fallback = fallback,
      cf_watcher = True\<rparr>"

definition machine_config :: "string set \<Rightarrow> bool \<Rightarrow> (labels \<Rightarrow> bool) option \<Rightarrow> replace_config" where
  "machine_config drivers dryRun selector = \<lparr>q_drivers = drivers, q_dry_run = dryRun, q_selector = selector\<rparr>"

definition startup :: "kube \<Rightarrow> (string \<Rightarrow> go_error + (labels \<Rightarrow> bool)) \<Rightarrow> options \<Rightarrow> startup_error + program" where
  "startup K parse op = (case read_selector parse (op_selector op) of
     Inl err \<Rightarrow> Inl err
   | Inr selector \<Rightarrow> (case ParseRestartFallback K (op_fallback op) of
       Inl err \<Rightarrow> Inl (InvalidFallback err)
     | Inr fallback \<Rightarrow> (case read_table (op_decisions op) of
         Inl err \<Rightarrow> Inl err
       | Inr table \<Rightarrow> (case read_drivers K (op_quarantine op) (op_drivers op) of
           Inl err \<Rightarrow> Inl err
         | Inr drivers \<Rightarrow> Inr \<lparr>
             pr_cluster = cluster_config table (op_dry_run op) (op_poll_interval op) selector fallback,
             pr_replace = (if op_quarantine op then Some (machine_config drivers (op_dry_run op) selector) else None),
             pr_logged = (if CustomActions table \<noteq> [] then [custom_actions_note] else []) @
               (if \<not> op_quarantine op \<and> op_drivers op \<noteq> [] then [ignored_drivers_note] else [])\<rparr>))))"

section \<open>Facts\<close>

text \<open>The names among the parts of the flag.\<close>

definition driver_names :: "string \<Rightarrow> string list" where
  "driver_names s = filter (\<lambda>name. name \<noteq> []) (map trim_space (split_on CHR '','' s))"

lemma add_drivers_eq:
  "add_drivers K parts drivers =
     (let names = filter (\<lambda>name. name \<noteq> []) (map trim_space parts)
      in case find (\<lambda>name. dns1123_errors K name \<noteq> []) names of
        Some name \<Rightarrow> Inl (bad_driver K name)
      | None \<Rightarrow> Inr (drivers \<union> set names))"
  by (induction parts arbitrary: drivers) (simp_all add: Let_def split: option.split)

lemma parseDrivers_eq:
  "parseDrivers K s =
     (case find (\<lambda>name. dns1123_errors K name \<noteq> []) (driver_names s) of
        Some name \<Rightarrow> Inl (bad_driver K name)
      | None \<Rightarrow> if driver_names s = [] then Inl no_drivers else Inr (set (driver_names s)))"
  by (simp add: parseDrivers_def add_drivers_eq driver_names_def [symmetric] Let_def split: option.split)

lemma parseDrivers_Inr:
  "parseDrivers K s = Inr drivers \<Longrightarrow> drivers \<noteq> {} \<and> drivers = set (driver_names s) \<and> (\<forall>name \<in> drivers. name \<noteq> [] \<and> dns1123_errors K name = [])"
  by (auto simp: parseDrivers_eq find_None_iff driver_names_def split: option.splits if_splits)

lemma startup_Inr:
  assumes "startup K parse op = Inr p"
  shows "cf_dry_run (pr_cluster p) = op_dry_run op" "pr_replace p = Some q \<Longrightarrow> q_dry_run q = op_dry_run op"
    "pr_replace p = Some q \<Longrightarrow> q_selector q = cf_selector (pr_cluster p)"
    "pr_replace p = None \<longleftrightarrow> \<not> op_quarantine op"
    "pr_replace p = Some q \<Longrightarrow> parseDrivers K (op_drivers op) = Inr (q_drivers q)"
    "\<exists>overrides. ParseOverrides (op_decisions op) = Inr overrides \<and> New overrides = Inr (cf_table (pr_cluster p))"
    "ParseRestartFallback K (op_fallback op) = Inr (cf_fallback (pr_cluster p))"
  using assms by (auto simp: startup_def cluster_config_def machine_config_def read_drivers_def read_table_def split: sum.splits if_splits)

section \<open>Properties\<close>

text \<open>A program started for a dry run, as it is by default, writes nothing: neither controller makes a
  single write, whatever it reconciles, from whatever it remembers, and whatever the server answers.\<close>

theorem startup_dry_run:
  assumes "startup K parse op = Inr p" and "op_dry_run op"
  shows "\<not> list_ex is_write (new_calls (Reconcile E K (pr_cluster p) key) s) \<and>
    \<not> (\<exists>q. pr_replace p = Some q \<and> list_ex is_write (new_calls (Reconcile_replace E K q (Devices E K) ns name) t))"
proof
  have "list_all (cautious K True) (new_calls (Reconcile E K (pr_cluster p) key) s)"
    using Reconcile_cautious_calls [of K "pr_cluster p" E key s] startup_Inr(1) [OF assms(1)] assms(2) by simp
  then show "\<not> list_ex is_write (new_calls (Reconcile E K (pr_cluster p) key) s)"
    by (auto simp: list_all_iff list_ex_iff dest: cautious_dry_run)
  show "\<not> (\<exists>q. pr_replace p = Some q \<and> list_ex is_write (new_calls (Reconcile_replace E K q (Devices E K) ns name) t))"
  proof
    assume "\<exists>q. pr_replace p = Some q \<and> list_ex is_write (new_calls (Reconcile_replace E K q (Devices E K) ns name) t)"
    then obtain q where q: "pr_replace p = Some q" "list_ex is_write (new_calls (Reconcile_replace E K q (Devices E K) ns name) t)" by blast
    have "list_all (replace_call K True) (new_calls (Reconcile_replace E K q (Devices E K) ns name) t)"
      using does_new_calls [OF does_emits [OF kubevirt.emits_Reconcile_replace [of K q E E K ns name]], of t]
        startup_Inr(2) [OF assms(1) q(1)] assms(2) by simp
    with q(2) show False by (auto simp: list_all_iff list_ex_iff dest: replace_call_dry)
  qed
qed

lemma startup_default:
  "startup plain_kube parse default_options = Inr \<lparr>
     pr_cluster = \<lparr>cf_table = Default, cf_dry_run = True, cf_poll_interval = DefaultPollInterval, cf_selector = None,
       cf_fallback = RestartFallbackReport, cf_watcher = True\<rparr>,
     pr_replace = None, pr_logged = []\<rparr>"
proof -
  have "read_table [] = Inr Default" by (simp add: read_table_def ParseOverrides_def New_def Default_def)
  moreover have "CustomActions Default = []" by (simp add: CustomActions_def Default_def defaults_def IsKnownAction_def knownActions_def)
  ultimately show ?thesis
    by (simp add: startup_def cluster_config_def default_options_def read_selector_def read_drivers_def ParseRestartFallback_def)
qed

theorem startup_dry_run_witness:
  "\<not> list_ex is_write (new_calls (Reconcile quiet_env plain_kube
      \<lparr>cf_table = Default, cf_dry_run = True, cf_poll_interval = DefaultPollInterval, cf_selector = None,
       cf_fallback = RestartFallbackReport, cf_watcher = True\<rparr> (''ns'', ''c'')) fresh_reconciler)"
  using startup_dry_run [OF startup_default [of "\<lambda>_. Inl (Plain [])"], of quiet_env "(''ns'', ''c'')" fresh_reconciler]
  by (simp add: default_options_def)

text \<open>The two controllers agree. A program that starts has a table made of exactly the overrides it was given; it quarantines
  devices only when told to, and then only those of the drivers it was given, at least one, all with valid
  names, on the Clusters the other controller watches, in dry run whenever that one is.\<close>

theorem startup_consistent:
  assumes "startup K parse op = Inr p"
  shows "(\<exists>overrides. ParseOverrides (op_decisions op) = Inr overrides \<and> New overrides = Inr (cf_table (pr_cluster p))) \<and>
    ParseRestartFallback K (op_fallback op) = Inr (cf_fallback (pr_cluster p)) \<and>
    (case pr_replace p of
       None \<Rightarrow> \<not> op_quarantine op
     | Some q \<Rightarrow> op_quarantine op \<and> q_drivers q \<noteq> {} \<and> (\<forall>name \<in> q_drivers q. name \<noteq> [] \<and> dns1123_errors K name = []) \<and>
         q_selector q = cf_selector (pr_cluster p) \<and> q_dry_run q = cf_dry_run (pr_cluster p))"
proof -
  note facts = startup_Inr [OF assms]
  have "case pr_replace p of
       None \<Rightarrow> \<not> op_quarantine op
     | Some q \<Rightarrow> op_quarantine op \<and> q_drivers q \<noteq> {} \<and> (\<forall>name \<in> q_drivers q. name \<noteq> [] \<and> dns1123_errors K name = []) \<and>
         q_selector q = cf_selector (pr_cluster p) \<and> q_dry_run q = cf_dry_run (pr_cluster p)"
  proof (cases "pr_replace p")
    case None
    then show ?thesis using facts(4) by simp
  next
    case (Some q)
    show ?thesis unfolding Some option.case using parseDrivers_Inr [OF facts(5) [OF Some]] facts(1) facts(2,3) [OF Some] facts(4) Some
      by auto
  qed
  with facts(6,7) show ?thesis by blast
qed

theorem startup_consistent_witness:
  "\<exists>overrides. ParseOverrides [] = Inr overrides \<and> New overrides = Inr Default"
  using startup_consistent [OF startup_default [of "\<lambda>_. Inl (Plain [])"]] by (simp add: default_options_def)

end
