(* ===== verification/Registration.thy ===== *)
theory Registration
  imports Remembering ReplaceProperties
begin

text \<open>
  What wakes the two controllers (\<open>SetupWithManager\<close> of both, \<open>clusterToRequest\<close>, and the watch \<open>watchRequests\<close> adds):
  which events of the management cluster, of the cluster cache and of the workload clusters' requests become which
  reconciles. What controller-runtime and Cluster API's predicates admit is a parameter: an object's spec changed, and
  a Cluster was paused or unpaused.
\<close>

section \<open>The cluster controller\<close>

datatype cluster_event =
  ClusterCreated cluster
| ClusterUpdated cluster cluster
| ClusterDeleted cluster
| ClusterGeneric cluster

text \<open>The object a predicate made by \<open>NewPredicateFuncs\<close> looks at, which is also the one that is enqueued.\<close>

fun event_cluster :: "cluster_event \<Rightarrow> cluster" where
  "event_cluster (ClusterCreated c) = c"
| "event_cluster (ClusterUpdated old new) = new"
| "event_cluster (ClusterDeleted c) = c"
| "event_cluster (ClusterGeneric c) = c"

record cluster_predicates =
  generation_changed :: "cluster_event \<Rightarrow> bool"
  paused_transition :: "cluster_event \<Rightarrow> bool"

definition selected_by :: "(labels \<Rightarrow> bool) option \<Rightarrow> cluster \<Rightarrow> bool" where
  "selected_by selector c = (case selector of None \<Rightarrow> True | Some matches \<Rightarrow> matches (c_labels c))"

text \<open>The predicates of the watch itself, either of which is enough, and the event filter, which only a selector gives.\<close>

definition admits_cluster :: "cluster_predicates \<Rightarrow> (labels \<Rightarrow> bool) option \<Rightarrow> cluster_event \<Rightarrow> bool" where
  "admits_cluster ps selector ev \<longleftrightarrow>
     (generation_changed ps ev \<or> paused_transition ps ev) \<and> selected_by selector (event_cluster ev)"

definition clusterToRequest :: "cluster \<Rightarrow> cluster_key list" where
  "clusterToRequest c = [cluster_key c]"

text \<open>The event filter does not reach the raw sources: the cluster cache's, and the watches on requests, of which each
  wakes the Cluster it was made for.\<close>

datatype wake =
  ClusterChanged cluster_event
| CacheChanged cluster
| RequestChanged cluster_key watch_event

fun cluster_wakes :: "cluster_predicates \<Rightarrow> kube \<Rightarrow> config \<Rightarrow> wake \<Rightarrow> cluster_key list" where
  "cluster_wakes ps K cfg (ClusterChanged ev) =
     (if admits_cluster ps (cf_selector cfg) ev then [cluster_key (event_cluster ev)] else [])"
| "cluster_wakes ps K cfg (CacheChanged c) = clusterToRequest c"
| "cluster_wakes ps K cfg (RequestChanged key ev) = (if requestBecamePending K ev then [key] else [])"

section \<open>The replace controller\<close>

fun event_machine :: "machine_event \<Rightarrow> machine option" where
  "event_machine (MachineCreated m) = Some m"
| "event_machine (MachineUpdated old new) = Some new"
| "event_machine MachineDeleted = None"
| "event_machine MachineGeneric = None"

definition machine_wakes :: "machine_event \<Rightarrow> (string \<times> string) list" where
  "machine_wakes ev = (case event_machine ev of
     None \<Rightarrow> []
   | Some m \<Rightarrow> if replaceRequestChanged ev then [(m_namespace m, m_name m)] else [])"

section \<open>Properties\<close>

text \<open>What a reconcile leaves behind of a Cluster it has nothing to do with.\<close>

definition forgotten :: "cluster_key \<Rightarrow> reconciler \<Rightarrow> reconciler" where
  "forgotten key s = s\<lparr>seen := (seen s)(key := None), would_release := (would_release s)(key := None),
     modes := (modes s)(key := None), waiting := (waiting s)(key := None)\<rparr>"

lemma Reconcile_unselected:
  assumes "get_cluster E (history s) key = Inr c" and "\<not> selected_by (cf_selector cfg) c"
  shows "run_state (Reconcile E K cfg key) s = (Inr 0, forgotten key (s\<lparr>history := history s @ [GetCluster key (Inr c)]\<rparr>))"
  using assms by (simp add: Reconcile_def forget_def forgotten_def selected_by_def split: option.splits)

lemma Reconcile_replace_unselected:
  fixes t :: "(call, 'w) world_scheme"
  assumes "\<not> selected_by (q_selector q) c" and "\<And>h key. get_cluster E h key = Inr c"
  shows "filter is_write (new_calls (Reconcile_replace E K q locator ns name) t) = (case get_machine E (history t) ns name of
      Inl _ \<Rightarrow> []
    | Inr m \<Rightarrow> if m_annotations m ReplaceAnnotation = None \<and> annotation m ReplaceStatusAnnotation \<noteq> [] \<and> \<not> deleting m \<and> \<not> q_dry_run q
        then [PatchMachine m (with_status m []) True
          (patch_machine E (history t @ [GetMachine ns name (Inr m)]) m (with_status m []) True)]
        else [])"
proof (cases "get_machine E (history t) ns name")
  case (Inl err)
  then show ?thesis by (simp add: Reconcile_replace_def new_calls_def)
next
  case (Inr m)
  have unselected: "case q_selector q of None \<Rightarrow> False | Some matches \<Rightarrow> \<not> matches (c_labels c)"
    using assms(1) by (simp add: selected_by_def split: option.splits)
  show ?thesis
  proof (cases "m_annotations m ReplaceAnnotation = None \<and> annotation m ReplaceStatusAnnotation \<noteq> [] \<and> \<not> deleting m \<and> \<not> q_dry_run q")
    case True
    then obtain status where "m_annotations m ReplaceStatusAnnotation = Some status" "status \<noteq> []"
      by (cases "m_annotations m ReplaceStatusAnnotation") (auto simp: annotation_def)
    then show ?thesis using Inr True
      by (cases "patch_machine E (history t @ [GetMachine ns name (Inr m)]) m (with_status m []) True")
        (auto simp: Reconcile_replace_def replace_def setStatus_def new_calls_def Let_def)
  next
    case False
    then show ?thesis using Inr unselected assms(2)
      by (cases "m_annotations m ReplaceAnnotation") (auto simp: Reconcile_replace_def replace_def new_calls_def Let_def)
  qed
qed

text \<open>C22: What is done about a Cluster that the selector does not select. No event of it in the management cluster wakes the cluster
  controller. The cluster cache and the requests are not filtered and may still wake it, but then the reconcile reads
  that Cluster, makes no other call, forgets what it knew of it and asks for no other look. The other controller is
  woken by Machines, whatever their Cluster: a request on a Machine of the unselected one ends with no write and no retry, and in all
  cases its reconcile writes exactly one thing there, and only when the request was withdrawn: it removes the status that the request left, which it does without
  a look at the Cluster.\<close>

theorem unselected_left_alone:
  fixes t :: "(call, 'w) world_scheme"
  assumes "\<not> selected_by selector c" and "cf_selector cfg = selector" and "q_selector q = selector"
    and "\<And>h key. get_cluster E h key = Inr c"
  shows "(event_cluster ev = c \<longrightarrow> cluster_wakes ps K cfg (ClusterChanged ev) = []) \<and>
    run_state (Reconcile E K cfg key) s = (Inr 0, forgotten key (s\<lparr>history := history s @ [GetCluster key (Inr c)]\<rparr>)) \<and>
    (get_machine E (history t) ns name = Inr m \<longrightarrow> m_annotations m ReplaceAnnotation \<noteq> None \<longrightarrow>
       fst (run_state (Reconcile_replace E K q (Devices E K) ns name) t) = Inr 0 \<and>
       list_all (Not \<circ> is_write) (new_calls (Reconcile_replace E K q (Devices E K) ns name) t)) \<and>
    filter is_write (new_calls (Reconcile_replace E K q (Devices E K) ns name) t) = (case get_machine E (history t) ns name of
        Inl _ \<Rightarrow> []
      | Inr m \<Rightarrow> if m_annotations m ReplaceAnnotation = None \<and> annotation m ReplaceStatusAnnotation \<noteq> [] \<and> \<not> deleting m \<and> \<not> q_dry_run q
          then [PatchMachine m (with_status m []) True
            (patch_machine E (history t @ [GetMachine ns name (Inr m)]) m (with_status m []) True)]
          else [])"
proof (intro conjI impI)
  show "cluster_wakes ps K cfg (ClusterChanged ev) = []" if "event_cluster ev = c"
    using assms(1,2) that by (simp add: admits_cluster_def)
  show "run_state (Reconcile E K cfg key) s = (Inr 0, forgotten key (s\<lparr>history := history s @ [GetCluster key (Inr c)]\<rparr>))"
    by (rule Reconcile_unselected) (use assms in simp_all)
  have "\<not> selected_by (q_selector q) c" using assms(1,3) by simp
  from Reconcile_replace_unselected [OF this assms(4)]
  show "filter is_write (new_calls (Reconcile_replace E K q (Devices E K) ns name) t) = (case get_machine E (history t) ns name of
      Inl _ \<Rightarrow> []
    | Inr m \<Rightarrow> if m_annotations m ReplaceAnnotation = None \<and> annotation m ReplaceStatusAnnotation \<noteq> [] \<and> \<not> deleting m \<and> \<not> q_dry_run q
        then [PatchMachine m (with_status m []) True
          (patch_machine E (history t @ [GetMachine ns name (Inr m)]) m (with_status m []) True)]
        else [])" .
  assume m: "get_machine E (history t) ns name = Inr m" and "m_annotations m ReplaceAnnotation \<noteq> None"
  then obtain request where request: "m_annotations m ReplaceAnnotation = Some request" by blast
  have unselected: "case q_selector q of None \<Rightarrow> False | Some matches \<Rightarrow> \<not> matches (c_labels c)"
    using assms(1,3) by (simp add: selected_by_def split: option.splits)
  show "fst (run_state (Reconcile_replace E K q (Devices E K) ns name) t) = Inr 0"
    "list_all (Not \<circ> is_write) (new_calls (Reconcile_replace E K q (Devices E K) ns name) t)"
    using m request assms(4) unselected by (simp_all add: Reconcile_replace_def replace_def new_calls_def Let_def)
qed

text \<open>A program for the Clusters with GPUs, a Cluster that has none, and a Machine of it whose request was withdrawn after it was
  rejected.\<close>

definition gpu_selector :: "(labels \<Rightarrow> bool) option" where
  "gpu_selector = Some (\<lambda>ls. ls ''environment'' = Some ''gpu'')"

definition example_predicates :: cluster_predicates where
  "example_predicates = \<lparr>generation_changed = (\<lambda>_. True), paused_transition = (\<lambda>_. False)\<rparr>"

definition abandoned_machine :: machine where
  "abandoned_machine = example_machine\<lparr>m_annotations := [ReplaceStatusAnnotation \<mapsto> ''Rejected: Paused'']\<rparr>"

theorem unselected_left_alone_witness:
  "cluster_wakes example_predicates plain_kube (example_config\<lparr>cf_selector := gpu_selector\<rparr>) (ClusterChanged (ClusterCreated example_cluster)) = [] \<and>
   fst (run_state (Reconcile_replace vm_server plain_kube (replace_config_example\<lparr>q_selector := gpu_selector\<rparr>)
     (Devices vm_server plain_kube) ''ns'' ''m'') (\<lparr>history = []\<rparr> :: call world)) = Inr 0 \<and>
   filter is_write (new_calls (Reconcile_replace (vm_server\<lparr>get_machine := \<lambda>_ _ _. Inr abandoned_machine\<rparr>) plain_kube
       (replace_config_example\<lparr>q_selector := gpu_selector\<rparr>)
       (Devices (vm_server\<lparr>get_machine := \<lambda>_ _ _. Inr abandoned_machine\<rparr>) plain_kube) ''ns'' ''m'') (\<lparr>history = []\<rparr> :: call world)) =
     [PatchMachine abandoned_machine (with_status abandoned_machine []) True (patch_machine vm_server
       [GetMachine ''ns'' ''m'' (Inr abandoned_machine)] abandoned_machine (with_status abandoned_machine []) True)]"
proof -
  have un: "\<not> selected_by gpu_selector example_cluster" by (simp add: selected_by_def gpu_selector_def example_cluster_def)
  note left = unselected_left_alone [OF un, where cfg = "example_config\<lparr>cf_selector := gpu_selector\<rparr>" and K = plain_kube
      and q = "replace_config_example\<lparr>q_selector := gpu_selector\<rparr>" and t = "\<lparr>history = []\<rparr> :: call world"
      and ns = "''ns''" and name = "''m''" and ps = example_predicates and ev = "ClusterCreated example_cluster"]
  have withdrawn: "m_annotations abandoned_machine ReplaceAnnotation = None" "annotation abandoned_machine ReplaceStatusAnnotation \<noteq> []"
    "\<not> deleting abandoned_machine" "\<not> q_dry_run replace_config_example"
    by (simp_all add: abandoned_machine_def annotation_def deleting_def example_machine_def ReplaceAnnotation_def ReplaceStatusAnnotation_def
        replace_config_example_def)
  show ?thesis
    using left [where E = vm_server and m = faulty_machine] vm_server_answers faulty_machine_request withdrawn
      left [where E = "vm_server\<lparr>get_machine := \<lambda>_ _ _. Inr abandoned_machine\<rparr>"] by simp
qed

text \<open>Whatever an operator does to a request is noticed. The controller is woken for a Machine by every update that changes
  the state of its request, or withdraws it and asks again in other words, and by the first sight of a Machine that has
  anything to do: one it is not woken for is idle, and stays as it is.\<close>

theorem request_changes_wake:
  "((request_state old = request_state new \<and> m_annotations old ReplaceAnnotation = m_annotations new ReplaceAnnotation) \<or>
     machine_wakes (MachineUpdated old new) = [(m_namespace new, m_name new)]) \<and>
   (request_state m = Idle \<or> machine_wakes (MachineCreated m) = [(m_namespace m, m_name m)])"
  using request_changes_admitted by (auto simp: machine_wakes_def simp del: replaceRequestChanged.simps)

end
