(* ===== verification/Program.thy ===== *)
theory Program
  imports Setup Registration
begin

text \<open>
  The whole of \<open>main\<close> (\<open>cmd/manager/main.go\<close>): reading the flags, then setting up the manager, the cluster cache, the
  controllers and the probes one after another, then handing over to the manager. Every step may fail, and then the
  program ends with exit code 1. Each is a call to a library, answered by a parameter; the controllers themselves, which
  the manager runs once it is started, are the other theories.
\<close>

section \<open>The rest of the flags\<close>

record flags = options +
  fl_metrics :: string
  fl_probes :: string
  fl_leader_elect :: bool

definition default_flags :: flags where
  "default_flags = options.extend default_options \<lparr>fl_metrics = ''0'', fl_probes = '':8081'', fl_leader_elect = False\<rparr>"

section \<open>What the manager is made with\<close>

definition ControllerName :: string where
  "ControllerName = ''nvsentinel-capi-remediator''"

definition QuarantineControllerName :: string where
  "QuarantineControllerName = ControllerName @ ''-quarantine''"

record manager_options =
  mo_metrics :: string
  mo_probes :: string
  mo_leader_election :: bool
  mo_leader_election_id :: string
  mo_release_on_cancel :: bool
  mo_cluster_label :: "(labels \<Rightarrow> bool) option"

definition manager_options_of :: "flags \<Rightarrow> (labels \<Rightarrow> bool) option \<Rightarrow> manager_options" where
  "manager_options_of fl selector = \<lparr>
     mo_metrics = fl_metrics fl,
     mo_probes = fl_probes fl,
     mo_leader_election = fl_leader_elect fl,
     mo_leader_election_id = ControllerName @ ''.'' @ AnnotationPrefix,
     mo_release_on_cancel = True,
     mo_cluster_label = selector\<rparr>"

section \<open>Setting up\<close>

text \<open>The calls, with their answers. A controller is built with its name, the event filter it has, if any, and how many
  reconciles it may run at a time. \<open>StartManager\<close> hands over the reconcilers that were set up, and returns when the manager
  stops.\<close>

datatype setup_call =
  SetupLog level string
| GetConfig "go_error option"
| NewManager manager_options "go_error option"
| SetupClusterCache nat "go_error option"
| BuildController string "(labels \<Rightarrow> bool) option" nat "go_error option"
| AddHealthzCheck string "go_error option"
| AddReadyzCheck string "go_error option"
| StartManager config "replace_config option" "go_error option"

record setup_env =
  get_config :: "setup_call list \<Rightarrow> go_error option"
  new_manager :: "setup_call list \<Rightarrow> manager_options \<Rightarrow> go_error option"
  setup_cluster_cache :: "setup_call list \<Rightarrow> nat \<Rightarrow> go_error option"
  build_controller :: "setup_call list \<Rightarrow> string \<Rightarrow> (labels \<Rightarrow> bool) option \<Rightarrow> nat \<Rightarrow> go_error option"
  add_healthz_check :: "setup_call list \<Rightarrow> string \<Rightarrow> go_error option"
  add_readyz_check :: "setup_call list \<Rightarrow> string \<Rightarrow> go_error option"
  start_manager :: "setup_call list \<Rightarrow> config \<Rightarrow> replace_config option \<Rightarrow> go_error option"

type_synonym 'a setting = "(setup_call world, 'a) state"

text \<open>Registering a controller. The first reconciler is given the controller that was built, to add its watches to.\<close>

definition setup_cluster_controller :: "setup_env \<Rightarrow> config \<Rightarrow> nat \<Rightarrow> (go_error option \<times> config) setting" where
  "setup_cluster_controller M cfg concurrent = do {
     e \<leftarrow> ask (BuildController ControllerName (cf_selector cfg) concurrent)
       (\<lambda>h. build_controller M h ControllerName (cf_selector cfg) concurrent);
     State_Monad.return (case e of Some err \<Rightarrow> (Some err, cfg) | None \<Rightarrow> (None, cfg\<lparr>cf_watcher := True\<rparr>))
   }"

definition setup_machine_controller :: "setup_env \<Rightarrow> nat \<Rightarrow> go_error option setting" where
  "setup_machine_controller M concurrent =
     ask (BuildController QuarantineControllerName None concurrent)
       (\<lambda>h. build_controller M h QuarantineControllerName None concurrent)"

text \<open>An error that ends the program.\<close>

definition fatal :: "string \<Rightarrow> nat setting" where
  "fatal message = do { tell (SetupLog Error message); State_Monad.return 1 }"

text \<open>\<open>main\<close> once the controllers are set up.\<close>

definition run_manager :: "setup_env \<Rightarrow> config \<Rightarrow> replace_config option \<Rightarrow> nat setting" where
  "run_manager M cfg q = do {
     e \<leftarrow> ask (AddHealthzCheck ''healthz'') (\<lambda>h. add_healthz_check M h ''healthz'');
     (if e \<noteq> None then fatal ''unable to set up health check''
      else do {
        e \<leftarrow> ask (AddReadyzCheck ''readyz'') (\<lambda>h. add_readyz_check M h ''readyz'');
        (if e \<noteq> None then fatal ''unable to set up ready check''
         else do {
           tell (SetupLog Info ''starting manager'');
           e \<leftarrow> ask (StartManager cfg q) (\<lambda>h. start_manager M h cfg q);
           (if e \<noteq> None then fatal ''manager exited'' else State_Monad.return 0)
         })
      })
   }"

text \<open>\<open>main\<close> once the flags are read.\<close>

definition set_up ::
  "setup_env \<Rightarrow> flags \<Rightarrow> (labels \<Rightarrow> bool) option \<Rightarrow> restart_fallback \<Rightarrow> table \<Rightarrow> string set \<Rightarrow> nat setting" where
  "set_up M fl selector fallback table drivers = do {
     e \<leftarrow> ask GetConfig (get_config M);
     (if e \<noteq> None then State_Monad.return 1
      else do {
        e \<leftarrow> ask (NewManager (manager_options_of fl selector)) (\<lambda>h. new_manager M h (manager_options_of fl selector));
        (if e \<noteq> None then fatal ''unable to create manager''
         else do {
           e \<leftarrow> ask (SetupClusterCache 10) (\<lambda>h. setup_cluster_cache M h 10);
           (if e \<noteq> None then fatal ''unable to set up cluster cache''
            else do {
              (e, cfg) \<leftarrow> setup_cluster_controller M
                ((cluster_config table (op_dry_run fl) (op_poll_interval fl) selector fallback)\<lparr>cf_watcher := False\<rparr>) 1;
              (if e \<noteq> None then fatal ''unable to set up controller''
               else if op_quarantine fl then do {
                 e \<leftarrow> setup_machine_controller M 1;
                 (if e \<noteq> None then fatal ''unable to set up controller''
                  else run_manager M cfg (Some (machine_config drivers (op_dry_run fl) selector)))
               }
               else run_manager M cfg None)
            })
         })
      })
   }"

definition main :: "kube \<Rightarrow> (string \<Rightarrow> go_error + (labels \<Rightarrow> bool)) \<Rightarrow> setup_env \<Rightarrow> flags \<Rightarrow> nat setting" where
  "main K parse M fl =
     (case read_selector parse (op_selector fl) of
        Inl _ \<Rightarrow> fatal ''invalid --cluster-selector''
      | Inr selector \<Rightarrow> (case ParseRestartFallback K (op_fallback fl) of
          Inl _ \<Rightarrow> fatal ''invalid --restart-fallback''
        | Inr fallback \<Rightarrow> (case read_table (op_decisions fl) of
            Inl _ \<Rightarrow> fatal ''invalid --decisions''
          | Inr table \<Rightarrow> do {
              (if CustomActions table \<noteq> [] then tell (SetupLog Info custom_actions_note) else State_Monad.return ());
              (case read_drivers K (op_quarantine fl) (op_drivers fl) of
                 Inl _ \<Rightarrow> fatal ''invalid --quarantine-drivers''
               | Inr drivers \<Rightarrow> do {
                   (if \<not> op_quarantine fl \<and> op_drivers fl \<noteq> [] then tell (SetupLog Info ignored_drivers_note)
                    else State_Monad.return ());
                   set_up M fl selector fallback table drivers
                 })
            })))"

section \<open>What main does\<close>

text \<open>The steps that come before the manager is started, all of which have succeeded; log lines are left out.\<close>

definition is_log :: "setup_call \<Rightarrow> bool" where
  "is_log c \<longleftrightarrow> (\<exists>l msg. c = SetupLog l msg)"

lemma is_log_simps [simp]:
  "is_log (SetupLog l msg)" "\<not> is_log (GetConfig e)" "\<not> is_log (NewManager opts e)" "\<not> is_log (SetupClusterCache n e)"
  "\<not> is_log (BuildController name filt n e)" "\<not> is_log (AddHealthzCheck name e)" "\<not> is_log (AddReadyzCheck name e)"
  "\<not> is_log (StartManager cfg q e)"
  by (simp_all add: is_log_def)

definition steps_to_start :: "flags \<Rightarrow> program \<Rightarrow> setup_call list" where
  "steps_to_start fl p =
     [GetConfig None, NewManager (manager_options_of fl (cf_selector (pr_cluster p))) None, SetupClusterCache 10 None,
      BuildController ControllerName (cf_selector (pr_cluster p)) 1 None] @
     (if pr_replace p = None then [] else [BuildController QuarantineControllerName None 1 None]) @
     [AddHealthzCheck ''healthz'' None, AddReadyzCheck ''readyz'' None]"

text \<open>The whole of what a program that starts calls: the steps, the start, and after it nothing but the line that says why the
  manager stopped.\<close>

definition starts :: "flags \<Rightarrow> program \<Rightarrow> nat \<Rightarrow> setup_call list \<Rightarrow> bool" where
  "starts fl p code cs \<longleftrightarrow> (\<exists>pre e. filter (Not \<circ> is_log) pre = steps_to_start fl p \<and>
     (code = 0 \<longleftrightarrow> e = None) \<and>
     cs = pre @ StartManager (pr_cluster p) (pr_replace p) e # (if e = None then [] else [SetupLog Error ''manager exited'']))"

text \<open>And of what one that does not start calls: it does not hand over, and calls nothing but a log line after a step that failed.\<close>

fun failed_step :: "setup_call \<Rightarrow> bool" where
  "failed_step (GetConfig e) \<longleftrightarrow> e \<noteq> None"
| "failed_step (NewManager _ e) \<longleftrightarrow> e \<noteq> None"
| "failed_step (SetupClusterCache _ e) \<longleftrightarrow> e \<noteq> None"
| "failed_step (BuildController _ _ _ e) \<longleftrightarrow> e \<noteq> None"
| "failed_step (AddHealthzCheck _ e) \<longleftrightarrow> e \<noteq> None"
| "failed_step (AddReadyzCheck _ e) \<longleftrightarrow> e \<noteq> None"
| "failed_step _ \<longleftrightarrow> False"

definition gives_up :: "nat \<Rightarrow> setup_call list \<Rightarrow> bool" where
  "gives_up code cs \<longleftrightarrow> code = 1 \<and> (\<forall>cfg q e. StartManager cfg q e \<notin> set cs) \<and>
     list_all (Not \<circ> failed_step) (butlast (filter (Not \<circ> is_log) cs))"

lemma does_fatal: "Q 1 [SetupLog Error message] \<Longrightarrow> does (fatal message) Q"
  unfolding fatal_def by (intro does_rules) simp

lemma does_setup_cluster_controller:
  "does (setup_cluster_controller M cfg n) (\<lambda>(e, cfg') cs. cs = [BuildController ControllerName (cf_selector cfg) n e] \<and>
     (e = None \<longrightarrow> cfg' = cfg\<lparr>cf_watcher := True\<rparr>))"
  unfolding setup_cluster_controller_def by (intro does_rules) (auto split: option.split)

lemma does_run_manager:
  "does (run_manager M cfg q) (\<lambda>code cs. gives_up code cs \<or>
     (\<exists>e. (code = 0 \<longleftrightarrow> e = None) \<and> cs = [AddHealthzCheck ''healthz'' None, AddReadyzCheck ''readyz'' None,
        SetupLog Info ''starting manager'', StartManager cfg q e] @ (if e = None then [] else [SetupLog Error ''manager exited''])))"
  unfolding run_manager_def by (intro does_rules does_fatal) (auto simp: gives_up_def)

text \<open>Steps that succeeded, before.\<close>

lemma gives_up_after:
  "list_all (\<lambda>c. \<not> failed_step c \<and> (\<forall>cfg q e. c \<noteq> StartManager cfg q e)) cs \<Longrightarrow> gives_up code ds \<Longrightarrow> gives_up code (cs @ ds)"
  by (auto simp: gives_up_def butlast_append list_all_iff dest: in_set_butlastD)

lemma does_set_up:
  assumes "pr_cluster p = cluster_config table (op_dry_run fl) (op_poll_interval fl) selector fallback"
    and "pr_replace p = (if op_quarantine fl then Some (machine_config drivers (op_dry_run fl) selector) else None)"
  shows "does (set_up M fl selector fallback table drivers) (\<lambda>code cs. gives_up code cs \<or> starts fl p code cs)"
proof -
  let ?cfg = "pr_cluster p"
  let ?first = "[GetConfig None, NewManager (manager_options_of fl selector) None, SetupClusterCache 10 None,
      BuildController ControllerName selector 1 None]"
  have sel: "cf_selector ?cfg = selector" by (simp add: assms(1) cluster_config_def)
  have "does (run_manager M ?cfg (pr_replace p)) (\<lambda>code ds. gives_up code (cs @ ds) \<or> starts fl p code (cs @ ds))"
    if cs: "cs = ?first @ (if pr_replace p = None then [] else [BuildController QuarantineControllerName None 1 None])" for cs
  proof (rule does_mono [OF does_run_manager], elim disjE exE conjE)
    fix code ds assume "gives_up code ds"
    then have "gives_up code (cs @ ds)" by (intro gives_up_after) (simp_all add: cs)
    then show "gives_up code (cs @ ds) \<or> starts fl p code (cs @ ds)" ..
  next
    fix code :: nat and ds e
    assume code: "(code = 0) = (e = None)" and ds: "ds = [AddHealthzCheck ''healthz'' None, AddReadyzCheck ''readyz'' None,
        SetupLog Info ''starting manager'', StartManager ?cfg (pr_replace p) e] @ (if e = None then [] else [SetupLog Error ''manager exited''])"
    let ?pre = "cs @ [AddHealthzCheck ''healthz'' None, AddReadyzCheck ''readyz'' None, SetupLog Info ''starting manager'']"
    have "filter (Not \<circ> is_log) ?pre = steps_to_start fl p" by (simp add: cs steps_to_start_def sel)
    then have "starts fl p code (cs @ ds)" unfolding starts_def using code by (intro exI [of _ ?pre] exI [of _ e]) (simp add: ds)
    then show "gives_up code (cs @ ds) \<or> starts fl p code (cs @ ds)" ..
  qed
  note run = this
  have watched: "(cluster_config table (op_dry_run fl) (op_poll_interval fl) selector fallback)\<lparr>cf_watcher := True\<rparr> = ?cfg"
    "cf_selector (cluster_config table (op_dry_run fl) (op_poll_interval fl) selector fallback) = selector"
    by (simp_all add: assms(1) cluster_config_def)
  have alone: "does (run_manager M ?cfg None) (\<lambda>code ds. gives_up code (?first @ ds) \<or> starts fl p code (?first @ ds))"
    if "\<not> op_quarantine fl"
    using run [OF refl] that by (simp add: assms(2))
  have both: "does (run_manager M ?cfg (Some (machine_config drivers (op_dry_run fl) selector))) (\<lambda>code ds.
      gives_up code (?first @ BuildController QuarantineControllerName None 1 None # ds) \<or>
      starts fl p code (?first @ BuildController QuarantineControllerName None 1 None # ds))"
    if "op_quarantine fl"
    using run [OF refl] that by (simp add: assms(2))
  have lost: "gives_up 1 [GetConfig (Some e)]" "gives_up 1 [GetConfig None, NewManager opts (Some e), SetupLog l msg]"
    "gives_up 1 [GetConfig None, NewManager opts None, SetupClusterCache n (Some e), SetupLog l msg]"
    "gives_up 1 [GetConfig None, NewManager opts None, SetupClusterCache n None, BuildController name filt k (Some e), SetupLog l msg]"
    "gives_up 1 (?first @ [BuildController name filt k (Some e), SetupLog l msg])" for e opts l msg n name filt k
    by (simp_all add: gives_up_def)
  show ?thesis unfolding set_up_def setup_machine_controller_def
    by (intro does_rules does_fatal does_mono [OF does_setup_cluster_controller])
      (use lost alone both in \<open>auto simp: watched\<close>)
qed

lemma startup_Inr_parts:
  "startup K parse op = Inr p \<longleftrightarrow> (\<exists>selector fallback table drivers.
     read_selector parse (op_selector op) = Inr selector \<and> ParseRestartFallback K (op_fallback op) = Inr fallback \<and>
     read_table (op_decisions op) = Inr table \<and> read_drivers K (op_quarantine op) (op_drivers op) = Inr drivers \<and>
     pr_cluster p = cluster_config table (op_dry_run op) (op_poll_interval op) selector fallback \<and>
     pr_replace p = (if op_quarantine op then Some (machine_config drivers (op_dry_run op) selector) else None) \<and>
     pr_logged p = (if CustomActions table \<noteq> [] then [custom_actions_note] else []) @
       (if \<not> op_quarantine op \<and> op_drivers op \<noteq> [] then [ignored_drivers_note] else []))"
  by (cases p) (auto simp: startup_def split: sum.splits)

text \<open>Each flag that is wrong ends the program there, with nothing but log lines.\<close>

lemma does_main:
  "does (main K parse M fl) (\<lambda>code cs. case startup K parse (options.truncate fl) of
     Inl _ \<Rightarrow> code = 1 \<and> list_all is_log cs
   | Inr p \<Rightarrow> \<exists>ds. cs = map (SetupLog Info) (pr_logged p) @ ds \<and> (gives_up code ds \<or> starts fl p code ds))"
proof (cases "startup K parse (options.truncate fl)")
  case (Inr p)
  from this [unfolded startup_Inr_parts] obtain selector fallback table drivers
    where parts: "read_selector parse (op_selector fl) = Inr selector" "ParseRestartFallback K (op_fallback fl) = Inr fallback"
      "read_table (op_decisions fl) = Inr table" "read_drivers K (op_quarantine fl) (op_drivers fl) = Inr drivers"
      and p: "pr_cluster p = cluster_config table (op_dry_run fl) (op_poll_interval fl) selector fallback"
        "pr_replace p = (if op_quarantine fl then Some (machine_config drivers (op_dry_run fl) selector) else None)"
      and logged: "pr_logged p = (if CustomActions table \<noteq> [] then [custom_actions_note] else []) @
        (if \<not> op_quarantine fl \<and> op_drivers fl \<noteq> [] then [ignored_drivers_note] else [])"
    by (auto simp: options.truncate_def)
  show ?thesis unfolding main_def parts sum.case Inr
    by (intro does_rules does_mono [OF does_set_up [OF p]]) (auto simp: logged)
next
  case (Inl err)
  then show ?thesis unfolding main_def
    by (intro does_rules does_fatal) (auto simp: startup_def options.truncate_def)
qed

text \<open>C17: The program starts as it was told to, or not at all. With a flag that is wrong it ends with exit code 1 after nothing
  but log lines. Otherwise it either hands the two controllers to the manager, configured by the flags, the second only if it was
  asked for, after every step of the setup succeeded, in order and once each; or it ends with exit code 1 without handing
  anything over, having called nothing after a step that failed. Once it has handed over, whatever comes of it, it does nothing
  more but say why the manager stopped: giving up the lease when the manager stops is safe. It exits
  with 0 only when the manager stopped without an error.\<close>

theorem main_starts_or_gives_up:
  assumes "run_state (main K parse M fl) s = (code, s')"
  shows "\<exists>cs. history s' = history s @ cs \<and> (case startup K parse (options.truncate fl) of
     Inl _ \<Rightarrow> code = 1 \<and> list_all is_log cs
   | Inr p \<Rightarrow> \<exists>ds. cs = map (SetupLog Info) (pr_logged p) @ ds \<and> (gives_up code ds \<or> starts fl p code ds))"
  using doesD [OF does_main assms] .

text \<open>A machine where everything is in place, but for the port of the probes.\<close>

definition willing :: setup_env where
  "willing = \<lparr>get_config = (\<lambda>_. None), new_manager = (\<lambda>_ _. None), setup_cluster_cache = (\<lambda>_ _. None), build_controller = (\<lambda>_ _ _ _. None),
     add_healthz_check = (\<lambda>_ _. None), add_readyz_check = (\<lambda>_ _. None),
     start_manager = (\<lambda>_ _ _. Some (Plain ''listen tcp :8081: bind: address already in use''))\<rparr>"

theorem main_starts_or_gives_up_witness:
  "\<exists>s' p. run_state (main plain_kube (\<lambda>_. Inl (Plain [])) willing default_flags) \<lparr>history = []\<rparr> = (1, s') \<and>
     starts default_flags p 1 (history s') \<and> cf_dry_run (pr_cluster p) \<and> pr_replace p = None"
proof -
  obtain code s' where run: "run_state (main plain_kube (\<lambda>_. Inl (Plain [])) willing default_flags) \<lparr>history = []\<rparr> = (code, s')" by fastforce
  have flags: "options.truncate default_flags = default_options"
    by (simp add: default_flags_def options.truncate_def options.extend_def default_options_def)
  note default = startup_default [of "\<lambda>_. Inl (Plain [])"]
  let ?p = "\<lparr>pr_cluster = \<lparr>cf_table = Default, cf_dry_run = True, cf_poll_interval = DefaultPollInterval, cf_selector = None,
       cf_fallback = RestartFallbackReport, cf_watcher = True\<rparr>, pr_replace = None, pr_logged = []\<rparr>"
  obtain ds where ds: "history s' = ds" "gives_up code ds \<or> starts default_flags ?p code ds"
    using main_starts_or_gives_up [OF run] by (simp add: flags default)
  have "op_quarantine default_flags = False" by (simp add: default_flags_def options.extend_def default_options_def)
  moreover obtain selector fallback table drivers where
    "read_selector (\<lambda>_. Inl (Plain [])) (op_selector default_flags) = Inr selector" "ParseRestartFallback plain_kube (op_fallback default_flags) = Inr fallback"
      "read_table (op_decisions default_flags) = Inr table" "read_drivers plain_kube (op_quarantine default_flags) (op_drivers default_flags) = Inr drivers"
    using default [folded flags, unfolded startup_Inr_parts] by (auto simp: options.truncate_def)
  ultimately have "code = 1 \<and> (\<exists>cfg q e. StartManager cfg q e \<in> set ds)"
    using run by (fold ds(1)) (auto simp: main_def set_up_def setup_cluster_controller_def run_manager_def fatal_def willing_def split: if_splits)
  with ds(2) have "code = 1" "starts default_flags ?p 1 ds" by (auto simp: gives_up_def)
  with run ds(1) show ?thesis by (intro exI [of _ s'] exI [of _ ?p]) simp
qed

end
