(* ===== verification/Traces.thy ===== *)
theory Traces
  imports Kube
begin

text \<open>
  What holds of each call at the moment it is made, with the history before it, and of the result with the history
  after it: a third family of rules beside those of \<open>Prelude\<close>, for what depends on the state outside, which is a
  function of the history. The rules compute backwards, as those of \<open>does\<close>.
\<close>

named_theorems traced_rules
  \<open>rules that relate each call of a program to the history it is made at\<close>

section \<open>Calls at their history\<close>

fun each_at :: "('c list \<Rightarrow> 'c \<Rightarrow> bool) \<Rightarrow> 'c list \<Rightarrow> 'c list \<Rightarrow> bool" where
  "each_at P h [] \<longleftrightarrow> True"
| "each_at P h (c # cs) \<longleftrightarrow> P h c \<and> each_at P (h @ [c]) cs"

lemma each_at_append: "each_at P h (cs @ ds) \<longleftrightarrow> each_at P h cs \<and> each_at P (h @ cs) ds"
  by (induction cs arbitrary: h) auto

lemma each_atD: "each_at P h (pre @ c # post) \<Longrightarrow> P (h @ pre) c"
  by (simp add: each_at_append)

lemma each_at_all: "list_all (\<lambda>c. \<forall>h. P h c) cs \<Longrightarrow> each_at P h cs"
  by (induction cs arbitrary: h) auto

section \<open>Programs\<close>

definition traced ::
  "'c list \<Rightarrow> ('c list \<Rightarrow> 'c \<Rightarrow> bool) \<Rightarrow> (('c, 'w) world_scheme, 'a) state \<Rightarrow> ('a \<Rightarrow> 'c list \<Rightarrow> bool) \<Rightarrow> bool" where
  "traced h P m Q \<longleftrightarrow> (\<forall>s. history s = h \<longrightarrow>
     (\<exists>cs. history (snd (run_state m s)) = h @ cs \<and> each_at P h cs \<and> Q (fst (run_state m s)) (h @ cs)))"

lemma tracedI:
  "(\<And>s a s'. history s = h \<Longrightarrow> run_state m s = (a, s') \<Longrightarrow> \<exists>cs. history s' = h @ cs \<and> each_at P h cs \<and> Q a (h @ cs)) \<Longrightarrow>
   traced h P m Q"
  unfolding traced_def by (metis prod.collapse)

lemma tracedD:
  "traced (history s) P m Q \<Longrightarrow> run_state m s = (a, s') \<Longrightarrow>
   \<exists>cs. history s' = history s @ cs \<and> each_at P (history s) cs \<and> Q a (history s @ cs)"
  unfolding traced_def by (metis fst_conv snd_conv)

lemma traced_new_calls: "traced (history s) P m Q \<Longrightarrow> each_at P (history s) (new_calls m s)"
  unfolding traced_def new_calls_def by (metis append_eq_conv_conj)

lemma traced_mono: "traced h P m R \<Longrightarrow> (\<And>a cs. R a (h @ cs) \<Longrightarrow> Q a (h @ cs)) \<Longrightarrow> traced h P m Q"
  unfolding traced_def by blast

lemma traced_emits: "emits (\<lambda>c. \<forall>h. P h c) m \<Longrightarrow> (\<And>a cs. Q a (h @ cs)) \<Longrightarrow> traced h P m Q"
  unfolding traced_def emits_def by (metis each_at_all)

lemma traced_does:
  "does m (\<lambda>a cs. list_all (\<lambda>c. \<forall>h. P h c) cs \<and> Q a (h @ cs)) \<Longrightarrow> traced h P m Q"
  unfolding traced_def does_def by (metis each_at_all)

lemma traced_return [traced_rules]: "Q x h \<Longrightarrow> traced h P (ret x) Q"
  by (auto intro: tracedI)

lemma traced_bind [traced_rules]:
  assumes "traced h P m (\<lambda>a h'. traced h' P (f a) Q)"
  shows "traced h P (State_Monad.bind m f) Q"
proof (rule tracedI)
  fix s b s' assume h: "history s = h" and run: "run_state (State_Monad.bind m f) s = (b, s')"
  obtain a s1 where m: "run_state m s = (a, s1)" by fastforce
  obtain cs where cs: "history s1 = h @ cs" "each_at P h cs" "traced (h @ cs) P (f a) Q"
    using tracedD [OF assms [folded h] m] unfolding h by blast
  from run m have "run_state (f a) s1 = (b, s')" by simp
  from tracedD [OF cs(3) [folded cs(1)] this] obtain ds
    where "history s' = history s1 @ ds" "each_at P (history s1) ds" "Q b (history s1 @ ds)" by blast
  with cs show "\<exists>cs. history s' = h @ cs \<and> each_at P h cs \<and> Q b (h @ cs)"
    by (intro exI [of _ "cs @ ds"]) (simp add: each_at_append)
qed

lemma traced_ask [traced_rules]:
  "P h (record (answer h)) \<Longrightarrow> Q (answer h) (h @ [record (answer h)]) \<Longrightarrow> traced h P (ask record answer) Q"
  by (auto intro!: tracedI)

lemma traced_tell [traced_rules]: "P h c \<Longrightarrow> Q () (h @ [c]) \<Longrightarrow> traced h P (tell c) Q"
  by (auto intro!: tracedI)

lemma traced_gets [traced_rules]: "(\<And>s. history s = h \<Longrightarrow> Q (f s) h) \<Longrightarrow> traced h P (gets f) Q"
  by (auto intro!: tracedI)

lemma traced_modify [traced_rules]:
  "(\<And>s. history (f s) = history s) \<Longrightarrow> Q () h \<Longrightarrow> traced h P (modify f) Q"
  by (auto intro!: tracedI)

lemma traced_if [traced_rules]:
  "(b \<Longrightarrow> traced h P m Q) \<Longrightarrow> (\<not> b \<Longrightarrow> traced h P n Q) \<Longrightarrow> traced h P (if b then m else n) Q"
  by simp

lemma traced_case_option [traced_rules]:
  "(x = None \<Longrightarrow> traced h P m Q) \<Longrightarrow> (\<And>y. x = Some y \<Longrightarrow> traced h P (f y) Q) \<Longrightarrow>
   traced h P (case x of None \<Rightarrow> m | Some y \<Rightarrow> f y) Q"
  by (cases x) auto

lemma traced_case_sum [traced_rules]:
  "(\<And>e. x = Inl e \<Longrightarrow> traced h P (f e) Q) \<Longrightarrow> (\<And>y. x = Inr y \<Longrightarrow> traced h P (g y) Q) \<Longrightarrow>
   traced h P (case x of Inl e \<Rightarrow> f e | Inr y \<Rightarrow> g y) Q"
  by (cases x) auto

lemma traced_case_prod [traced_rules]:
  "(\<And>a b. x = (a, b) \<Longrightarrow> traced h P (f a b) Q) \<Longrightarrow> traced h P (case x of (a, b) \<Rightarrow> f a b) Q"
  by (cases x) auto

lemma traced_loop:
  assumes "I a h" and "\<And>x a h'. x \<in> set xs \<Longrightarrow> I a h' \<Longrightarrow> traced h' P (body x a) I"
  shows "traced h P (loop body xs a) I"
  using assms
proof (induction xs arbitrary: a h)
  case Nil
  then show ?case by (simp add: traced_return)
next
  case (Cons x xs)
  have "traced h P (body x a) I" using Cons.prems by simp
  then have "traced h P (body x a) (\<lambda>a' h'. traced h' P (loop body xs a') I)"
    by (rule traced_mono) (intro Cons.IH, use Cons.prems in auto)
  then show ?case by (simp add: traced_bind)
qed

lemma traced_emit_event [traced_rules]:
  "P h (EmitEvent obj ty reason action nt) \<Longrightarrow> Q () (h @ [EmitEvent obj ty reason action nt]) \<Longrightarrow>
   traced h P (emit_event obj ty reason action nt) Q"
  by (simp add: emit_event_def traced_tell)

lemma traced_log_line [traced_rules]:
  "P h (LogLine l msg) \<Longrightarrow> Q () (h @ [LogLine l msg]) \<Longrightarrow> traced h P (log_line l msg) Q"
  by (simp add: log_line_def traced_tell)

lemma traced_read_clock [traced_rules]:
  "P h (ReadClock (clock E h)) \<Longrightarrow> Q (clock E h) (h @ [ReadClock (clock E h)]) \<Longrightarrow> traced h P (read_clock E) Q"
  by (simp add: read_clock_def traced_ask)

end
