(* ===== verification/Server.thy ===== *)
theory Server
  imports Traces Replace
begin

text \<open>
  What the program relies on of the API server when several clients write the same Machine: every version of a
  Machine has a resource version of its own, a read answers with some version, not always the last, and a write that
  carries a resource version is refused unless the Machine is still that version. The operations of the actuator are
  taken through the rules of \<open>Traces\<close> here; those of the controllers in \<open>Versions\<close>. An example of such a server
  closes the theory.
\<close>

definition machine_key :: "machine \<Rightarrow> string \<times> string" where
  "machine_key m = (m_namespace m, m_name m)"

section \<open>What the server keeps\<close>

text \<open>By history, the versions there have been, of all Machines, and the one stored under a name. Writes of others
  are in it: it may hold versions that no call shows.\<close>

record ledger =
  versions :: "call list \<Rightarrow> machine set"
  stored :: "call list \<Rightarrow> string \<times> string \<Rightarrow> machine option"

definition coherent :: "ledger \<Rightarrow> bool" where
  "coherent L \<longleftrightarrow> (\<forall>h.
     (\<forall>c. versions L h \<subseteq> versions L (h @ [c])) \<and>
     (\<forall>m \<in> versions L h. \<forall>m' \<in> versions L h.
        machine_key m = machine_key m' \<longrightarrow> m_resource_version m = m_resource_version m' \<longrightarrow> m = m') \<and>
     (\<forall>k m. stored L h k = Some m \<longrightarrow> m \<in> versions L h \<and> machine_key m = k))"

definition still_current :: "ledger \<Rightarrow> call list \<Rightarrow> machine \<Rightarrow> bool" where
  "still_current L h m \<longleftrightarrow>
     (\<exists>c. stored L h (machine_key m) = Some c \<and> m_resource_version c = m_resource_version m)"

definition answers_versions :: "env \<Rightarrow> ledger \<Rightarrow> bool" where
  "answers_versions E L \<longleftrightarrow> (\<forall>h.
     (\<forall>ns name m. get_machine E h ns name = Inr m \<longrightarrow> m \<in> versions L h \<and> machine_key m = (ns, name)) \<and>
     (\<forall>key ms. list_machines E h key = Inr ms \<longrightarrow> set ms \<subseteq> versions L h) \<and>
     (\<forall>b u lock m. patch_machine E h b u lock = Inr m \<longrightarrow> m \<in> versions L (h @ [PatchMachine b u lock (Inr m)])))"

text \<open>A patch made with the lock and a deletion name the resource version they expect. What is stored of an accepted
  patch with the lock differs from what was sent in the resource version only.\<close>

definition compares_versions :: "env \<Rightarrow> ledger \<Rightarrow> bool" where
  "compares_versions E L \<longleftrightarrow> (\<forall>h.
     (\<forall>b u m. patch_machine E h b u True = Inr m \<longrightarrow> still_current L h b \<and> (\<exists>v. m = u\<lparr>m_resource_version := v\<rparr>)) \<and>
     (\<forall>m. delete_machine E h m = None \<longrightarrow> still_current L h m))"

definition optimistic :: "env \<Rightarrow> ledger \<Rightarrow> bool" where
  "optimistic E L \<longleftrightarrow> coherent L \<and> answers_versions E L \<and> compares_versions E L"

lemma coherent_mono: "coherent L \<Longrightarrow> m \<in> versions L h \<Longrightarrow> m \<in> versions L (h @ cs)"
proof (induction cs rule: rev_induct)
  case (snoc c cs)
  then have "versions L (h @ cs) \<subseteq> versions L ((h @ cs) @ [c])" unfolding coherent_def by blast
  with snoc show ?case by auto
qed simp

lemma optimistic_mono: "optimistic E L \<Longrightarrow> m \<in> versions L h \<Longrightarrow> m \<in> versions L (h @ cs)"
  by (auto simp: optimistic_def intro: coherent_mono)

lemma still_current_version:
  "coherent L \<Longrightarrow> m \<in> versions L h \<Longrightarrow> still_current L h m \<Longrightarrow> stored L h (machine_key m) = Some m"
  unfolding coherent_def still_current_def by metis

lemma get_machine_version:
  "optimistic E L \<Longrightarrow> get_machine E h ns name = Inr m \<Longrightarrow> m \<in> versions L (h @ [GetMachine ns name (Inr m)]) \<and> machine_key m = (ns, name)"
  by (auto simp: optimistic_def answers_versions_def intro: coherent_mono)

lemma list_machines_versions:
  "optimistic E L \<Longrightarrow> list_machines E h key = Inr ms \<Longrightarrow> m \<in> set ms \<Longrightarrow> m \<in> versions L (h @ [ListMachines key (Inr ms)])"
  unfolding optimistic_def answers_versions_def by (blast intro: coherent_mono)

lemma patch_machine_version:
  "optimistic E L \<Longrightarrow> patch_machine E h b u lock = Inr m \<Longrightarrow> m \<in> versions L (h @ [PatchMachine b u lock (Inr m)])"
  by (auto simp: optimistic_def answers_versions_def)

lemma locked_patch_answer:
  "optimistic E L \<Longrightarrow> patch_machine E h b u True = Inr m \<Longrightarrow> \<exists>v. m = u\<lparr>m_resource_version := v\<rparr>"
  by (auto simp: optimistic_def compares_versions_def)

section \<open>Writes made from a version\<close>

text \<open>A write whose answer is the server's and that was made from a Machine the server has given out: as it was read,
  or as a write before returned it.\<close>

fun from_version :: "env \<Rightarrow> ledger \<Rightarrow> call list \<Rightarrow> call \<Rightarrow> bool" where
  "from_version E L h (PatchMachine b u lock r) \<longleftrightarrow> r = patch_machine E h b u lock \<and> b \<in> versions L h"
| "from_version E L h (DeleteMachine m r) \<longleftrightarrow> r = delete_machine E h m \<and> m \<in> versions L h"
| "from_version E L h _ \<longleftrightarrow> True"

lemma from_version_other [simp]: "\<not> machine_write c \<Longrightarrow> from_version E L h c"
  by (cases c) auto

text \<open>Such a write, when it names its version and is accepted, meets exactly the Machine it was made from.\<close>

lemma accepted_patch_current:
  "optimistic E L \<Longrightarrow> from_version E L h (PatchMachine b u True (Inr m)) \<Longrightarrow> stored L h (machine_key b) = Some b"
  unfolding optimistic_def compares_versions_def from_version.simps by (metis still_current_version)

lemma accepted_delete_current:
  "optimistic E L \<Longrightarrow> from_version E L h (DeleteMachine m None) \<Longrightarrow> stored L h (machine_key m) = Some m"
  unfolding optimistic_def compares_versions_def from_version.simps by (metis still_current_version)

lemma locked_patch_stored:
  "optimistic E L \<Longrightarrow> patch_machine E h b u True = Inr m \<Longrightarrow> b \<in> versions L h \<Longrightarrow> stored L h (machine_key b) = Some b"
  using accepted_patch_current [of E L h b u m] by simp

section \<open>The actuator\<close>

text \<open>The operations write from the Machine they are given, and return it or the one the server answered.\<close>

lemma traced_patch:
  assumes "P h (PatchMachine b u lock (patch_machine E h b u lock))"
    and "Q (patch_machine E h b u lock) (h @ [PatchMachine b u lock (patch_machine E h b u lock)])"
  shows "traced h P (patch E b u lock) Q"
  unfolding patch_def using assms by (rule traced_ask)

lemma traced_MarkForRemediation:
  assumes "optimistic E L" and "m \<in> versions L h"
  shows "traced h (from_version E L) (MarkForRemediation E dryRun m action reason restart) (\<lambda>(r, m') h'. m' \<in> versions L h')"
  unfolding MarkForRemediation_def
  by (intro traced_rules traced_patch) (use assms in \<open>auto intro!: optimistic_mono patch_machine_version simp del: append_assoc split: sum.split\<close>)

lemma traced_Release:
  assumes "optimistic E L" and "m \<in> versions L h"
  shows "traced h (from_version E L) (Release E dryRun m reason) (\<lambda>(r, m') h'. m' \<in> versions L h')"
  unfolding Release_def
  by (intro traced_rules traced_patch) (use assms in \<open>auto intro!: optimistic_mono patch_machine_version simp del: append_assoc split: sum.split\<close>)

lemma traced_Escalate:
  assumes "optimistic E L" and "m \<in> versions L h"
  shows "traced h (from_version E L) (Escalate E dryRun m reason) (\<lambda>(r, m') h'. m' \<in> versions L h')"
  unfolding Escalate_def
  by (intro traced_rules traced_patch) (use assms in \<open>auto intro!: optimistic_mono patch_machine_version simp del: append_assoc split: sum.split\<close>)

section \<open>An example\<close>

text \<open>A server that holds one Machine to begin with, nobody else writing it: what is stored, what was, and how many
  versions there have been.\<close>

record shelf =
  sh_current :: "string \<times> string \<Rightarrow> machine option"
  sh_versions :: "machine set"
  sh_count :: nat

definition version_text :: "nat \<Rightarrow> string" where
  "version_text n = replicate n CHR ''1''"

definition taken_up :: "machine \<Rightarrow> machine \<Rightarrow> machine \<Rightarrow> machine" where
  "taken_up c b u = c\<lparr>m_annotations :=
     (\<lambda>k. if m_annotations b k \<noteq> m_annotations u k then m_annotations u k else m_annotations c k)\<rparr>"

definition conflict_error :: go_error where
  "conflict_error = ApiError Conflict ''the object has been modified''"

fun shelf_patch :: "shelf \<Rightarrow> machine \<Rightarrow> machine \<Rightarrow> bool \<Rightarrow> go_error + machine" where
  "shelf_patch sh b u lock = (case sh_current sh (machine_key b) of
     None \<Rightarrow> Inl not_found
   | Some c \<Rightarrow>
       if machine_key u \<noteq> machine_key b then Inl (Plain ''the name may not change'')
       else if lock \<and> m_resource_version c \<noteq> m_resource_version b then Inl conflict_error
       else Inr ((if lock then u else taken_up c b u)\<lparr>m_resource_version := version_text (Suc (sh_count sh))\<rparr>))"

fun shelf_delete :: "shelf \<Rightarrow> machine \<Rightarrow> go_error option" where
  "shelf_delete sh m = (case sh_current sh (machine_key m) of
     None \<Rightarrow> Some not_found
   | Some c \<Rightarrow> if m_resource_version c \<noteq> m_resource_version m then Some conflict_error else None)"

fun shelf_step :: "shelf \<Rightarrow> call \<Rightarrow> shelf" where
  "shelf_step sh (PatchMachine b u lock (Inr m)) =
     (if shelf_patch sh b u lock = Inr m
      then \<lparr>sh_current = (sh_current sh)(machine_key m \<mapsto> m), sh_versions = insert m (sh_versions sh), sh_count = Suc (sh_count sh)\<rparr>
      else sh)"
| "shelf_step sh (DeleteMachine m None) =
     (if shelf_delete sh m = None then sh\<lparr>sh_current := (sh_current sh)(machine_key m := None)\<rparr> else sh)"
| "shelf_step sh _ = sh"

definition shelf_of :: "machine \<Rightarrow> call list \<Rightarrow> shelf" where
  "shelf_of m h = foldl shelf_step
     \<lparr>sh_current = [machine_key m \<mapsto> m], sh_versions = {m}, sh_count = length (m_resource_version m)\<rparr> h"

definition ledger_of :: "machine \<Rightarrow> ledger" where
  "ledger_of m = \<lparr>versions = (\<lambda>h. sh_versions (shelf_of m h)), stored = (\<lambda>h. sh_current (shelf_of m h))\<rparr>"

text \<open>The environment that answers for the Machine in this way and for the rest as it did.\<close>

definition holding_machine :: "machine \<Rightarrow> env \<Rightarrow> env" where
  "holding_machine m E = E\<lparr>
     get_machine := (\<lambda>h ns name. case sh_current (shelf_of m h) (ns, name) of None \<Rightarrow> Inl not_found | Some c \<Rightarrow> Inr c),
     list_machines := (\<lambda>h key. case sh_current (shelf_of m h) (machine_key m) of None \<Rightarrow> Inr [] | Some c \<Rightarrow> Inr [c]),
     patch_machine := (\<lambda>h. shelf_patch (shelf_of m h)),
     delete_machine := (\<lambda>h. shelf_delete (shelf_of m h))\<rparr>"

definition shelf_ok :: "shelf \<Rightarrow> bool" where
  "shelf_ok sh \<longleftrightarrow>
     (\<forall>m \<in> sh_versions sh. length (m_resource_version m) \<le> sh_count sh) \<and>
     inj_on (\<lambda>m. length (m_resource_version m)) (sh_versions sh) \<and>
     (\<forall>k m. sh_current sh k = Some m \<longrightarrow> m \<in> sh_versions sh \<and> machine_key m = k)"

lemma shelf_patch_Inr:
  "shelf_ok sh \<Longrightarrow> shelf_patch sh b u lock = Inr m \<Longrightarrow>
     machine_key m = machine_key b \<and> m_resource_version m = version_text (Suc (sh_count sh)) \<and>
     (lock \<longrightarrow> (\<exists>c. sh_current sh (machine_key b) = Some c \<and> m_resource_version c = m_resource_version b) \<and>
       (\<exists>v. m = u\<lparr>m_resource_version := v\<rparr>))"
  by (auto simp: shelf_ok_def taken_up_def machine_key_def split: option.splits if_splits)

lemma shelf_delete_None:
  "shelf_delete sh m = None \<Longrightarrow> \<exists>c. sh_current sh (machine_key m) = Some c \<and> m_resource_version c = m_resource_version m"
  by (auto split: option.splits if_splits)

lemma shelf_step_ok: "shelf_ok sh \<Longrightarrow> shelf_ok (shelf_step sh c)"
proof (induction sh c rule: shelf_step.induct)
  case (1 sh b u lock m)
  show ?case
  proof (cases "shelf_patch sh b u lock = Inr m")
    case True
    from shelf_patch_Inr [OF 1 this] have len: "length (m_resource_version m) = Suc (sh_count sh)"
      by (simp add: version_text_def)
    have below: "\<forall>m' \<in> sh_versions sh. length (m_resource_version m') \<le> sh_count sh" using 1 by (simp add: shelf_ok_def)
    then have "\<forall>m' \<in> sh_versions sh. length (m_resource_version m') \<noteq> length (m_resource_version m)" using len by fastforce
    with 1 True len below show ?thesis by (auto simp: shelf_ok_def inj_on_insert simp del: shelf_patch.simps)
  qed (simp add: 1 del: shelf_patch.simps)
qed (auto simp: shelf_ok_def simp del: shelf_delete.simps)

lemma shelf_of_ok: "shelf_ok (shelf_of m h)"
proof (induction h rule: rev_induct)
  case Nil
  then show ?case by (simp add: shelf_of_def shelf_ok_def)
next
  case (snoc c h)
  then show ?case using shelf_step_ok by (simp add: shelf_of_def)
qed

lemma shelf_of_snoc [simp]: "shelf_of m (h @ [c]) = shelf_step (shelf_of m h) c"
  by (simp add: shelf_of_def)

lemma shelf_of_Nil [simp]:
  "shelf_of m [] = \<lparr>sh_current = [machine_key m \<mapsto> m], sh_versions = {m}, sh_count = length (m_resource_version m)\<rparr>"
  by (simp add: shelf_of_def)

lemma shelf_step_grows: "sh_versions sh \<subseteq> sh_versions (shelf_step sh c)"
  by (cases "(sh, c)" rule: shelf_step.cases) auto

lemma shelf_current: "sh_current (shelf_of m h) k = Some c \<Longrightarrow> c \<in> sh_versions (shelf_of m h) \<and> machine_key c = k"
  using shelf_of_ok [of m h] unfolding shelf_ok_def by blast

lemma holding_machine_optimistic:
  "optimistic (holding_machine m E) (ledger_of m)"
proof -
  have one: "a = b" if "shelf_ok sh" "a \<in> sh_versions sh" "b \<in> sh_versions sh" "m_resource_version a = m_resource_version b" for sh a b
    using that by (metis inj_onD shelf_ok_def)
  have "coherent (ledger_of m)"
    unfolding coherent_def ledger_of_def using shelf_step_grows one [OF shelf_of_ok] shelf_of_ok [of m]
    by (auto simp: shelf_ok_def)
  moreover have "answers_versions (holding_machine m E) (ledger_of m)"
    using shelf_current [of m] unfolding answers_versions_def ledger_of_def holding_machine_def
    by (auto simp del: shelf_patch.simps split: option.splits)
  moreover have "compares_versions (holding_machine m E) (ledger_of m)"
    using shelf_patch_Inr [OF shelf_of_ok] shelf_delete_None
    unfolding compares_versions_def ledger_of_def holding_machine_def still_current_def
    by (simp del: shelf_patch.simps shelf_delete.simps)
  ultimately show ?thesis by (simp add: optimistic_def)
qed

end
