(* ===== verification/ClusterVersions.thy ===== *)
theory ClusterVersions
  imports Server Reconcile
begin

text \<open>
  The cluster controller against a server that compares resource versions (\<open>Server\<close>): its operations get Machines the
  server has given out, and hand such Machines on, so that every write of a Machine is made from one of them.
\<close>

section \<open>Acting on a signal\<close>

lemma free_of_trace: "(\<And>c. P c \<Longrightarrow> \<not> machine_write c) \<Longrightarrow> emits P m \<Longrightarrow> (\<And>a cs. Q a (h @ cs)) \<Longrightarrow> traced h (from_version E L) m Q"
  by (rule traced_emits) (auto elim: emits_mono)

lemma traced_report [traced_rules]:
  "(\<And>cs. Q () (h @ cs)) \<Longrightarrow> traced h (from_version E L) (report cfg news object eventReason action message) Q"
  by (rule traced_emits [OF emits_report]) auto

lemma traced_RecordSkipped [traced_rules]:
  "(\<And>cs. Q () (h @ cs)) \<Longrightarrow> traced h (from_version E L) (RecordSkipped dryRun m skip action reason) Q"
  by (rule traced_emits [OF emits_RecordSkipped]) auto

lemma traced_heldForChecks [traced_rules]:
  "(\<And>r cs. Q r (h @ cs)) \<Longrightarrow> traced h (from_version E L) (heldForChecks E K key m) Q"
  by (rule traced_emits) (auto simp: heldForChecks_def intro!: emits_rules)

definition hands_on :: "ledger \<Rightarrow> 'a \<times> machine \<Rightarrow> call list \<Rightarrow> bool" where
  "hands_on L r h \<longleftrightarrow> snd r \<in> versions L h"

lemma hands_on_Pair [simp]: "hands_on L (a, m) h \<longleftrightarrow> m \<in> versions L h"
  by (simp add: hands_on_def)

lemma traced_mark_machine:
  assumes "optimistic E L" and "m \<in> versions L h"
  shows "traced h (from_version E L) (mark_machine E cfg sig p m node obs previous) (hands_on L)"
  unfolding mark_machine_def Let_def
  by (intro traced_rules traced_mono [OF traced_MarkForRemediation [OF assms]])
    (use assms in \<open>auto simp del: append_assoc intro: optimistic_mono\<close>)

lemma traced_remediate_covered:
  assumes "optimistic E L" and "m \<in> versions L h"
  shows "traced h (from_version E L) (remediate_covered E K cfg cluster sig p m node obs previous) (hands_on L)"
  unfolding remediate_covered_def Let_def
  by (intro traced_rules traced_mark_machine [OF assms(1)]) (use assms in \<open>auto simp del: append_assoc intro: optimistic_mono\<close>)

lemma traced_remediate_guarded:
  assumes "optimistic E L" and "m \<in> versions L h"
  shows "traced h (from_version E L) (remediate_guarded E K cfg cluster sig p m node obs previous) (hands_on L)"
  unfolding remediate_guarded_def Let_def
  by (intro traced_rules traced_remediate_covered [OF assms(1)]) (use assms in \<open>auto simp del: append_assoc intro: optimistic_mono\<close>)

lemma traced_remediate:
  assumes "optimistic E L" and "m \<in> versions L h"
  shows "traced h (from_version E L) (remediate E K cfg cluster checks sig outcome m node obs previous) (hands_on L)"
  unfolding remediate_def Let_def
  by (intro traced_rules traced_mono [OF traced_Escalate [OF assms]] traced_remediate_guarded [OF assms(1)])
    (use assms in \<open>auto simp del: append_assoc intro: optimistic_mono\<close>)

text \<open>Where there may be no Machine.\<close>

definition hands_on_any :: "ledger \<Rightarrow> machine option \<Rightarrow> call list \<Rightarrow> bool" where
  "hands_on_any L x h \<longleftrightarrow> (\<forall>m. x = Some m \<longrightarrow> m \<in> versions L h)"

lemma hands_on_any_simps [simp]: "hands_on_any L None h" "hands_on_any L (Some m) h \<longleftrightarrow> m \<in> versions L h"
  by (simp_all add: hands_on_any_def)

lemma hands_on_any_mono: "optimistic E L \<Longrightarrow> hands_on_any L x h \<Longrightarrow> hands_on_any L x (h @ cs)"
  by (auto simp: hands_on_any_def intro: optimistic_mono)

lemma traced_handle:
  assumes "optimistic E L" and "hands_on_any L machine h"
  shows "traced h (from_version E L) (handle E K cfg cluster mode checks sig machine node previous)
    (\<lambda>(obs, machine') h'. hands_on_any L machine' h')"
  unfolding handle_def Let_def
  by (intro traced_rules traced_mono [OF traced_remediate [OF assms(1)]])
    (use assms in \<open>auto simp del: append_assoc intro: optimistic_mono hands_on_any_mono\<close>)

lemma traced_release_attempt:
  assumes "optimistic E L" and "m \<in> versions L h"
  shows "traced h (from_version E L) (release_attempt E dryRun answered reason conflicted m) (hands_on L)"
  unfolding release_attempt_def Let_def
  by (intro traced_rules traced_mono [OF traced_Release [OF assms(1)]])
    (use assms get_machine_version [OF assms(1)] in \<open>auto simp del: append_assoc intro: optimistic_mono\<close>)

lemma traced_retry_release:
  assumes "optimistic E L" and "m \<in> versions L h"
  shows "traced h (from_version E L) (retry_release E dryRun answered reason n conflicted m) (hands_on L)"
  using assms(2)
proof (induction n arbitrary: conflicted m h)
  case 0
  then show ?case by (simp add: traced_return)
next
  case (Suc n)
  show ?case unfolding retry_release.simps
    by (intro traced_rules traced_mono [OF traced_release_attempt [OF assms(1) Suc.prems]] Suc.IH) auto
qed

lemma traced_releaseAnswered:
  assumes "optimistic E L" and "m \<in> versions L h"
  shows "traced h (from_version E L) (releaseAnswered E K cfg m reason) (hands_on L)"
  unfolding releaseAnswered_def by (rule traced_retry_release [OF assms])

section \<open>The loop, the releases and the answers\<close>

lemma traced_after_answer:
  assumes "optimistic E L" and "hands_on_any L machine h"
  shows "traced h (from_version E L) (after_answer E K cfg cluster machine sig a) (hands_on_any L)"
  unfolding after_answer_def
  by (intro traced_rules traced_mono [OF traced_releaseAnswered [OF assms(1)]])
    (use assms in \<open>auto simp del: append_assoc intro: optimistic_mono\<close>)

lemma traced_Answer:
  "(\<And>r cs. Q r (h @ cs)) \<Longrightarrow> traced h (from_version E L) (Answer E K name complete reason message) Q"
  by (rule traced_emits [OF emits_Answer]) auto

lemma traced_answer_request:
  assumes "optimistic E L" and "hands_on_any L machine h"
  shows "traced h (from_version E L) (answer_request E K cfg cluster machine sig a news) (hands_on_any L)"
  unfolding answer_request_def
  by (intro traced_rules traced_Answer traced_after_answer [OF assms(1)])
    (use assms in \<open>auto intro: hands_on_any_mono\<close>)

text \<open>The Machines by node are all Machines the server has given out.\<close>

definition all_versions :: "ledger \<Rightarrow> machines \<Rightarrow> call list \<Rightarrow> bool" where
  "all_versions L ms h \<longleftrightarrow> snd ` set ms \<subseteq> versions L h"

lemma all_versions_mono: "optimistic E L \<Longrightarrow> all_versions L ms h \<Longrightarrow> all_versions L ms (h @ cs)"
  by (auto simp: all_versions_def intro: optimistic_mono)

lemma all_versions_map_of: "all_versions L ms h \<Longrightarrow> hands_on_any L (map_of ms node) h"
  by (force simp: all_versions_def hands_on_any_def dest: map_of_SomeD)

lemma all_versions_update: "all_versions L ms h \<Longrightarrow> m \<in> versions L h \<Longrightarrow> all_versions L (AList.update node m ms) h"
  by (induction ms) (auto simp: all_versions_def)

lemma traced_release_step:
  assumes "optimistic E L" and "all_versions L (fst st) h"
  shows "traced h (from_version E L) (release_step E cfg key source held leftover node st) (\<lambda>st' h'. all_versions L (fst st') h')"
proof -
  obtain ms would where st: "st = (ms, would)" by fastforce
  have ms: "all_versions L ms h" using assms(2) by (simp add: st)
  have version: "m \<in> versions L h" if "map_of ms node = Some m" for m
    using all_versions_map_of [OF ms, of node] by (simp add: that)
  show ?thesis unfolding release_step_def st Let_def releasableBefore_def
    by (intro traced_rules traced_mono [OF traced_Release [OF assms(1)]])
      (use ms version in \<open>auto simp del: append_assoc intro!: all_versions_update intro: optimistic_mono [OF assms(1)] all_versions_mono [OF assms(1)]\<close>)
qed

lemma traced_releaseRestarts:
  assumes "optimistic E L" and "all_versions L machines h"
  shows "traced h (from_version E L) (releaseRestarts E cfg key source machines nodes current asking) (all_versions L)"
  unfolding releaseRestarts_def rememberWouldRelease_def
  by (intro traced_rules traced_mono [OF traced_loop [where I = "\<lambda>st. all_versions L (fst st)"]] traced_release_step [OF assms(1)])
    (use assms(2) in auto)

lemma traced_conclude:
  assumes "optimistic E L" and "all_versions L (ps_machines ps) h"
  shows "traced h (from_version E L) (conclude E K cfg cluster mode checks nodes previous sig ps)
    (\<lambda>ps'. all_versions L (ps_machines ps'))"
  unfolding conclude_def
  by (intro traced_rules traced_mono [OF traced_handle [OF assms(1) all_versions_map_of [OF assms(2)]]]
      traced_mono [OF traced_answer_request [OF assms(1)]])
    (use assms in \<open>auto simp del: append_assoc intro!: all_versions_update intro: all_versions_mono split: option.split\<close>)

lemma traced_IsPending:
  "(\<And>r cs. Q r (h @ cs)) \<Longrightarrow> traced h (from_version E L) (IsPending E K name) Q"
  by (rule traced_emits [OF emits_IsPending]) auto

lemma traced_handle_signal:
  assumes "optimistic E L" and "all_versions L (ps_machines ps) h"
  shows "traced h (from_version E L) (handle_signal E K cfg cluster mode checks nodes previous sig ps)
    (\<lambda>ps'. all_versions L (ps_machines ps'))"
  unfolding handle_signal_def
  by (intro traced_rules traced_IsPending traced_conclude [OF assms(1)])
    (use assms in \<open>auto simp del: append_assoc intro: all_versions_mono\<close>)

lemma traced_act:
  assumes "optimistic E L" and "all_versions L machines h"
  shows "traced h (from_version E L) (act E K cfg key cluster mode signals machines checks nodes) (\<lambda>_ _. True)"
proof -
  have free: "traced h' (from_version E L) m (\<lambda>_ _. True)" if "emits (Not \<circ> machine_write) m"
    for h' :: "call list" and m :: "(reconciler, 'a) state"
    by (rule free_of_trace [OF _ that]) auto
  have quiet: "emits (Not \<circ> machine_write) (remember key previous current)" "emits (Not \<circ> machine_write) (forgetWaits K key ms)"
    "emits (Not \<circ> machine_write) (nextLook E cfg key)" for previous current ms
    by (auto simp: forgetWaits_def nextLook_def intro!: emits_rules emits_remember)
  show ?thesis unfolding act_def observations_def
    by (intro traced_bind traced_gets traced_if traced_return
        traced_mono [OF traced_loop [where I = "\<lambda>ps. all_versions L (ps_machines ps)"]] traced_handle_signal [OF assms(1)]
        traced_mono [OF traced_releaseRestarts [OF assms(1)]] traced_mono [OF free [OF quiet(1)]] traced_mono [OF free [OF quiet(2)]]
        free [OF quiet(3)])
      (use assms(2) in auto)
qed

section \<open>A reconcile\<close>

lemma index_machines_subset: "snd ` set (index_machines items) \<subseteq> set items"
proof -
  have update: "snd ` set (AList.update k v xs) \<subseteq> insert v (snd ` set xs)" for k v and xs :: machines
    by (induction xs) auto
  have "snd ` set (fold (\<lambda>m byNode. if m_node_ref m \<noteq> [] then AList.update (m_node_ref m) m byNode else byNode) items acc)
      \<subseteq> set items \<union> snd ` set acc" for acc
  proof (induction items arbitrary: acc)
    case (Cons m items)
    show ?case
    proof (cases "m_node_ref m = []")
      case False
      then show ?thesis
        using subset_trans [OF Cons.IH [of "AList.update (m_node_ref m) m acc"] Un_mono [OF subset_refl update]] by simp
    qed (use Cons.IH [of acc] in \<open>simp add: subset_insertI2\<close>)
  qed simp
  from this [of "[]"] show ?thesis by (simp add: index_machines_def)
qed

lemma traced_machinesByNode:
  assumes "optimistic E L"
  shows "traced h (from_version E L) (machinesByNode E cluster) (\<lambda>r h'. \<forall>ms. r = Inr ms \<longrightarrow> all_versions L ms h')"
proof -
  have "all_versions L (index_machines items) (h @ [ListMachines key (Inr items)])" if "list_machines E h key = Inr items" for key items
    using list_machines_versions [OF assms that] index_machines_subset [of items] unfolding all_versions_def by blast
  then show ?thesis unfolding machinesByNode_def by (intro traced_rules) (auto split: sum.split)
qed

lemma traced_read_and_act:
  assumes "optimistic E L"
  shows "traced h (from_version E L) (read_and_act E K cfg key cluster mode) (\<lambda>_ _. True)"
proof -
  have collect: "traced h' (from_version E L) (source_Collect E K mode :: (reconciler, go_error + signal list) state) (\<lambda>_ _. True)"
    and checks: "traced h' (from_version E L) (ListHealthChecks E cluster :: (reconciler, go_error + health_check list) state) (\<lambda>_ _. True)"
    and nodes: "traced h' (from_version E L) (nodesByName E :: (reconciler, go_error + nodes) state) (\<lambda>_ _. True)" for h'
    by (rule traced_emits; auto simp: ListHealthChecks_def nodesByName_def intro!: emits_rules)+
  show ?thesis unfolding read_and_act_def
    by (intro traced_bind traced_if traced_return traced_case_sum traced_case_option traced_log_line traced_ask
        traced_mono [OF collect] traced_mono [OF traced_machinesByNode [OF assms]] traced_mono [OF checks] traced_mono [OF nodes]
        traced_mono [OF traced_act [OF assms]])
      (auto simp del: append_assoc intro: all_versions_mono [OF assms])
qed

lemma traced_reconcile_cluster:
  assumes "optimistic E L"
  shows "traced h (from_version E L) (reconcile_cluster E K cfg key cluster) (\<lambda>_ _. True)"
proof -
  have mode: "traced h' (from_version E L) (selectMode E :: (reconciler, go_error + mode) state) (\<lambda>_ _. True)"
    and noted: "traced h' (from_version E L) (noteMode cfg cluster mode) (\<lambda>_ _. True)"
    and watch: "traced h' (from_version E L) (watchRequests E cfg key :: (reconciler, go_error option) state) (\<lambda>_ _. True)"
    and waits: "traced h' (from_version E L) (forgetWaits K key []) (\<lambda>_ _. True)" for h' mode
    by (rule traced_emits; auto simp: forgetWaits_def intro!: emits_rules emits_noteMode emits_watchRequests)+
  show ?thesis unfolding reconcile_cluster_def
    by (intro traced_bind traced_if traced_return traced_case_sum traced_case_option traced_log_line traced_ask
        traced_mono [OF mode] traced_mono [OF noted] traced_mono [OF watch] traced_mono [OF waits] traced_read_and_act [OF assms])
      auto
qed

lemma traced_Reconcile:
  assumes "optimistic E L"
  shows "traced h (from_version E L) (Reconcile E K cfg key) (\<lambda>_ _. True)"
proof -
  have waits: "traced h' (from_version E L) (forgetWaits K key []) (\<lambda>_ _. True)"
    and forgot: "traced h' (from_version E L) (forget key) (\<lambda>_ _. True)" for h'
    by (rule traced_emits; auto simp: forgetWaits_def forget_def intro!: emits_rules)+
  show ?thesis unfolding Reconcile_def
    by (intro traced_bind traced_if traced_return traced_case_sum traced_log_line traced_ask
        traced_mono [OF waits] traced_mono [OF forgot] traced_reconcile_cluster [OF assms])
      auto
qed

end
