(* ===== verification/Versions.thy ===== *)
theory Versions
  imports ClusterVersions ReplaceProperties
begin

text \<open>
  Both controllers against a server that compares resource versions (\<open>Server\<close>). The controller that replaces
  Machines promises in its comments that every write is conditional on the Machine being the one it read: here that
  is a property of its deletions, which meet the stored Machine on which the guards and the request still hold as
  they were evaluated, and of every patch either controller makes with the lock.
\<close>

section \<open>The replace controller\<close>

text \<open>What is found out about a Machine before it is touched, its name and Cluster included.\<close>

definition evaluated :: "kube \<Rightarrow> string \<times> string \<Rightarrow> cluster_key \<Rightarrow> cluster \<Rightarrow> string \<Rightarrow> machine \<Rightarrow> bool" where
  "evaluated K key ck cluster request m \<longleftrightarrow> machine_key m = key \<and> (m_namespace m, m_cluster m) = ck \<and>
     \<not> deleting m \<and> m_annotations m ReplaceAnnotation = Some request \<and> guardReplace K cluster m = None"

definition read_since :: "nat \<Rightarrow> call list \<Rightarrow> string \<times> string \<Rightarrow> cluster_key \<Rightarrow> cluster \<Rightarrow> string \<Rightarrow> bool" where
  "read_since n h key ck cluster request \<longleftrightarrow> GetCluster ck (Inr cluster) \<in> set (drop n h) \<and>
     (\<exists>m. GetMachine (fst key) (snd key) (Inr m) \<in> set (drop n h) \<and> m_annotations m ReplaceAnnotation = Some request)"

text \<open>Every write is made from a version, and a deletion from one that was evaluated, for the request and with the
  Cluster read since the first \<open>n\<close> calls; and what is patched is not being deleted.\<close>

fun deletes_evaluated :: "env \<Rightarrow> ledger \<Rightarrow> kube \<Rightarrow> string \<times> string \<Rightarrow> nat \<Rightarrow> call list \<Rightarrow> call \<Rightarrow> bool" where
  "deletes_evaluated E L K key n h (DeleteMachine m r) \<longleftrightarrow> from_version E L h (DeleteMachine m r) \<and>
     request_state m = Replacing \<and> (\<exists>ck cluster request.
       evaluated K key ck cluster request m \<and> read_since n h key ck cluster request)"
| "deletes_evaluated E L K key n h (PatchMachine b u lock r) \<longleftrightarrow> from_version E L h (PatchMachine b u lock r) \<and> \<not> deleting b"
| "deletes_evaluated E L K key n h c \<longleftrightarrow> from_version E L h c"

lemma deletes_evaluated_other [simp]: "\<not> machine_write c \<Longrightarrow> deletes_evaluated E L K key n h c"
  by (cases c) auto

definition in_hand :: "ledger \<Rightarrow> kube \<Rightarrow> string \<times> string \<Rightarrow> cluster_key \<Rightarrow> cluster \<Rightarrow> string \<Rightarrow> nat \<Rightarrow> call list \<Rightarrow> machine \<Rightarrow> bool" where
  "in_hand L K key ck cluster request n h m \<longleftrightarrow> m \<in> versions L h \<and> evaluated K key ck cluster request m \<and>
     read_since n h key ck cluster request"

lemma read_since_mono [simp]: "read_since n h key ck cluster request \<Longrightarrow> read_since n (h @ cs) key ck cluster request"
  by (auto simp: read_since_def)

lemma in_hand_mono: "optimistic E L \<Longrightarrow> in_hand L K key ck cluster request n h m \<Longrightarrow> in_hand L K key ck cluster request n (h @ cs) m"
  by (auto simp: in_hand_def intro: optimistic_mono)

lemma in_hand_version: "in_hand L K key ck cluster request n h m \<Longrightarrow> m \<in> versions L h"
  by (simp add: in_hand_def)

lemma in_hand_not_deleting: "in_hand L K key ck cluster request n h m \<Longrightarrow> \<not> deleting m"
  by (simp add: in_hand_def evaluated_def)

lemma request_keys_not_marks: "ReplaceAnnotation \<notin> set mark_annotations" "ReplaceStatusAnnotation \<notin> set mark_annotations"
  by (simp_all add: ReplaceAnnotation_def ReplaceStatusAnnotation_def mark_annotations_def remediate_annotation_def AnnotationPrefix_def
      RemediationReasonAnnotation_def RemediationActionAnnotation_def RemediationBootIDAnnotation_def RemediationRequestAnnotation_def)

lemma status_key_own [simp]:
  "remediate_annotation \<noteq> ReplaceStatusAnnotation" "paused_annotation \<noteq> ReplaceStatusAnnotation"
  "skip_remediation_annotation \<noteq> ReplaceStatusAnnotation"
  by (simp_all add: remediate_annotation_def paused_annotation_def skip_remediation_annotation_def
      ReplaceStatusAnnotation_def AnnotationPrefix_def)

lemma evaluated_with_status [simp]:
  "evaluated K key ck cluster request ((with_status m status)\<lparr>m_resource_version := v\<rparr>) \<longleftrightarrow> evaluated K key ck cluster request m"
  by (simp add: evaluated_def machine_key_def deleting_def guardReplace_def IsControlPlane_def IsMarkedForRemediation_def
      IsPaused_def IsOptedOut_def ownedByMachineSet_def with_status_def)

lemma status_with_status [simp]: "annotation ((with_status m status)\<lparr>m_resource_version := v\<rparr>) ReplaceStatusAnnotation = status"
  by (simp add: annotation_def with_status_def)

lemma traced_setStatus:
  assumes "optimistic E L" and "in_hand L K key ck cluster request n h m" and "status \<noteq> []"
  shows "traced h (deletes_evaluated E L K key n) (setStatus E m status)
    (\<lambda>(e, m') h'. in_hand L K key ck cluster request n h' m' \<and> (e = None \<longrightarrow> annotation m' ReplaceStatusAnnotation = status))"
proof -
  let ?r = "patch_machine E h m (with_status m status) True"
  have "in_hand L K key ck cluster request n (h @ [PatchMachine m (with_status m status) True (Inr u)]) u \<and>
      annotation u ReplaceStatusAnnotation = status" if u: "?r = Inr u" for u
    using locked_patch_answer [OF assms(1) u] patch_machine_version [OF assms(1) u] assms(2,3)
    by (auto simp: in_hand_def)
  then show ?thesis
    unfolding setStatus_def Let_def
    by (intro traced_rules traced_patch)
      (use assms in_hand_not_deleting [OF assms(2)] in \<open>auto simp: annotation_def in_hand_version intro: in_hand_mono split: sum.split\<close>)
qed

lemma traced_reject:
  assumes "optimistic E L" and "in_hand L K key ck cluster request n h m"
  shows "traced h (deletes_evaluated E L K key n) (reject E K cfg m req reason message) (\<lambda>_ _. True)"
  unfolding reject_def
  by (intro traced_rules traced_mono [OF traced_setStatus [OF assms(1)]])
    (use assms in \<open>auto intro: in_hand_mono split: option.split\<close>)

lemma traced_fail:
  assumes "optimistic E L" and "in_hand L K key ck cluster request n h m"
  shows "traced h (deletes_evaluated E L K key n) (fail E K cfg m req err) (\<lambda>_ _. True)"
  unfolding fail_def by (intro traced_rules traced_reject [OF assms]) auto

text \<open>Reading and making rules writes no Machine.\<close>

lemma no_write_traced:
  assumes "does m (\<lambda>a cs. list_all (Not \<circ> machine_write) cs \<and> R a)"
    and "\<And>a cs. R a \<Longrightarrow> Q a (h @ cs)"
  shows "traced h (deletes_evaluated E L K key n) m Q"
  by (rule traced_does, rule does_mono [OF assms(1)]) (auto simp: list_all_iff intro: assms(2))

lemma no_write_Ensure: "does (Ensure E K d ow) (\<lambda>_ cs. list_all (Not \<circ> machine_write) cs \<and> True)"
  by (rule does_mono [OF does_Ensure]) (auto intro: reads_no_machine_write(3))

lemma no_write_Exists: "does (Exists E K d) (\<lambda>_ cs. list_all (Not \<circ> machine_write) cs \<and> True)"
  by (rule does_mono [OF does_Exists]) (auto intro: reads_no_machine_write(2))

lemma no_write_Of: "does (Of E K ow) (\<lambda>_ cs. list_all (Not \<circ> machine_write) cs \<and> True)"
  by (rule does_mono [OF does_Of]) (auto intro: reads_no_machine_write(2))

lemma traced_ensure_rules:
  assumes "optimistic E L" and "in_hand L K key ck cluster request n h m"
  shows "traced h (deletes_evaluated E L K key n) (ensure_rules E K cfg ow m req ds)
    (\<lambda>r h'. r = None \<longrightarrow> in_hand L K key ck cluster request n h' m)"
  using assms(2)
proof (induction ds arbitrary: h)
  case Nil
  then show ?case by (simp add: traced_return)
next
  case (Cons d ds)
  note held = in_hand_mono [OF assms(1) Cons.prems]
  show ?case unfolding ensure_rules.simps
    by (intro traced_rules no_write_traced [OF no_write_Ensure] traced_mono [OF traced_fail [OF assms(1) held]] Cons.IH)
      (use held in \<open>auto intro: in_hand_mono [OF assms(1)]\<close>)
qed

lemma traced_confirm_rules:
  assumes "optimistic E L" and "in_hand L K key ck cluster request n h m"
  shows "traced h (deletes_evaluated E L K key n) (confirm_rules E K cfg m req ds)
    (\<lambda>r h'. r = None \<longrightarrow> in_hand L K key ck cluster request n h' m)"
  using assms(2)
proof (induction ds arbitrary: h)
  case Nil
  then show ?case by (simp add: traced_return)
next
  case (Cons d ds)
  note held = in_hand_mono [OF assms(1) Cons.prems]
  show ?case unfolding confirm_rules.simps
    by (intro traced_rules no_write_traced [OF no_write_Exists] traced_mono [OF traced_fail [OF assms(1) held]] Cons.IH)
      (use held in \<open>auto intro: in_hand_mono [OF assms(1)]\<close>)
qed

text \<open>Whoever gets devices back has a Machine in hand that says its rules are in place.\<close>

lemma traced_make_rules:
  assumes "optimistic E L" and "in_hand L K key ck cluster request n h m" and "annotation m ReplaceStatusAnnotation = status"
  shows "traced h (deletes_evaluated E L K key n) (make_rules E K cfg cluster m req status devices)
    (\<lambda>(e, ds, m') h'. e = None \<and> ds \<noteq> [] \<longrightarrow>
       in_hand L K key ck cluster request n h' m' \<and> annotation m' ReplaceStatusAnnotation = StatusReplacing)"
proof -
  let ?P = "deletes_evaluated E L K key n" and ?I = "in_hand L K key ck cluster request n"
  have start: "traced h ?P (if status \<noteq> StatusReplacing then setStatus E m StatusQuarantining else State_Monad.return (None, m))
      (\<lambda>(e, m') h'. ?I h' m' \<and> (status = StatusReplacing \<longrightarrow> annotation m' ReplaceStatusAnnotation = StatusReplacing))"
    by (intro traced_rules traced_mono [OF traced_setStatus [OF assms(1,2)]]) (use assms in auto)
  have finish: "traced h' ?P (if status \<noteq> StatusReplacing then setStatus E m' StatusReplacing else State_Monad.return (None, m'))
      (\<lambda>(e, m2) h2. ?I h2 m2 \<and> (e = None \<longrightarrow> annotation m2 ReplaceStatusAnnotation = StatusReplacing))"
    if "?I h' m'" "status = StatusReplacing \<longrightarrow> annotation m' ReplaceStatusAnnotation = StatusReplacing" for h' m'
    by (intro traced_rules traced_mono [OF traced_setStatus [OF assms(1) that(1)]]) (use that in auto)
  show ?thesis unfolding make_rules_def
    by (intro traced_bind traced_return traced_case_option traced_case_prod traced_emit_event traced_mono [OF start]
        traced_mono [OF traced_ensure_rules [OF assms(1), where ck = ck and cluster = cluster and request = request]]
        traced_mono [OF traced_confirm_rules [OF assms(1), where ck = ck and cluster = cluster and request = request]]
        traced_mono [OF finish])
      (auto simp del: append_assoc split: prod.splits intro: in_hand_mono [OF assms(1)])
qed

lemma traced_delete_machine_for:
  assumes "optimistic E L" and "in_hand L K key ck cluster request n h m" and "annotation m ReplaceStatusAnnotation = StatusReplacing"
  shows "traced h (deletes_evaluated E L K key n) (delete_machine_for E K cfg m req devices) (\<lambda>_ _. True)"
proof -
  have "deletes_evaluated E L K key n h (DeleteMachine m (delete_machine E h m))"
    using assms(2,3) by (auto simp: in_hand_def request_state_def evaluated_def)
  then show ?thesis unfolding delete_machine_for_def
    by (intro traced_rules traced_fail [OF assms(1) in_hand_mono [OF assms(1,2)]] traced_mono [OF traced_fail [OF assms(1) in_hand_mono [OF assms(1,2)]]]) auto
qed

lemma traced_rules_made:
  assumes "optimistic E L" and "in_hand L K key ck cluster request n h m"
  shows "traced h (deletes_evaluated E L K key n) (rules_made E K cfg cluster m req names status)
    (\<lambda>r h'. case r of Inl _ \<Rightarrow> True | Inr ds \<Rightarrow> in_hand L K key ck cluster request n h' m \<and> (ds \<noteq> [] \<longrightarrow> status = StatusReplacing))"
  unfolding rules_made_def
  by (intro traced_rules no_write_traced [OF no_write_Of] traced_mono [OF traced_fail [OF assms(1) in_hand_mono [OF assms]]])
    (use assms in \<open>auto intro: in_hand_mono\<close>)

context device_locator
begin

lemma no_write_locator: "does (Devices c m) (\<lambda>_ cs. list_all (Not \<circ> machine_write) cs \<and> True)"
  by (rule does_mono [OF does_emits [OF reads]]) (auto intro: reads_no_machine_write(1))

lemma traced_quarantine:
  assumes "optimistic E L" and "in_hand L K key ck cluster request n h m" and "annotation m ReplaceStatusAnnotation = status"
  shows "traced h (deletes_evaluated E L K key n) (quarantine E K cfg Devices cluster m req names status)
    (\<lambda>(e, ds, m') h'. e = None \<and> ds \<noteq> [] \<longrightarrow>
       in_hand L K key ck cluster request n h' m' \<and> annotation m' ReplaceStatusAnnotation = StatusReplacing)"
  unfolding quarantine_def
  by (intro traced_rules no_write_traced [OF no_write_locator] traced_mono [OF traced_fail [OF assms(1)]]
      traced_make_rules [OF assms(1)])
    (use assms in \<open>auto intro: in_hand_mono\<close>)

lemma traced_carry_out:
  assumes "optimistic E L" and "in_hand L K key ck cluster request n h m" and "annotation m ReplaceStatusAnnotation = status"
  shows "traced h (deletes_evaluated E L K key n) (carry_out E K cfg Devices cluster m req status) (\<lambda>_ _. True)"
  unfolding carry_out_def
  by (intro traced_rules traced_mono [OF traced_reject [OF assms(1,2)]] traced_mono [OF traced_fail [OF assms(1), where ck = ck and cluster = cluster and request = request]]
      traced_mono [OF traced_rules_made [OF assms(1,2)]] traced_mono [OF traced_quarantine [OF assms(1), where ck = ck and cluster = cluster and request = request]]
      traced_delete_machine_for [OF assms(1), where ck = ck and cluster = cluster and request = request])
    (use assms in \<open>auto intro: in_hand_mono\<close>)

lemma traced_replace:
  assumes "optimistic E L" and "m \<in> versions L h" and "machine_key m = key" and "n \<le> length h"
    and "GetMachine (fst key) (snd key) (Inr m) \<in> set (drop n h)"
  shows "traced h (deletes_evaluated E L K key n) (replace E K cfg Devices m) (\<lambda>_ _. True)"
proof -
  have withdrawn: "traced h (deletes_evaluated E L K key n) (setStatus E m []) (\<lambda>_ _. True)" if "\<not> deleting m"
    unfolding setStatus_def Let_def by (intro traced_rules traced_patch) (use assms(2) that in auto)
  let ?ck = "(m_namespace m, m_cluster m)"
  show ?thesis
  proof (cases "\<exists>request. m_annotations m ReplaceAnnotation = Some request \<and> \<not> deleting m")
    case True
    then obtain request where req: "m_annotations m ReplaceAnnotation = Some request" "\<not> deleting m" by blast
    have guarded: "traced h' (deletes_evaluated E L K key n)
        (carry_out E K cfg Devices cluster m request (annotation m ReplaceStatusAnnotation)) (\<lambda>_ _. True)"
      if h': "h' = h @ [GetCluster ?ck (Inr cluster)]" for h' cluster
    proof (cases "guardReplace K cluster m")
      case None
      have "read_since n h' key ?ck cluster request" using assms(4,5) req by (auto simp: read_since_def h')
      moreover have "m \<in> versions L h'" using assms(1,2) by (simp add: h' optimistic_mono)
      ultimately have "in_hand L K key ?ck cluster request n h' m" using None assms(3) req by (simp add: in_hand_def evaluated_def)
      then show ?thesis by (rule traced_carry_out [OF assms(1)]) simp
    next
      case (Some rm)
      have "m \<in> versions L h''" if "h'' = h' @ cs" for h'' cs using assms(1,2) by (simp add: h' that optimistic_mono)
      with Some show ?thesis unfolding carry_out_def reject_def setStatus_def Let_def
        by (simp, intro traced_rules traced_patch) (use req in auto)
    qed
    show ?thesis unfolding replace_def Let_def
      by (intro traced_rules traced_mono [OF withdrawn]) (use req guarded in \<open>auto simp: guarded\<close>)
  next
    case False
    then show ?thesis unfolding replace_def Let_def
      by (cases "deleting m"; simp add: traced_return) (intro impI traced_rules traced_mono [OF withdrawn]; simp)
  qed
qed

lemma traced_Reconcile_replace:
  assumes "optimistic E L"
  shows "traced h (deletes_evaluated E L K (ns, name) (length h)) (Reconcile_replace E K cfg Devices ns name) (\<lambda>_ _. True)"
  unfolding Reconcile_replace_def
  by (intro traced_rules traced_mono [OF traced_replace [OF assms]])
    (use get_machine_version [OF assms] in auto)

end

text \<open>C3: The deletion of a Machine meets the Machine that was evaluated. Whatever others write meanwhile, when a reconcile's
  deletion is accepted, the server holds at that moment exactly the Machine the reconcile has in hand: not being deleted,
  asking for the very request that was read at the start and carried out, its status saying that the rules are in place,
  and free of every guard, with the Cluster read for it. So a request that was edited or withdrawn meanwhile, or a Machine
  paused, opted out or marked meanwhile, is never deleted.\<close>

theorem deletion_meets_evaluated:
  assumes "optimistic E L"
    and "new_calls (Reconcile_replace E K cfg (Devices E K) ns name) s = pre @ DeleteMachine m None # post"
  shows "stored L (history s @ pre) (ns, name) = Some m \<and> \<not> deleting m \<and> request_state m = Replacing \<and>
    (\<exists>cluster request m0. GetMachine ns name (Inr m0) \<in> set pre \<and> GetCluster (m_namespace m, m_cluster m) (Inr cluster) \<in> set pre \<and>
       m_annotations m0 ReplaceAnnotation = Some request \<and> m_annotations m ReplaceAnnotation = Some request \<and>
       guardReplace K cluster m = None)"
proof -
  have "each_at (deletes_evaluated E L K (ns, name) (length (history s))) (history s) (pre @ DeleteMachine m None # post)"
    unfolding assms(2) [symmetric] by (rule traced_new_calls [OF kubevirt.traced_Reconcile_replace [OF assms(1)]])
  note at = each_atD [OF this]
  then have "stored L (history s @ pre) (machine_key m) = Some m"
    using accepted_delete_current [OF assms(1)] by simp
  with at show ?thesis by (auto simp: evaluated_def read_since_def)
qed

text \<open>A server with the example's answers that holds a Machine whose rules are in place: the rules found for it are those its
  request needs.\<close>

definition replacing_machine :: machine where
  "replacing_machine = with_status faulty_machine StatusReplacing"

definition example_rule :: unstructured where
  "example_rule = rule_object plain_kube ''v1'' example_device example_owner 0"

definition replacing_server :: env where
  "replacing_server = holding_machine replacing_machine (vm_server\<lparr>list_rules := (\<lambda>_ _ _. Inr [example_rule])\<rparr>)"

lemma replacing_server_answers:
  "get_machine replacing_server [] ''ns'' ''m'' = Inr replacing_machine"
  "delete_machine replacing_server [GetMachine ns name r, GetCluster key c, v1_lookup, ListRules v labels rules] replacing_machine = None"
  "get_cluster replacing_server h key = Inr example_cluster"
  "list_rules replacing_server h v labels = Inr [example_rule]"
  by (simp_all add: replacing_server_def holding_machine_def vm_server_def shelf_of_def)
    (simp_all add: machine_key_def replacing_machine_def faulty_machine_def example_machine_def with_status_def)

lemma replacing_machine_facts:
  "\<not> deleting replacing_machine" "guardReplace plain_kube example_cluster replacing_machine = None"
  "m_annotations replacing_machine ReplaceAnnotation = Some RequestQuarantine"
  "annotation replacing_machine ReplaceStatusAnnotation = StatusReplacing"
  "owner_of example_cluster replacing_machine = example_owner"
proof -
  have "evaluated plain_kube (machine_key faulty_machine) (m_namespace faulty_machine, m_cluster faulty_machine) example_cluster RequestQuarantine
      ((with_status faulty_machine StatusReplacing)\<lparr>m_resource_version := m_resource_version replacing_machine\<rparr>)"
    using faulty_machine_replaceable faulty_machine_request by (simp only: evaluated_with_status) (simp add: evaluated_def)
  then show "\<not> deleting replacing_machine" "guardReplace plain_kube example_cluster replacing_machine = None"
    "m_annotations replacing_machine ReplaceAnnotation = Some RequestQuarantine"
    by (simp_all add: replacing_machine_def evaluated_def)
  show "annotation replacing_machine ReplaceStatusAnnotation = StatusReplacing"
    "owner_of example_cluster replacing_machine = example_owner"
    by (simp_all add: replacing_machine_def annotation_def with_status_def owner_of_def example_owner_def faulty_machine_def
        example_machine_def example_cluster_def)
qed

lemma example_rule_found: "devices_of_rules plain_kube example_owner [example_rule] = [example_device]"
proof -
  have "made_for plain_kube example_owner example_rule"
    unfolding example_rule_def by (simp add: rule_object_made_for [OF plain_kube_readers] example_device_def)
  then show ?thesis by (simp add: devices_of_rules_def) (simp add: example_rule_def rule_object_device [OF plain_kube_readers])
qed

lemma replacing_server_serves: "serves_v1 replacing_server"
  using vm_server_accepting by (simp add: accepting_def serves_v1_def replacing_server_def holding_machine_def)

lemma example_deletion:
  "\<exists>pre post. new_calls (Reconcile_replace replacing_server plain_kube replace_config_example (Devices replacing_server plain_kube) ''ns'' ''m'')
     (\<lparr>history = []\<rparr> :: call world) = pre @ DeleteMachine replacing_machine None # post"
proof -
  let ?ck = "(m_namespace replacing_machine, m_cluster replacing_machine)" and ?labels = "rule_labels plain_kube example_owner"
  let ?pre = "[GetMachine ''ns'' ''m'' (Inr replacing_machine), GetCluster ?ck (Inr example_cluster), v1_lookup,
    ListRules ''v1'' ?labels (Inr [example_rule])]"
  have rules: "run_state (Of replacing_server plain_kube example_owner) s =
      (Inr [example_device], s\<lparr>history := history s @ [v1_lookup, ListRules ''v1'' ?labels (Inr [example_rule])]\<rparr>)" for s :: "call world"
    by (simp add: Of_def run_rule_kind [OF replacing_server_serves] replacing_server_answers example_rule_found)
  have "q_selector replace_config_example = None" "\<not> q_dry_run replace_config_example" by (simp_all add: replace_config_example_def)
  then have "\<exists>post. new_calls (Reconcile_replace replacing_server plain_kube replace_config_example (Devices replacing_server plain_kube) ''ns'' ''m'')
      (\<lparr>history = []\<rparr> :: call world) = ?pre @ DeleteMachine replacing_machine None # post"
    by (simp add: new_calls_def Reconcile_replace_def replace_def carry_out_def rules_made_def rules replacing_server_answers
        replacing_machine_facts Covers_def delete_machine_for_def Let_def)
  then show ?thesis by blast
qed

theorem deletion_meets_evaluated_witness:
  "\<exists>pre post. new_calls (Reconcile_replace replacing_server plain_kube replace_config_example (Devices replacing_server plain_kube) ''ns'' ''m'')
      (\<lparr>history = []\<rparr> :: call world) = pre @ DeleteMachine replacing_machine None # post \<and>
    stored (ledger_of replacing_machine) pre (''ns'', ''m'') = Some replacing_machine \<and> request_state replacing_machine = Replacing"
proof -
  have opt: "optimistic replacing_server (ledger_of replacing_machine)" unfolding replacing_server_def by (rule holding_machine_optimistic)
  obtain pre post where calls: "new_calls (Reconcile_replace replacing_server plain_kube replace_config_example
      (Devices replacing_server plain_kube) ''ns'' ''m'') (\<lparr>history = []\<rparr> :: call world) = pre @ DeleteMachine replacing_machine None # post"
    using example_deletion by blast
  from deletion_meets_evaluated [OF opt calls] calls show ?thesis by auto
qed

end
