(* ===== verification/Frame.thy ===== *)
theory Frame
  imports Remembering ReplaceProperties
begin

text \<open>
  The replace controller keeps nothing between reconciles: it touches no more of the state than the history, so that any
  relation of \<open>respected\<close> holds across its operations (\<open>internal/controller/quarantine_controller.go\<close> and
  \<open>internal/quarantine\<close>), and the memory of the cluster controller is left as it was when both run.
\<close>

section \<open>The rules and the locator\<close>

context respected
begin

lemma keeps_rule_kind: "keeps (rule_kind E)"
proof -
  have "keeps (find_kind E vs)" for vs
    by (induction vs) (auto intro!: keeps_rules split: sum.splits)
  then show ?thesis by (simp add: rule_kind_def)
qed

lemma keeps_rule_calls: "keeps (Ensure E K d ow)" "keeps (Exists E K d)" "keeps (Of E K ow)"
  unfolding Ensure_def Exists_def Of_def ruleFor_def check_def by (intro keeps_rules keeps_basic keeps_rule_kind)+

lemma keeps_get_preferred: "keeps (get_preferred E gk ns name)"
  unfolding get_preferred_def by (intro keeps_rules)

lemma keeps_read_claims: "keeps (read_claims E ns names devices)"
proof (induction names arbitrary: devices)
  case (Cons name names)
  show ?case unfolding read_claims.simps by (intro keeps_rules Cons)
qed (simp add: keeps_return)

lemma keeps_Devices: "keeps (Devices E K cluster m)"
  unfolding Devices_def devices_of_machine_def devices_of_vmi_def claimsOf_def externalInfra_def Let_def
  by (intro keeps_rules keeps_get_preferred keeps_read_claims)

end

section \<open>Carrying out a request\<close>

context respected
begin

lemma keeps_status: "keeps (setStatus E m status)" "keeps (reject E K cfg m request reason message)" "keeps (fail E K cfg m request err)"
proof -
  show set: "keeps (setStatus E m status)" for m status unfolding setStatus_def Let_def by (intro keeps_rules keeps_basic)
  show reject: "keeps (reject E K cfg m request reason message)" for reason message
    unfolding reject_def by (intro keeps_rules keeps_basic set)
  show "keeps (fail E K cfg m request err)" unfolding fail_def by (intro keeps_rules reject)
qed

lemma keeps_rule_loops: "keeps (ensure_rules E K cfg ow m request ds)" "keeps (confirm_rules E K cfg m request ds)"
  by (induction ds) (auto intro!: keeps_rules keeps_basic keeps_rule_calls keeps_status)

lemma keeps_parts:
  "keeps (make_rules E K cfg cluster m request status devices)" "keeps (delete_machine_for E K cfg m request devices)"
  "keeps (rules_made E K cfg cluster m request names status)"
  unfolding make_rules_def delete_machine_for_def rules_made_def
  by (intro keeps_rules keeps_basic keeps_rule_calls keeps_status keeps_rule_loops)+

lemma keeps_Reconcile_replace: "keeps (Reconcile_replace E K cfg (Devices E K) ns name)"
  unfolding Reconcile_replace_def replace_def carry_out_def quarantine_def Let_def
  by (intro keeps_rules keeps_basic keeps_status keeps_parts keeps_Devices)

end

section \<open>The memory of the cluster controller\<close>

definition same_memory :: "reconciler \<Rightarrow> reconciler \<Rightarrow> bool" where
  "same_memory s s' \<longleftrightarrow> seen s' = seen s \<and> would_release s' = would_release s \<and> modes s' = modes s \<and> waiting s' = waiting s"

interpretation frame: respected same_memory
  by unfold_locales (auto simp: same_memory_def)

lemma Reconcile_replace_same_memory:
  "run_state (Reconcile_replace E K cfg (Devices E K) ns name) s = (r, s') \<Longrightarrow> same_memory s s'"
  by (rule frame.keepsD [OF frame.keeps_Reconcile_replace])

end
