(* ===== verification/Runs.thy ===== *)
theory Runs
  imports Program Versions Frame
begin

text \<open>
  The program once it is started: the manager runs reconciles of both controllers, one after another in any order, each on
  what it is woken for, and each sees what the ones before it did to the clusters and to the memory of the first
  controller. What holds of every call of a reconcile is lifted here to every call of a run, by rule induction.
\<close>

section \<open>Runs\<close>

inductive program_step :: "env \<Rightarrow> kube \<Rightarrow> program \<Rightarrow> reconciler \<Rightarrow> reconciler \<Rightarrow> bool" for E K p where
  cluster_reconciled: "run_state (Reconcile E K (pr_cluster p) key) s = (r, s') \<Longrightarrow> program_step E K p s s'"
| machine_reconciled: "pr_replace p = Some q \<Longrightarrow> run_state (Reconcile_replace E K q (Devices E K) ns name) s = (r, s') \<Longrightarrow>
    program_step E K p s s'"

inductive program_run :: "env \<Rightarrow> kube \<Rightarrow> program \<Rightarrow> reconciler \<Rightarrow> reconciler \<Rightarrow> bool" for E K p where
  started: "program_run E K p s s"
| continued: "program_run E K p s s' \<Longrightarrow> program_step E K p s' s'' \<Longrightarrow> program_run E K p s s''"

section \<open>What a run may do\<close>

text \<open>A call at its history, by what is stored then. In a dry run no call writes. A deletion is only made when the second
  controller was asked for; an accepted one meets a Machine that asks to be replaced, whose rules are in place and that
  nothing guards. An accepted patch of the kind that names a version meets that version, and either takes a restart
  mark that is there off, turns it into a replacement, or writes the status of a request, nothing else. A patch that does not is a
  mark of a Machine no guard protects.\<close>

fun safe_call :: "ledger \<Rightarrow> kube \<Rightarrow> program \<Rightarrow> call list \<Rightarrow> call \<Rightarrow> bool" where
  "safe_call L K p h (DeleteMachine m r) \<longleftrightarrow> \<not> cf_dry_run (pr_cluster p) \<and> pr_replace p \<noteq> None \<and>
     request_state m = Replacing \<and> \<not> deleting m \<and> ownedByMachineSet K m \<and> \<not> IsControlPlane m \<and> \<not> IsMarkedForRemediation m \<and>
     \<not> IsPaused m \<and> \<not> IsOptedOut m \<and> (r = None \<longrightarrow> stored L h (machine_key m) = Some m)"
| "safe_call L K p h (PatchMachine b u lock r) \<longleftrightarrow> \<not> cf_dry_run (pr_cluster p) \<and>
     (if lock then (release_patch b u \<and> MarkedAction b = Some ActionRestart \<or> escalate_patch b u \<or> (\<exists>status. u = with_status b status)) \<and>
        (\<forall>m. r = Inr m \<longrightarrow> stored L h (machine_key b) = Some b \<and> (\<exists>v. m = u\<lparr>m_resource_version := v\<rparr>))
      else mark_patch b u)"
| "safe_call L K p h c \<longleftrightarrow> \<not> (cf_dry_run (pr_cluster p) \<and> is_write c)"

definition started_as :: "program \<Rightarrow> bool" where
  "started_as p \<longleftrightarrow> (\<forall>q. pr_replace p = Some q \<longrightarrow> q_dry_run q = cf_dry_run (pr_cluster p))"

lemma each_at_mono: "each_at P h cs \<Longrightarrow> (\<And>h c. c \<in> set cs \<Longrightarrow> P h c \<Longrightarrow> Q h c) \<Longrightarrow> each_at Q h cs"
  by (induction cs arbitrary: h) auto

lemma guardReplace_free:
  "guardReplace K cluster m = None \<Longrightarrow> ownedByMachineSet K m \<and> \<not> IsControlPlane m \<and> \<not> IsMarkedForRemediation m \<and> \<not> IsPaused m \<and> \<not> IsOptedOut m"
  by (auto simp: guardReplace_def split: if_splits)

lemma safe_cluster_call:
  assumes "optimistic E L" and "cautious K (cf_dry_run (pr_cluster p)) c" and "from_version E L h c"
  shows "safe_call L K p h c"
proof (cases c)
  case (PatchMachine b u lock r)
  then show ?thesis using assms locked_patch_stored [OF assms(1)] locked_patch_answer [OF assms(1)]
    by (cases lock) auto
qed (use assms(2) in auto)

lemma safe_machine_call:
  assumes "optimistic E L" and "started_as p" and "pr_replace p = Some q"
    and "replace_call K (q_dry_run q) c" and "deletes_evaluated E L K key n h c"
  shows "safe_call L K p h c"
proof (cases c)
  case (PatchMachine b u lock r)
  then show ?thesis using assms locked_patch_stored [OF assms(1)] locked_patch_answer [OF assms(1)]
    by (auto simp: started_as_def)
next
  case (DeleteMachine m r)
  then show ?thesis using assms accepted_delete_current [OF assms(1)]
    by (auto simp: started_as_def evaluated_def dest!: guardReplace_free)
qed (use assms(2-4) in \<open>auto simp: started_as_def\<close>)

text \<open>What holds of every call of both controllers, at the history it is made at, holds of every call of a run.\<close>

lemma program_step_each:
  assumes "program_step E K p s s'" and "optimistic E L"
    and cluster: "\<And>h c. cautious K (cf_dry_run (pr_cluster p)) c \<Longrightarrow> from_version E L h c \<Longrightarrow> P h c"
    and machine: "\<And>h c q ns name. pr_replace p = Some q \<Longrightarrow> c \<in> set (new_calls (Reconcile_replace E K q (Devices E K) ns name) s) \<Longrightarrow>
      replace_call K (q_dry_run q) c \<Longrightarrow> deletes_evaluated E L K (ns, name) (length (history s)) h c \<Longrightarrow> P h c"
  shows "\<exists>cs. history s' = history s @ cs \<and> each_at P (history s) cs"
  using assms(1)
proof cases
  case (cluster_reconciled key r)
  from tracedD [OF traced_Reconcile [OF assms(2)] cluster_reconciled] obtain cs
    where cs: "history s' = history s @ cs" "each_at (from_version E L) (history s) cs" by blast
  then have "cs = new_calls (Reconcile E K (pr_cluster p) key) s" by (simp add: new_calls_def cluster_reconciled)
  then have "list_all (cautious K (cf_dry_run (pr_cluster p))) cs" using Reconcile_cautious_calls by simp
  with cs show ?thesis
    by (intro exI [of _ cs]) (auto simp: list_all_iff intro: each_at_mono cluster)
next
  case (machine_reconciled q ns name r)
  from tracedD [OF kubevirt.traced_Reconcile_replace [OF assms(2)] machine_reconciled(2)] obtain cs
    where cs: "history s' = history s @ cs" "each_at (deletes_evaluated E L K (ns, name) (length (history s))) (history s) cs" by blast
  then have new: "cs = new_calls (Reconcile_replace E K q (Devices E K) ns name) s" by (simp add: new_calls_def machine_reconciled(2))
  have "list_all (replace_call K (q_dry_run q)) cs"
    unfolding new by (rule emits_new_calls [OF kubevirt.emits_Reconcile_replace])
  with cs show ?thesis
    by (intro exI [of _ cs] conjI each_at_mono [OF cs(2)] machine [OF machine_reconciled(1)]) (auto simp: list_all_iff new)
qed

lemma program_run_each:
  assumes "program_run E K p s s'"
    and "\<And>s s'. program_step E K p s s' \<Longrightarrow> \<exists>cs. history s' = history s @ cs \<and> each_at P (history s) cs"
  shows "\<exists>cs. history s' = history s @ cs \<and> each_at P (history s) cs"
  using assms(1)
proof induction
  case (started s)
  then show ?case by (intro exI [of _ "[]"]) simp
next
  case (continued s s' s'')
  from continued.IH obtain cs where cs: "history s' = history s @ cs" "each_at P (history s) cs" by blast
  from assms(2) [OF continued.hyps(2)] obtain ds where "history s'' = history s' @ ds" "each_at P (history s') ds" by blast
  with cs show ?case by (intro exI [of _ "cs @ ds"]) (simp add: each_at_append)
qed

lemma program_step_safe:
  assumes "program_step E K p s s'" and "optimistic E L" and "started_as p"
  shows "\<exists>cs. history s' = history s @ cs \<and> each_at (safe_call L K p) (history s) cs"
  by (rule program_step_each [OF assms(1,2)])
    (auto intro: safe_cluster_call [OF assms(2)] safe_machine_call [OF assms(2,3)])

lemma program_run_calls:
  assumes "program_run E K p s s'" and "optimistic E L" and "started_as p"
  shows "\<exists>cs. history s' = history s @ cs \<and> each_at (safe_call L K p) (history s) cs"
  by (rule program_run_each [OF assms(1)]) (rule program_step_safe [OF _ assms(2,3)])

lemma startup_started_as: "startup K parse op = Inr p \<Longrightarrow> started_as p"
  using startup_Inr(1,2) by (simp add: started_as_def)

section \<open>Properties\<close>

text \<open>C2: A running program is safe in every run. Started with any flags, whatever it is woken for and in whatever order its
  controllers reconcile, against a server that others write to as well: in a dry run it writes nothing at all; it deletes a
  Machine only when it was started to carry out requests, and what is deleted is at that very moment a Machine of a MachineSet,
  outside the control plane, that asks to be replaced, whose rules are in place and that is neither paused, opted out nor
  marked; it overwrites no change it has not seen, since every accepted patch with the lock meets the Machine it was made
  from and stores what was sent; and without the lock it only ever marks a Machine that no guard protects.\<close>

theorem program_run_safe:
  assumes "optimistic E L" and "startup K parse op = Inr p" and "program_run E K p s s'"
    and "history s' = history s @ pre @ c # post"
  shows "safe_call L K p (history s @ pre) c \<and> cf_dry_run (pr_cluster p) = op_dry_run op \<and> (pr_replace p \<noteq> None \<longleftrightarrow> op_quarantine op)"
proof -
  have "each_at (safe_call L K p) (history s) (pre @ c # post)"
    using program_run_calls [OF assms(3,1) startup_started_as [OF assms(2)]] assms(4) by auto
  from each_atD [OF this] show ?thesis using startup_Inr(1,4) [OF assms(2)] by simp
qed

text \<open>A withdrawn request, whose status is removed.\<close>

definition withdrawing_server :: env where
  "withdrawing_server = holding_machine withdrawn_machine vm_server"

lemma example_withdrawal:
  fixes s :: "(call, 'w) world_scheme"
  assumes "history s = []"
  shows
  "\<exists>pre m post. new_calls (Reconcile_replace withdrawing_server plain_kube replace_config_example (Devices withdrawing_server plain_kube) ''ns'' ''m'')
     s = pre @ PatchMachine withdrawn_machine (with_status withdrawn_machine []) True (Inr m) # post"
proof -
  let ?key = "(''ns'', ''m'')"
  have m: "machine_key withdrawn_machine = ?key" "machine_key (with_status withdrawn_machine []) = ?key"
    "\<not> deleting withdrawn_machine" "m_annotations withdrawn_machine ReplaceAnnotation = None"
    "m_annotations withdrawn_machine ReplaceStatusAnnotation = Some StatusQuarantining"
    "annotation withdrawn_machine ReplaceStatusAnnotation \<noteq> []"
    by (simp_all add: withdrawn_machine_def deleting_def example_machine_def annotation_def machine_key_def with_status_def
        ReplaceAnnotation_def ReplaceStatusAnnotation_def AnnotationPrefix_def StatusQuarantining_def)
  then have get: "get_machine withdrawing_server [] ''ns'' ''m'' = Inr withdrawn_machine"
    by (simp add: withdrawing_server_def holding_machine_def shelf_of_def)
  from m obtain u where "patch_machine withdrawing_server [GetMachine ''ns'' ''m'' (Inr withdrawn_machine)] withdrawn_machine
      (with_status withdrawn_machine []) True = Inr u"
    by (simp add: withdrawing_server_def holding_machine_def shelf_of_def)
  moreover have "\<not> q_dry_run replace_config_example" by (simp add: replace_config_example_def)
  ultimately have "new_calls (Reconcile_replace withdrawing_server plain_kube replace_config_example (Devices withdrawing_server plain_kube) ''ns'' ''m'')
     s = [GetMachine ''ns'' ''m'' (Inr withdrawn_machine)] @
       PatchMachine withdrawn_machine (with_status withdrawn_machine []) True (Inr u) # []"
    using m get assms by (simp add: new_calls_def Reconcile_replace_def replace_def setStatus_def patch_def Let_def)
  then show ?thesis by blast
qed

text \<open>A program started to carry out requests.\<close>

definition replacing_options :: options where
  "replacing_options = default_options\<lparr>op_dry_run := False, op_quarantine := True, op_drivers := ''gpu.nvidia.com''\<rparr>"

lemma replacing_program:
  "\<exists>p. startup plain_kube parse replacing_options = Inr p \<and> pr_replace p = Some replace_config_example"
proof -
  have name: "clean ''gpu.nvidia.com''" by (rule clean_printable; simp)
  have "read_table [] = Inr Default" by (simp add: read_table_def ParseOverrides_def New_def Default_def)
  moreover have "parseDrivers plain_kube ''gpu.nvidia.com'' = Inr {''gpu.nvidia.com''}"
    using name by (simp add: parseDrivers_def Let_def)
  ultimately show ?thesis
    by (simp add: startup_def replacing_options_def default_options_def read_selector_def read_drivers_def ParseRestartFallback_def
        machine_config_def replace_config_example_def)
qed

lemma withdrawing_run:
  "\<exists>p s' pre u post. startup plain_kube (\<lambda>_. Inl (Plain [])) replacing_options = Inr p \<and>
     program_run withdrawing_server plain_kube p fresh_reconciler s' \<and>
     history s' = pre @ PatchMachine withdrawn_machine (with_status withdrawn_machine []) True (Inr u) # post"
proof -
  obtain p where p: "startup plain_kube (\<lambda>_. Inl (Plain [])) replacing_options = Inr p" "pr_replace p = Some replace_config_example"
    using replacing_program by blast
  let ?prog = "Reconcile_replace withdrawing_server plain_kube replace_config_example (Devices withdrawing_server plain_kube) ''ns'' ''m''"
  have fresh: "history fresh_reconciler = []" by (simp add: fresh_reconciler_def)
  obtain r s' where run: "run_state ?prog fresh_reconciler = (r, s')" by fastforce
  obtain pre u post where "new_calls ?prog fresh_reconciler = pre @ PatchMachine withdrawn_machine (with_status withdrawn_machine []) True (Inr u) # post"
    using example_withdrawal [OF fresh] by blast
  then have "history s' = pre @ PatchMachine withdrawn_machine (with_status withdrawn_machine []) True (Inr u) # post"
    by (simp add: new_calls_def run fresh)
  moreover have "program_run withdrawing_server plain_kube p fresh_reconciler s'"
    by (rule program_run.continued [OF program_run.started program_step.machine_reconciled [OF p(2) run]])
  ultimately show ?thesis using p(1) by blast
qed

lemma withdrawing_optimistic: "optimistic withdrawing_server (ledger_of withdrawn_machine)"
  unfolding withdrawing_server_def by (rule holding_machine_optimistic)

lemma fresh_history [simp]: "history fresh_reconciler = []"
  by (simp add: fresh_reconciler_def)

theorem program_run_safe_witness:
  "\<exists>p s' pre u post. startup plain_kube (\<lambda>_. Inl (Plain [])) replacing_options = Inr p \<and>
     program_run withdrawing_server plain_kube p fresh_reconciler s' \<and>
     history s' = pre @ PatchMachine withdrawn_machine (with_status withdrawn_machine []) True (Inr u) # post \<and>
     stored (ledger_of withdrawn_machine) pre (machine_key withdrawn_machine) = Some withdrawn_machine"
proof -
  obtain p s' pre u post where p: "startup plain_kube (\<lambda>_. Inl (Plain [])) replacing_options = Inr p"
    and run: "program_run withdrawing_server plain_kube p fresh_reconciler s'"
    and calls: "history s' = pre @ PatchMachine withdrawn_machine (with_status withdrawn_machine []) True (Inr u) # post"
    using withdrawing_run by blast
  from program_run_safe [OF withdrawing_optimistic p run, of pre _ post] calls
  have "safe_call (ledger_of withdrawn_machine) plain_kube p pre (PatchMachine withdrawn_machine (with_status withdrawn_machine []) True (Inr u))"
    by (simp only: fresh_history append_Nil)
  then have "stored (ledger_of withdrawn_machine) pre (machine_key withdrawn_machine) = Some withdrawn_machine" by simp
  with p run calls show ?thesis by blast
qed

text \<open>The memory of the first controller, over a run of both: the second leaves it as it is.\<close>

lemma program_step_shape:
  assumes "program_step E K p s s'" and "names_clusters E" and "memory_shape s"
  shows "memory_shape s'"
  using assms(1)
proof cases
  case (cluster_reconciled key r)
  with memory.keepsD [OF keeps_Reconcile [OF assms(2)]] assms(3) show ?thesis by (auto simp: memory_step_def)
next
  case (machine_reconciled q ns name r)
  with Reconcile_replace_same_memory assms(3) show ?thesis by (auto simp: memory_shape_def same_memory_def)
qed

text \<open>C31: What a running program remembers keeps its form. Whatever it meets, in every run of both controllers from a fresh
  start, the maps have each key once, and no Cluster is left with an empty map of observations or an empty set of releases where
  the code drops them.\<close>

theorem program_run_memory:
  assumes "names_clusters E" and "program_run E K p s s'" and "memory_shape s"
  shows "memory_shape s'"
  using assms(2,3) by induction (auto intro: program_step_shape [OF _ assms(1)])

theorem program_run_memory_witness:
  "\<exists>s'. program_run quiet_env plain_kube \<lparr>pr_cluster = example_config, pr_replace = None, pr_logged = []\<rparr> fresh_reconciler s' \<and> memory_shape s'"
proof -
  let ?p = "\<lparr>pr_cluster = example_config, pr_replace = None, pr_logged = []\<rparr>"
  obtain r s' where "run_state (Reconcile quiet_env plain_kube (pr_cluster ?p) (''ns'', ''c'')) fresh_reconciler = (r, s')" by fastforce
  from program_run.continued [OF program_run.started program_step.cluster_reconciled [OF this]]
  have "program_run quiet_env plain_kube ?p fresh_reconciler s'" .
  with program_run_memory [OF quiet_env_names this fresh_shape] show ?thesis by blast
qed

end
