(* ===== verification/Settling.thy ===== *)
theory Settling
  imports Runs Marks
begin

text \<open>
  How much a running program can still write on account of a request, when nobody else writes the Machine: the request that
  is stored is a measure, which no call increases and every write of the request decreases, in whatever order the two
  controllers reconcile, and however stale what they read is.
\<close>

section \<open>A server nobody else writes to\<close>

text \<open>The calls that may change what is stored under a name.\<close>

fun changes :: "string \<times> string \<Rightarrow> call \<Rightarrow> bool" where
  "changes k (PatchMachine b _ _ (Inr _)) \<longleftrightarrow> machine_key b = k"
| "changes k (DeleteMachine m None) \<longleftrightarrow> machine_key m = k"
| "changes k _ \<longleftrightarrow> False"

text \<open>An accepted patch of the annotations of a version stores its answer, which keeps those it was not asked to change; what is deleted is gone, or
  waits to be.\<close>

definition alone :: "env \<Rightarrow> ledger \<Rightarrow> bool" where
  "alone E L \<longleftrightarrow> (\<forall>h.
     (\<forall>c k. \<not> changes k c \<longrightarrow> stored L (h @ [c]) k = stored L h k) \<and>
     (\<forall>b u lock m. b \<in> versions L h \<longrightarrow> u = b\<lparr>m_annotations := m_annotations u\<rparr> \<longrightarrow> patch_machine E h b u lock = Inr m \<longrightarrow>
        stored L (h @ [PatchMachine b u lock (Inr m)]) (machine_key b) = Some m \<and>
        (\<exists>old. stored L h (machine_key b) = Some old \<and> m_deletion_timestamp m = m_deletion_timestamp old \<and>
           (\<forall>a. m_annotations b a = m_annotations u a \<longrightarrow> m_annotations m a = m_annotations old a))) \<and>
     (\<forall>m c. delete_machine E h m = None \<longrightarrow> stored L (h @ [DeleteMachine m None]) (machine_key m) = Some c \<longrightarrow> deleting c))"

section \<open>What is left to do\<close>

definition left_to_write :: "machine option \<Rightarrow> nat" where
  "left_to_write x = (case x of None \<Rightarrow> 0 | Some m \<Rightarrow> if deleting m then 0 else writes_left (request_state m))"

text \<open>The accepted writes that are made on account of a request: of its state, and the deletion.\<close>

fun request_write :: "string \<times> string \<Rightarrow> call \<Rightarrow> bool" where
  "request_write k (PatchMachine b u _ (Inr _)) \<longleftrightarrow> machine_key b = k \<and> request_state u \<noteq> request_state b"
| "request_write k (DeleteMachine m None) \<longleftrightarrow> machine_key m = k"
| "request_write k _ \<longleftrightarrow> False"

lemma request_write_changes: "request_write k c \<Longrightarrow> changes k c"
  by (cases "(k, c)" rule: request_write.cases) auto

definition uses_up :: "ledger \<Rightarrow> string \<times> string \<Rightarrow> call list \<Rightarrow> call \<Rightarrow> bool" where
  "uses_up L k h c \<longleftrightarrow> (if request_write k c then 1 else 0) + left_to_write (stored L (h @ [c]) k) \<le> left_to_write (stored L h k)"

lemma each_uses_up:
  "each_at (uses_up L k) h cs \<Longrightarrow> length (filter (request_write k) cs) + left_to_write (stored L (h @ cs) k) \<le> left_to_write (stored L h k)"
proof (induction cs arbitrary: h)
  case (Cons c cs)
  from Cons.prems have "uses_up L k h c" "each_at (uses_up L k) (h @ [c]) cs" by simp_all
  from Cons.IH [OF this(2)] this(1) show ?case by (simp add: uses_up_def split: if_splits)
qed simp

lemma unchanged_uses_up: "alone E L \<Longrightarrow> \<not> changes k c \<Longrightarrow> uses_up L k h c"
proof -
  assume "alone E L" and c: "\<not> changes k c"
  then have "stored L (h @ [c]) k = stored L h k" unfolding alone_def by blast
  moreover have "\<not> request_write k c" using c request_write_changes by blast
  ultimately show ?thesis by (simp add: uses_up_def)
qed

lemma alone_patch:
  assumes "alone E L" and "b \<in> versions L h" and "u = b\<lparr>m_annotations := m_annotations u\<rparr>" and "patch_machine E h b u lock = Inr m"
  obtains old where "stored L h (machine_key b) = Some old" "stored L (h @ [PatchMachine b u lock (Inr m)]) (machine_key b) = Some m"
    "m_deletion_timestamp m = m_deletion_timestamp old"
    "\<And>a. m_annotations b a = m_annotations u a \<Longrightarrow> m_annotations m a = m_annotations old a"
  using assms unfolding alone_def by blast

lemma alone_delete:
  "alone E L \<Longrightarrow> delete_machine E h m = None \<Longrightarrow> stored L (h @ [DeleteMachine m None]) (machine_key m) = Some c \<Longrightarrow> deleting c"
  unfolding alone_def by blast

section \<open>The first controller\<close>

lemma request_state_by_keys:
  "m_annotations m ReplaceAnnotation = m_annotations m' ReplaceAnnotation \<Longrightarrow>
   m_annotations m ReplaceStatusAnnotation = m_annotations m' ReplaceStatusAnnotation \<Longrightarrow> request_state m = request_state m'"
  by (simp add: request_state_def annotation_def)

lemma cluster_call_uses_up:
  assumes "alone E L" and "moves_mark c" and "from_version E L h c"
  shows "uses_up L k h c"
proof (cases "changes k c")
  case True
  with assms(2) obtain b u lock m where c: "c = PatchMachine b u lock (Inr m)" and key: "machine_key b = k"
    by (cases "(k, c)" rule: changes.cases) auto
  have frame: "u = b\<lparr>m_annotations := m_annotations u\<rparr>" and other: "m_annotations b a = m_annotations u a" if "a \<notin> set mark_annotations" for a
    using assms(2) that by (auto simp: c)
  note apart = other [OF request_keys_not_marks(1)] other [OF request_keys_not_marks(2)]
  have "patch_machine E h b u lock = Inr m" "b \<in> versions L h" using assms(3) by (simp_all add: c)
  from alone_patch [OF assms(1) this(2) frame [OF request_keys_not_marks(1)] this(1)] obtain old
    where old: "stored L h k = Some old" "stored L (h @ [c]) k = Some m" "m_deletion_timestamp m = m_deletion_timestamp old"
    "\<And>a. m_annotations b a = m_annotations u a \<Longrightarrow> m_annotations m a = m_annotations old a"
    unfolding c key by blast
  have "request_state m = request_state old" by (rule request_state_by_keys) (simp_all add: old(4) apart)
  moreover have "request_state u = request_state b" by (rule request_state_by_keys) (simp_all add: apart)
  ultimately show ?thesis using old(1-3) by (simp add: uses_up_def left_to_write_def deleting_def c)
qed (rule unchanged_uses_up [OF assms(1)])

section \<open>The second controller\<close>

lemma machine_run_patch:
  "machine_run m cs x \<Longrightarrow> PatchMachine b u lock (Inr m') \<in> set cs \<Longrightarrow> lock \<and> replace_step (request_state b) (request_state m')"
  by (induction rule: machine_run.induct) (auto simp: list_all_iff)

lemma Reconcile_replace_patch:
  assumes "documented_patch E" and "PatchMachine b u lock (Inr m) \<in> set (new_calls (Reconcile_replace E K cfg (Devices E K) ns name) s)"
  shows "replace_step (request_state b) (request_state m)"
proof -
  let ?cs = "new_calls (Reconcile_replace E K cfg (Devices E K) ns name) s"
  from reconciled_new_calls [OF assms(1), of K cfg ns name s] obtain c rest where cs: "?cs = c # rest"
    and rec: "case reads_machine ns name c of None \<Rightarrow> rest = [] \<and> \<not> machine_write c | Some m \<Rightarrow> replaced K cfg m rest"
    by (auto simp: reconciled_def split: list.splits)
  show ?thesis
  proof (cases "reads_machine ns name c")
    case None
    with rec assms(2) show ?thesis by (auto simp: cs)
  next
    case (Some m0)
    with rec obtain x where run: "machine_run m0 rest x" by (auto simp: replaced_def)
    have "PatchMachine b u lock (Inr m) \<in> set rest" using assms(2) reads_machine_SomeD [OF Some] by (simp add: cs)
    with machine_run_patch [OF run] show ?thesis by blast
  qed
qed

lemma machine_call_uses_up:
  assumes "optimistic E L" and "alone E L" and "deletes_evaluated E L K key n h c"
    and "replace_call K dry c" and "\<And>b u lock m. c = PatchMachine b u lock (Inr m) \<Longrightarrow> replace_step (request_state b) (request_state m)"
  shows "uses_up L k h c"
proof (cases "(k, c)" rule: changes.cases)
  case (1 k' b u lock m)
  then have c: "c = PatchMachine b u lock (Inr m)" by simp
  show ?thesis
  proof (cases "machine_key b = k")
    case True
    from assms(3,4) obtain status where u: "u = with_status b status" and lock: lock and b: "\<not> deleting b" "b \<in> versions L h"
      and patch: "patch_machine E h b u True = Inr m" by (auto simp: c)
    have stored: "stored L h k = Some b" using locked_patch_stored [OF assms(1) patch b(2)] True by simp
    have frame: "u = b\<lparr>m_annotations := m_annotations u\<rparr>" by (simp add: u with_status_def)
    from alone_patch [OF assms(2) b(2) frame patch] have after: "stored L (h @ [c]) k = Some m" "m_deletion_timestamp m = m_deletion_timestamp b"
      using stored lock True unfolding c by auto
    have "writes_left (request_state m) < writes_left (request_state b)" by (rule writes_left_step) (rule assms(5) [OF c])
    then show ?thesis using stored after b by (simp add: uses_up_def left_to_write_def deleting_def c)
  qed (use unchanged_uses_up [OF assms(2)] c in simp)
next
  case (2 k' m)
  then have c: "c = DeleteMachine m None" by simp
  show ?thesis
  proof (cases "machine_key m = k")
    case True
    have "stored L h k = Some m" using accepted_delete_current [OF assms(1), of h m] assms(3) True by (simp add: c)
    moreover have "\<not> deleting m" "request_state m = Replacing" using assms(3) by (auto simp: c evaluated_def)
    moreover have "deleting x" if "stored L (h @ [c]) k = Some x" for x
      using alone_delete [OF assms(2), of h m x] assms(3) that True by (simp add: c)
    ultimately show ?thesis by (simp add: uses_up_def left_to_write_def c split: option.split)
  qed (use unchanged_uses_up [OF assms(2)] c in simp)
qed (auto intro!: unchanged_uses_up [OF assms(2)])

section \<open>Runs\<close>

lemma program_step_uses_up:
  assumes "program_step E K p s s'" and "optimistic E L" and "alone E L" and "documented_patch E"
  shows "\<exists>cs. history s' = history s @ cs \<and> each_at (uses_up L k) (history s) cs"
proof (rule program_step_each [OF assms(1,2)])
  fix h c assume "cautious K (cf_dry_run (pr_cluster p)) c" and "from_version E L h c"
  then show "uses_up L k h c" using cluster_call_uses_up [OF assms(3) cautious_moves] by blast
next
  fix h c q ns name
  assume c: "c \<in> set (new_calls (Reconcile_replace E K q (Devices E K) ns name) s)" and call: "replace_call K (q_dry_run q) c"
    and at: "deletes_evaluated E L K (ns, name) (length (history s)) h c"
  show "uses_up L k h c"
  proof (rule machine_call_uses_up [OF assms(2,3) at call])
    show "replace_step (request_state b) (request_state m)" if "c = PatchMachine b u lock (Inr m)" for b u lock m
      using Reconcile_replace_patch [OF assms(4)] c that by blast
  qed
qed

lemma program_run_uses_up:
  assumes "program_run E K p s s'" and "optimistic E L" and "alone E L" and "documented_patch E"
  shows "\<exists>cs. history s' = history s @ cs \<and> each_at (uses_up L k) (history s) cs"
  by (rule program_run_each [OF assms(1)]) (rule program_step_uses_up [OF _ assms(2-4)])

section \<open>Properties\<close>

text \<open>C23: Every request comes to rest, over whole runs. As long as nobody but the program writes a Machine, its two controllers together
  write it on account of a request no more often than the request that is stored allows, three times at most, and then leave it as
  it is: however often and in whatever order they reconcile, however old what they read is, and whichever calls fail. Marks may come and go
  meanwhile without using any of it up.\<close>

theorem program_run_settles:
  assumes "optimistic E L" and "alone E L" and "documented_patch E"
    and "program_run E K p s s'" and "history s' = history s @ cs"
  shows "length (filter (request_write k) cs) + left_to_write (stored L (history s') k) \<le> left_to_write (stored L (history s) k) \<and>
    left_to_write (stored L (history s) k) \<le> 3"
proof -
  have "each_at (uses_up L k) (history s) cs"
    using program_run_uses_up [OF assms(4,1-3), of k] assms(5) by auto
  moreover have "left_to_write x \<le> 3" for x
  proof -
    have "writes_left r \<le> 3" for r by (cases r) auto
    then show ?thesis by (simp add: left_to_write_def split: option.split)
  qed
  ultimately show ?thesis using each_uses_up [of L k "history s" cs] assms(5) by simp
qed

text \<open>The example server is such a one.\<close>

lemma shelf_patch_cases:
  assumes "shelf_patch sh b u lock = Inr r"
  obtains old where "sh_current sh (machine_key b) = Some old" "machine_key u = machine_key b"
    "r = (if lock then u else taken_up old b u)\<lparr>m_resource_version := version_text (Suc (sh_count sh))\<rparr>"
  using assms by (auto split: option.splits if_splits)

lemma holding_machine_documented: "documented_patch (holding_machine m E)"
proof -
  have "(\<forall>k. m_annotations b k \<noteq> m_annotations u k \<longrightarrow> m_annotations r k = m_annotations u k) \<and>
      (lock \<longrightarrow> m_annotations r = m_annotations u) \<and> machine_key r = machine_key u"
    if patch: "shelf_patch (shelf_of m h) b u lock = Inr r" for h b u lock r
  proof -
    from patch obtain old where r: "sh_current (shelf_of m h) (machine_key b) = Some old" "machine_key u = machine_key b"
      "r = (if lock then u else taken_up old b u)\<lparr>m_resource_version := version_text (Suc (sh_count (shelf_of m h)))\<rparr>"
      by (rule shelf_patch_cases)
    with shelf_current [OF r(1)] show ?thesis by (cases lock) (simp_all add: taken_up_def machine_key_def)
  qed
  then show ?thesis by (simp add: documented_patch_def holding_machine_def machine_key_def del: shelf_patch.simps)
qed

lemma shelf_step_other: "\<not> changes k c \<Longrightarrow> shelf_ok sh \<Longrightarrow> sh_current (shelf_step sh c) k = sh_current sh k"
  using shelf_patch_Inr [of sh] by (cases "(sh, c)" rule: shelf_step.cases) (auto simp del: shelf_patch.simps shelf_delete.simps)

lemma holding_machine_alone: "alone (holding_machine m E) (ledger_of m)"
  unfolding alone_def
proof (intro allI conjI impI)
  fix h c k assume "\<not> changes k c"
  then show "stored (ledger_of m) (h @ [c]) k = stored (ledger_of m) h k"
    using shelf_step_other [OF _ shelf_of_ok] by (simp add: ledger_of_def)
next
  fix h d c assume "delete_machine (holding_machine m E) h d = None"
    and "stored (ledger_of m) (h @ [DeleteMachine d None]) (machine_key d) = Some c"
  then show "deleting c" by (simp add: ledger_of_def holding_machine_def del: shelf_delete.simps)
next
  fix h b u lock r
  assume b: "b \<in> versions (ledger_of m) h" and u: "u = b\<lparr>m_annotations := m_annotations u\<rparr>"
    and "patch_machine (holding_machine m E) h b u lock = Inr r"
  then have patch: "shelf_patch (shelf_of m h) b u lock = Inr r" by (simp add: holding_machine_def del: shelf_patch.simps)
  note key = shelf_patch_Inr [OF shelf_of_ok patch]
  show "stored (ledger_of m) (h @ [PatchMachine b u lock (Inr r)]) (machine_key b) = Some r"
    using patch key by (simp add: ledger_of_def del: shelf_patch.simps)
  from patch obtain old where old: "sh_current (shelf_of m h) (machine_key b) = Some old" and
    r: "r = (if lock then u else taken_up old b u)\<lparr>m_resource_version := version_text (Suc (sh_count (shelf_of m h)))\<rparr>"
    by (rule shelf_patch_cases)
  have "old = b" if lock
  proof -
    have "still_current (ledger_of m) h b" using that key by (simp add: still_current_def ledger_of_def)
    with still_current_version [OF _ b] holding_machine_optimistic [of m E]
    have "stored (ledger_of m) h (machine_key b) = Some b" by (simp add: optimistic_def)
    with old show ?thesis by (simp add: ledger_of_def)
  qed
  moreover have "m_deletion_timestamp b = m_deletion_timestamp u" using arg_cong [OF u, of m_deletion_timestamp] by simp
  ultimately show "\<exists>old. stored (ledger_of m) h (machine_key b) = Some old \<and> m_deletion_timestamp r = m_deletion_timestamp old \<and>
      (\<forall>a. m_annotations b a = m_annotations u a \<longrightarrow> m_annotations r a = m_annotations old a)"
    using old by (cases lock) (simp_all add: ledger_of_def r taken_up_def)
qed

theorem program_run_settles_witness:
  "\<exists>p s'. program_run withdrawing_server plain_kube p fresh_reconciler s' \<and>
     length (filter (request_write (''ns'', ''m'')) (history s')) + left_to_write (stored (ledger_of withdrawn_machine) (history s') (''ns'', ''m'')) \<le> 1 \<and>
     list_ex (request_write (''ns'', ''m'')) (history s')"
proof -
  obtain p s' pre u post where run: "program_run withdrawing_server plain_kube p fresh_reconciler s'"
    and calls: "history s' = pre @ PatchMachine withdrawn_machine (with_status withdrawn_machine []) True (Inr u) # post"
    using withdrawing_run by blast
  have m: "machine_key withdrawn_machine = (''ns'', ''m'')" "request_state withdrawn_machine = Withdrawn"
    "request_state (with_status withdrawn_machine []) = Idle"
    by (simp_all add: withdrawn_machine_def example_machine_def machine_key_def request_state_def annotation_def with_status_def
        ReplaceAnnotation_def ReplaceStatusAnnotation_def AnnotationPrefix_def StatusQuarantining_def)
  have here: "alone withdrawing_server (ledger_of withdrawn_machine)" "documented_patch withdrawing_server"
    unfolding withdrawing_server_def by (rule holding_machine_alone holding_machine_documented)+
  have "left_to_write (stored (ledger_of withdrawn_machine) [] (''ns'', ''m'')) \<le> 1"
    using m by (simp add: ledger_of_def left_to_write_def)
  moreover have "length (filter (request_write (''ns'', ''m'')) (history s')) +
      left_to_write (stored (ledger_of withdrawn_machine) (history s') (''ns'', ''m'')) \<le> left_to_write (stored (ledger_of withdrawn_machine) [] (''ns'', ''m''))"
    using program_run_settles [OF withdrawing_optimistic here run, of "history s'" "(''ns'', ''m'')"] by simp
  moreover have "list_ex (request_write (''ns'', ''m'')) (history s')" using m by (simp add: calls)
  ultimately show ?thesis using run by (intro exI [of _ p] exI [of _ s']) simp
qed

end
