(* ===== verification/Acting.thy ===== *)
theory Acting
  imports Registration
begin

text \<open>
  That a whole reconcile of the cluster controller (\<open>internal/controller/cluster_controller.go\<close>) does what it is
  for: from a fault the workload cluster shows to the mark on the Machine, through every step in between. Theory Handle has
  it for one signal; here the signals before it in the same pass, the reads and the mode are put together.
\<close>

section \<open>The signals before\<close>

text \<open>A signal that is only reported leaves the Machine in the map as it was read, also when it is answered; one of another
  node does not touch it.\<close>

lemma yields_handle_reported:
  assumes "o_decision (decide_in mode (cf_table cfg) sig) = Report"
  shows "yields (\<lambda>(obs, machine'). machine' = machine \<and> \<not> an_complete (ob_answer obs))
    (handle E K cfg cluster mode checks sig machine node previous)"
  unfolding handle_def Let_def
  by (intro yields_rules) (use assms in \<open>auto simp: decline_def zero_answer_def zero_observation_def\<close>)

lemma yields_answer_incomplete:
  "\<not> an_complete a \<Longrightarrow> yields (\<lambda>machine'. machine' = machine) (answer_request E K cfg cluster machine sig a news)"
  unfolding answer_request_def after_answer_def by (intro yields_rules) auto

lemma yields_conclude_other:
  assumes "s_node sig \<noteq> n \<or> o_decision (decide_in mode (cf_table cfg) sig) = Report" and "map_of (ps_machines ps) n = Some m"
  shows "yields (\<lambda>ps'. map_of (ps_machines ps') n = Some m) (conclude E K cfg cluster mode checks nodes previous sig ps)"
proof (cases "s_node sig = n")
  case True
  let ?same = "\<lambda>machine'. machine' = map_of (ps_machines ps) (s_node sig)"
  have "yields (\<lambda>ps'. map_of (ps_machines ps') n = Some m)
      (do {
         machine \<leftarrow> (if given (ob_answer obs)
           then answer_request E K cfg cluster machine sig (ob_answer obs) news else State_Monad.return machine);
         State_Monad.return (ps\<lparr>
           ps_machines := (case machine of None \<Rightarrow> ps_machines ps | Some m \<Rightarrow> AList.update (s_node sig) m (ps_machines ps)),
           ps_current := AList.update (Key sig) obs (ps_current ps)\<rparr>)
       })" if "?same machine" "\<not> an_complete (ob_answer obs)" for machine obs news
  proof (rule yields_bind_run)
    fix machine' s s'
    assume "run_state (if given (ob_answer obs) then answer_request E K cfg cluster machine sig (ob_answer obs) news
      else State_Monad.return machine) s = (machine', s')"
    then have "?same machine'"
      using that yieldsD [OF yields_answer_incomplete] by (auto split: if_splits)
    then show "yields (\<lambda>ps'. map_of (ps_machines ps') n = Some m) (State_Monad.return (ps\<lparr>
        ps_machines := (case machine' of None \<Rightarrow> ps_machines ps | Some m \<Rightarrow> AList.update (s_node sig) m (ps_machines ps)),
        ps_current := AList.update (Key sig) obs (ps_current ps)\<rparr>))"
      using assms(2) True by (intro yields_return) (auto simp: update_conv')
  qed
  note rest = this
  show ?thesis
    unfolding conclude_def
  proof (rule yields_bind_run, rule yields_case_prod)
    fix r s s' obs machine
    assume run: "run_state (handle E K cfg cluster mode checks sig (map_of (ps_machines ps) (s_node sig)) (map_of nodes (s_node sig))
      (observed previous (Key sig))) s = (r, s')" and r: "r = (obs, machine)"
    have "?same machine \<and> \<not> an_complete (ob_answer obs)"
      using yieldsD [OF yields_handle_reported run] True assms(1) by (simp add: r)
    then show "yields (\<lambda>ps'. map_of (ps_machines ps') n = Some m)
      (do {
         machine \<leftarrow> (if given (ob_answer obs)
           then answer_request E K cfg cluster machine sig (ob_answer obs) (obs \<noteq> observed previous (Key sig)) else State_Monad.return machine);
         State_Monad.return (ps\<lparr>
           ps_machines := (case machine of None \<Rightarrow> ps_machines ps | Some m \<Rightarrow> AList.update (s_node sig) m (ps_machines ps)),
           ps_current := AList.update (Key sig) obs (ps_current ps)\<rparr>)
       })" using rest by blast
  qed
next
  case False
  then show ?thesis
    unfolding conclude_def using assms(2) by (intro yields_rules) (auto simp: update_conv' split: option.split)
qed

lemma yields_handle_signal_other:
  assumes "s_node sig \<noteq> n \<or> o_decision (decide_in mode (cf_table cfg) sig) = Report" and "map_of (ps_machines ps) n = Some m"
  shows "yields (\<lambda>ps'. map_of (ps_machines ps') n = Some m) (handle_signal E K cfg cluster mode checks nodes previous sig ps)"
  unfolding handle_signal_def by (intro yields_rules yields_conclude_other [OF assms(1)]) (use assms(2) in auto)

text \<open>Reading is not patching.\<close>

lemma read_calls_not_patches [simp]:
  "\<not> patches_machine (ListNodes a)" "\<not> patches_machine (ListRequests b)" "\<not> patches_machine (ListMachines k c)"
  "\<not> patches_machine (ListChecks ns d)" "\<not> patches_machine (ConnectUncached k e)" "\<not> patches_machine (GetCluster k f)"
  "\<not> patches_machine (ConnectWorkload k e)" "\<not> patches_machine (LookUpWorkload gk ver e)" "\<not> patches_machine (WatchRequests k e)" "\<not> patches_machine (GetRequest ns q)"
  by (simp_all add: patches_machine_def)

section \<open>A signal in a pass\<close>

text \<open>When a decision can be carried out on the Machine it is about.\<close>

definition can_mark :: "kube \<Rightarrow> health_check list \<Rightarrow> machine \<Rightarrow> decision \<Rightarrow> bool" where
  "can_mark K checks m d \<longleftrightarrow> Guard m = NoSkip \<and>
     (d = Replace \<and> Covered (CoverageOf K checks m) \<or>
      d = Restart \<and> TemplatesOnly (CoverageOf K checks m) \<and> \<not> EarlierMarkPending K m)"

definition asked_action :: "decision \<Rightarrow> string" where
  "asked_action d = (if d = Restart then ActionRestart else ActionRemediate)"

lemma conclude_marks:
  assumes "\<not> cf_dry_run cfg" and "can_mark K checks m (o_decision (decide_in mode (cf_table cfg) sig))"
    and "map_of (ps_machines ps) (s_node sig) = Some m" and "map_of nodes (s_node sig) \<noteq> None \<or> s_request sig = []"
    and "run_state (conclude E K cfg cluster mode checks nodes previous sig ps) s = (ps', s')"
  shows "\<exists>u r cs. history s' = history s @ PatchMachine m u False r # cs \<and> list_all (\<lambda>c. \<not> marks_machine c) cs \<and>
    MarkedAction u = Some (asked_action (o_decision (decide_in mode (cf_table cfg) sig)))"
proof -
  obtain obs machine s1 where h: "run_state (handle E K cfg cluster mode checks sig (Some m) (map_of nodes (s_node sig))
      (observed previous (Key sig))) s = ((obs, machine), s1)" by (metis prod.exhaust)
  obtain u r cs where first: "history s1 = history s @ PatchMachine m u False r # cs" "list_all (\<lambda>c. \<not> patches_machine c) cs"
    "MarkedAction u = Some (asked_action (o_decision (decide_in mode (cf_table cfg) sig)))"
    using handle_marks_run [OF assms(1) _ assms(4) _ refl h] assms(2) unfolding can_mark_def asked_action_def by auto
  let ?rest = "do {
     machine \<leftarrow> (if given (ob_answer obs)
       then answer_request E K cfg cluster machine sig (ob_answer obs) (obs \<noteq> observed previous (Key sig))
       else State_Monad.return machine);
     State_Monad.return (ps\<lparr>
       ps_machines := (case machine of None \<Rightarrow> ps_machines ps | Some m \<Rightarrow> AList.update (s_node sig) m (ps_machines ps)),
       ps_current := AList.update (Key sig) obs (ps_current ps)\<rparr>)
   }"
  have "emits (\<lambda>c. \<not> marks_machine c) ?rest" by (intro emits_rules emits_answer_request) (auto simp: marks_machine_def)
  moreover have "run_state ?rest s1 = (ps', s')" using assms(3,5) h by (simp add: conclude_def)
  ultimately have "\<exists>ds. history s' = history s1 @ ds \<and> list_all (\<lambda>c. \<not> marks_machine c) ds" by (rule run_emits)
  then obtain ds where "history s' = history s1 @ ds" "list_all (\<lambda>c. \<not> marks_machine c) ds" by blast
  moreover have "list_all (\<lambda>c. \<not> marks_machine c) cs" using first(2) by (auto simp: list_all_iff marks_machine_def patches_machine_def)
  ultimately show ?thesis using first by (intro exI [of _ u] exI [of _ r] exI [of _ "cs @ ds"]) simp
qed

text \<open>What a request says when it is read again.\<close>

definition still_pending :: "env \<Rightarrow> kube \<Rightarrow> signal \<Rightarrow> bool" where
  "still_pending E K sig \<longleftrightarrow>
     (s_request sig \<noteq> [] \<longrightarrow> (\<forall>h. \<exists>obj. get_request E h (s_request sig) = Inr obj \<and> Pending K obj))"

lemma handle_signal_marks:
  assumes "\<not> cf_dry_run cfg" and "can_mark K checks m (o_decision (decide_in mode (cf_table cfg) sig))"
    and "map_of (ps_machines ps) (s_node sig) = Some m" and "map_of nodes (s_node sig) \<noteq> None \<or> s_request sig = []"
    and "still_pending E K sig"
    and "run_state (handle_signal E K cfg cluster mode checks nodes previous sig ps) s = (ps', s')"
  shows "\<exists>pre u r post. history s' = history s @ pre @ PatchMachine m u False r # post \<and>
    list_all (\<lambda>c. \<not> patches_machine c) pre \<and> list_all (\<lambda>c. \<not> marks_machine c) post \<and>
    MarkedAction u = Some (asked_action (o_decision (decide_in mode (cf_table cfg) sig)))"
proof (cases "s_request sig = []")
  case True
  then have "run_state (conclude E K cfg cluster mode checks nodes previous sig ps) s = (ps', s')"
    using assms(6) by (simp add: handle_signal_def)
  from conclude_marks [OF assms(1-4) this] obtain u r cs where "history s' = history s @ [] @ PatchMachine m u False r # cs"
    "list_all (\<lambda>c. \<not> patches_machine c) [] \<and> list_all (\<lambda>c. \<not> marks_machine c) cs" "MarkedAction u = Some (asked_action (o_decision (decide_in mode (cf_table cfg) sig)))" by auto
  then show ?thesis by blast
next
  case False
  then obtain obj where obj: "get_request E (history s) (s_request sig) = Inr obj" "Pending K obj"
    using assms(5) unfolding still_pending_def by blast
  let ?ps = "ps\<lparr>ps_asking := append_new (s_request sig) (ps_asking ps)\<rparr>"
  and ?s = "s\<lparr>history := history s @ [GetRequest (s_request sig) (Inr obj)]\<rparr>"
  have "run_state (conclude E K cfg cluster mode checks nodes previous sig ?ps) ?s = (ps', s')"
    using assms(6) obj False by (simp add: handle_signal_def IsPending_def)
  moreover have "map_of (ps_machines ?ps) (s_node sig) = Some m" using assms(3) by simp
  ultimately obtain u r cs where "history s' = history ?s @ PatchMachine m u False r # cs"
    "list_all (\<lambda>c. \<not> marks_machine c) cs" "MarkedAction u = Some (asked_action (o_decision (decide_in mode (cf_table cfg) sig)))"
    using conclude_marks [OF assms(1,2) _ assms(4), of ?ps E cluster previous ?s] by blast
  then show ?thesis by (intro exI [of _ "[GetRequest (s_request sig) (Inr obj)]"] exI [of _ u] exI [of _ r] exI [of _ cs]) simp
qed

lemma act_marks_signal:
  assumes "\<not> cf_dry_run cfg" and "can_mark K checks m (o_decision (decide_in mode (cf_table cfg) sig))"
    and "map_of machines (s_node sig) = Some m" and "map_of nodes (s_node sig) \<noteq> None \<or> s_request sig = []"
    and "still_pending E K sig"
    and "\<And>x. x \<in> set before \<Longrightarrow> s_node x = s_node sig \<Longrightarrow> o_decision (decide_in mode (cf_table cfg) x) = Report"
  shows "\<exists>cs u r ds. history (snd (run_state (act E K cfg key cluster mode (before @ sig # after) machines checks nodes) s)) =
      history s @ cs @ PatchMachine m u False r # ds \<and>
    (before = [] \<and> after = [] \<longrightarrow> list_all (\<lambda>c. \<not> patches_machine c) cs \<and> list_all (\<lambda>c. \<not> marks_machine c) ds) \<and>
    MarkedAction u = Some (asked_action (o_decision (decide_in mode (cf_table cfg) sig)))"
proof -
  let ?body = "handle_signal E K cfg cluster mode checks nodes (remembered (seen s) key)"
  let ?ps = "\<lparr>ps_machines = machines, ps_current = [], ps_asking = [], ps_unreadable = False\<rparr>"
  have any: "emits (\<lambda>_. True) (?body x ps)" for x ps
    by (rule emits_any [OF permitted_handle_signal [of x "[x]"]]) simp
  obtain ps1 s1 where r1: "run_state (loop ?body before ?ps) s = (ps1, s1)" by fastforce
  have here: "map_of (ps_machines ps1) (s_node sig) = Some m"
    by (rule yieldsD [OF yields_loop [OF yields_handle_signal_other] r1]) (use assms(3,6) in auto)
  obtain ps2 s2 where r2: "run_state (?body sig ps1) s1 = (ps2, s2)" by fastforce
  obtain ps3 s3 where r3: "run_state (loop ?body after ps2) s2 = (ps3, s3)" by fastforce
  obtain c1 c3 where ext: "history s1 = history s @ c1" "history s3 = history s2 @ c3"
    using run_emits [OF emits_loop [OF any] r1] run_emits [OF emits_loop [OF any] r3] by blast
  from handle_signal_marks [OF assms(1,2) here assms(4,5) r2] obtain pre u r post where
    mark: "history s2 = history s1 @ pre @ PatchMachine m u False r # post" "list_all (\<lambda>c. \<not> patches_machine c) pre" "list_all (\<lambda>c. \<not> marks_machine c) post"
    "MarkedAction u = Some (asked_action (o_decision (decide_in mode (cf_table cfg) sig)))" by blast
  have "run_state (loop ?body (before @ sig # after) ?ps) s = (ps3, s3)" using r1 r2 r3 by (simp add: run_loop_append)
  from act_extends [OF this] obtain c4 where
    "history (snd (run_state (act E K cfg key cluster mode (before @ sig # after) machines checks nodes) s)) = history s3 @ c4"
    "list_all (\<lambda>c. \<not> marks_machine c) c4" by blast
  moreover have "c1 = []" if "before = []" using r1 ext(1) that by auto
  moreover have "c3 = []" if "after = []" using r3 ext(2) that by auto
  ultimately show ?thesis using ext mark
    by (intro exI [of _ "c1 @ pre"] exI [of _ u] exI [of _ r] exI [of _ "post @ c3 @ c4"]) auto
qed

section \<open>What a reconcile reads\<close>

text \<open>What the clusters show of a Cluster, and that this is what the reads answer. The mode follows from the resources served, and
  the signals are those of its source.\<close>

record view =
  vw_cluster :: cluster
  vw_mode :: mode
  vw_signals :: "signal list"
  vw_machines :: "machine list"
  vw_checks :: "health_check list"
  vw_nodes :: "node list"

definition own_checks :: "view \<Rightarrow> health_check list" where
  "own_checks v = filter (\<lambda>mhc. h_cluster mhc = c_name (vw_cluster v)) (vw_checks v)"

definition not_served :: "env \<Rightarrow> call list \<Rightarrow> string \<times> string \<times> string \<Rightarrow> bool" where
  "not_served E h gvk \<longleftrightarrow> (\<exists>e. look_up_workload E h (group_kind_of gvk) (version_of gvk) = Some e \<and> kind_of e = NoMatch)"

definition in_mode :: "env \<Rightarrow> mode \<Rightarrow> call list \<Rightarrow> bool" where
  "in_mode E mode h \<longleftrightarrow>
     (mode = ModeExternalRemediationRequest \<and> look_up_workload E h (group_kind_of GroupVersionKind) (version_of GroupVersionKind) = None) \<or>
     (mode = ModeNodeCondition \<and> not_served E h GroupVersionKind \<and> not_served E h janitorGroupVersionKind)"

definition shown :: "env \<Rightarrow> kube \<Rightarrow> cluster_key \<Rightarrow> view \<Rightarrow> call list \<Rightarrow> bool" where
  "shown E K key v h \<longleftrightarrow>
     get_cluster E h key = Inr (vw_cluster v) \<and> connect_workload E h key = None \<and> connect_uncached E h key = None \<and>
     in_mode E (vw_mode v) h \<and> list_nodes E h = Inr (vw_nodes v) \<and>
     (if vw_mode v = ModeExternalRemediationRequest then map_sum id (request_signals K) (list_requests E h) = Inr (vw_signals v)
      else vw_signals v = condition_signals (vw_nodes v)) \<and>
     list_machines E h (cluster_key (vw_cluster v)) = Inr (vw_machines v) \<and>
     list_health_checks E h (c_namespace (vw_cluster v)) = Inr (vw_checks v)"

text \<open>It stays so until the reconcile patches a Machine.\<close>

definition shown_from :: "env \<Rightarrow> kube \<Rightarrow> cluster_key \<Rightarrow> view \<Rightarrow> call list \<Rightarrow> bool" where
  "shown_from E K key v h \<longleftrightarrow> (\<forall>cs. list_all (\<lambda>c. \<not> patches_machine c) cs \<longrightarrow> shown E K key v (h @ cs))"

lemma shown_fromD: "shown_from E K key v h \<Longrightarrow> shown E K key v h"
  unfolding shown_from_def by (drule spec [of _ "[]"]) simp

lemma shown_from_append: "shown_from E K key v h \<Longrightarrow> list_all (\<lambda>c. \<not> patches_machine c) cs \<Longrightarrow> shown_from E K key v (h @ cs)"
  unfolding shown_from_def by (metis append.assoc list_all_append)

lemma shown_from_snoc: "shown_from E K key v h \<Longrightarrow> \<not> patches_machine c \<Longrightarrow> shown_from E K key v (h @ [c])"
  by (rule shown_from_append) simp_all

text \<open>The Clusters a reconcile looks into.\<close>

definition watched :: "kube \<Rightarrow> config \<Rightarrow> cluster \<Rightarrow> bool" where
  "watched K cfg cluster \<longleftrightarrow> c_deletion_timestamp cluster = None \<and> selected_by (cf_selector cfg) cluster \<and> \<not> is_paused_cluster K cluster"

abbreviation nodes_named :: "node list \<Rightarrow> nodes" where
  "nodes_named items \<equiv> fold (\<lambda>n byName. AList.update (n_name n) n byName) items []"

lemma read_and_act_run:
  assumes "shown_from E K key v (history s)" and "vw_signals v \<noteq> []"
  shows "\<exists>s' cs. history s' = history s @ cs \<and> list_all (\<lambda>c. \<not> patches_machine c) cs \<and>
    snd (run_state (read_and_act E K cfg key (vw_cluster v) (vw_mode v)) s) =
    snd (run_state (act E K cfg key (vw_cluster v) (vw_mode v) (vw_signals v) (index_machines (vw_machines v)) (own_checks v)
      (nodes_named (vw_nodes v))) s')"
proof -
  have sh: "shown E K key v (history s @ cs)" if "list_all (\<lambda>c. \<not> patches_machine c) cs" for cs
    using assms(1) that by (simp add: shown_from_def)
  define src where "src = (if vw_mode v = ModeExternalRemediationRequest then ListRequests (list_requests E (history s))
    else ListNodes (list_nodes E (history s)))"
  have src: "run_state (source_Collect E K (vw_mode v)) s = (Inr (vw_signals v), s\<lparr>history := history s @ [src]\<rparr>)"
    "\<not> patches_machine src"
    using sh [of "[]"] unfolding src_def
    by (cases "list_requests E (history s)"; simp add: source_Collect_def Collect_requests_def Collect_conditions_def shown_def split: if_splits)+
  let ?ms = "ListMachines (cluster_key (vw_cluster v)) (Inr (vw_machines v))"
  and ?cs = "ListChecks (c_namespace (vw_cluster v)) (Inr (vw_checks v))" and ?ns = "ListNodes (Inr (vw_nodes v))"
  let ?un = "if vw_mode v = ModeExternalRemediationRequest then [ConnectUncached key None] else []"
  have answers: "list_machines E (history s @ [src]) (cluster_key (vw_cluster v)) = Inr (vw_machines v)"
    "list_health_checks E (history s @ [src, ?ms]) (c_namespace (vw_cluster v)) = Inr (vw_checks v)"
    "list_nodes E (history s @ [src, ?ms, ?cs]) = Inr (vw_nodes v)" "connect_uncached E (history s @ [src, ?ms, ?cs, ?ns]) key = None"
    using sh [of "[src]"] sh [of "[src, ?ms]"] sh [of "[src, ?ms, ?cs]"] sh [of "[src, ?ms, ?cs, ?ns]"] src(2) by (simp_all add: shown_def)
  have "snd (run_state (read_and_act E K cfg key (vw_cluster v) (vw_mode v)) s) =
      snd (run_state (act E K cfg key (vw_cluster v) (vw_mode v) (vw_signals v) (index_machines (vw_machines v)) (own_checks v)
        (nodes_named (vw_nodes v))) (s\<lparr>history := history s @ src # ?ms # ?cs # ?ns # ?un\<rparr>))"
    using src(1) answers assms(2)
    by (cases "vw_mode v = ModeExternalRemediationRequest")
      (simp_all add: read_and_act_def machinesByNode_def ListHealthChecks_def nodesByName_def own_checks_def split: prod.splits)
  then show ?thesis using src(2) by (intro exI [of _ "s\<lparr>history := history s @ src # ?ms # ?cs # ?ns # ?un\<rparr>"] exI [of _ "src # ?ms # ?cs # ?ns # ?un"]) simp
qed

lemma selectMode_run:
  assumes "shown_from E K key v (history s)"
  shows "\<exists>cs. run_state (selectMode E) s = (Inr (vw_mode v), s\<lparr>history := history s @ cs\<rparr>) \<and> list_all (\<lambda>c. \<not> patches_machine c) cs"
proof -
  let ?gk = "group_kind_of GroupVersionKind" and ?ver = "version_of GroupVersionKind"
  let ?asked = "LookUpWorkload ?gk ?ver (look_up_workload E (history s) ?gk ?ver)"
  have "in_mode E (vw_mode v) (history s)" "in_mode E (vw_mode v) (history s @ [?asked])"
    using shown_fromD [OF assms] shown_fromD [OF shown_from_snoc [OF assms, of ?asked]] by (simp_all add: shown_def)
  then show ?thesis
    by (auto simp: in_mode_def not_served_def selectMode_def isServed_def served_result_def)
qed

lemma Reconcile_run:
  assumes "shown_from E K key v (history s)" and "watched K cfg (vw_cluster v)" and "vw_signals v \<noteq> []"
  shows "\<exists>s' cs. history s' = history s @ cs \<and> list_all (\<lambda>c. \<not> patches_machine c) cs \<and> snd (run_state (Reconcile E K cfg key) s) =
    snd (run_state (act E K cfg key (vw_cluster v) (vw_mode v) (vw_signals v) (index_machines (vw_machines v)) (own_checks v)
      (nodes_named (vw_nodes v))) s')"
proof -
  let ?s1 = "s\<lparr>history := history s @ [GetCluster key (Inr (vw_cluster v))]\<rparr>"
  let ?s2 = "s\<lparr>history := history s @ [GetCluster key (Inr (vw_cluster v)), ConnectWorkload key None]\<rparr>"
  have h1: "shown_from E K key v (history ?s1)" and h2: "shown_from E K key v (history ?s2)"
    using shown_from_append [OF assms(1), of "[GetCluster key (Inr (vw_cluster v))]"]
      shown_from_append [OF assms(1), of "[GetCluster key (Inr (vw_cluster v)), ConnectWorkload key None]"] by simp_all
  obtain cs where mode: "run_state (selectMode E) ?s2 = (Inr (vw_mode v), ?s2\<lparr>history := history ?s2 @ cs\<rparr>)"
    "list_all (\<lambda>c. \<not> patches_machine c) cs" using selectMode_run [OF h2] by blast
  let ?s3 = "?s2\<lparr>history := history ?s2 @ cs\<rparr>"
  let ?prep = "do {
      noteMode cfg (vw_cluster v) (vw_mode v);
      w \<leftarrow> (if vw_mode v = ModeExternalRemediationRequest then watchRequests E cfg key else State_Monad.return None);
      (if w \<noteq> None then log_line Info ''watching the requests failed, they are read at every poll only''
       else State_Monad.return ())
    }"
  obtain s4 where r4: "run_state ?prep ?s3 = ((), s4)" by (cases "run_state ?prep ?s3") auto
  have "emits (\<lambda>c. \<not> patches_machine c) ?prep" by (intro emits_rules emits_noteMode emits_watchRequests) auto
  from run_emits [OF this r4] obtain ds where ds: "history s4 = history ?s3 @ ds" "list_all (\<lambda>c. \<not> patches_machine c) ds" by blast
  have "shown_from E K key v (history s4)"
    using shown_from_append [OF shown_from_append [OF h2 mode(2)] ds(2)] ds(1) by simp
  from read_and_act_run [OF this assms(3)] obtain s' es where s': "history s' = history s4 @ es" "list_all (\<lambda>c. \<not> patches_machine c) es"
    "snd (run_state (read_and_act E K cfg key (vw_cluster v) (vw_mode v)) s4) =
      snd (run_state (act E K cfg key (vw_cluster v) (vw_mode v) (vw_signals v) (index_machines (vw_machines v)) (own_checks v)
      (nodes_named (vw_nodes v))) s')" by blast
  have "snd (run_state (Reconcile E K cfg key) s) = snd (run_state (reconcile_cluster E K cfg key (vw_cluster v)) ?s1)"
    using shown_fromD [OF assms(1)] assms(2)
    by (simp add: Reconcile_def shown_def watched_def selected_by_def split: option.splits)
  also have "\<dots> = snd (run_state (read_and_act E K cfg key (vw_cluster v) (vw_mode v)) s4)"
    using shown_fromD [OF h1] mode(1) r4 by (auto simp: reconcile_cluster_def shown_def split: prod.splits)
  finally show ?thesis using s' ds mode(2)
    by (intro exI [of _ s'] exI [of _ "GetCluster key (Inr (vw_cluster v)) # ConnectWorkload key None # cs @ ds @ es"]) simp
qed

text \<open>The Machine behind a node, and the node behind a name, as the maps have them.\<close>

lemma map_of_fold_update:
  "map_of (fold (\<lambda>x acc. if P x then AList.update (f x) x acc else acc) xs acc) k =
     (case find (\<lambda>x. P x \<and> f x = k) (rev xs) of None \<Rightarrow> map_of acc k | Some x \<Rightarrow> Some x)"
  by (induction xs arbitrary: acc) (auto simp: update_conv' find_append split: option.split)

lemma index_machines_unique:
  assumes "m \<in> set ms" and "m_node_ref m \<noteq> []" and "\<And>m'. m' \<in> set ms \<Longrightarrow> m_node_ref m' = m_node_ref m \<Longrightarrow> m' = m"
  shows "map_of (index_machines ms) (m_node_ref m) = Some m"
proof -
  obtain x where "find (\<lambda>x. m_node_ref x \<noteq> [] \<and> m_node_ref x = m_node_ref m) (rev ms) = Some x"
    using assms(1,2) by (cases "find (\<lambda>x. m_node_ref x \<noteq> [] \<and> m_node_ref x = m_node_ref m) (rev ms)") (auto simp: find_None_iff)
  moreover from find_SomeD [OF this] have "x = m" using assms(3) by simp
  ultimately show ?thesis unfolding index_machines_def map_of_fold_update by simp
qed

lemma nodes_named_there: "n \<in> set ns \<Longrightarrow> map_of (nodes_named ns) (n_name n) \<noteq> None"
  using map_of_fold_update [of "\<lambda>_. True" n_name ns "[]" "n_name n"] by (auto simp: find_None_iff split: option.splits)

section \<open>Properties\<close>

lemma Reconcile_marks_run:
  assumes "\<not> cf_dry_run cfg" and "watched K cfg (vw_cluster v)" and "shown_from E K key v (history s)"
    and signals: "vw_signals v = before @ sig # after"
    and machine: "m \<in> set (vw_machines v)" "m_node_ref m = s_node sig" "s_node sig \<noteq> []"
      "\<And>m'. m' \<in> set (vw_machines v) \<Longrightarrow> m_node_ref m' = s_node sig \<Longrightarrow> m' = m"
    and node: "s_request sig = [] \<or> s_node sig \<in> n_name ` set (vw_nodes v)"
    and can: "can_mark K (own_checks v) m (o_decision (decide_in (vw_mode v) (cf_table cfg) sig))"
    and "still_pending E K sig"
    and "\<And>x. x \<in> set before \<Longrightarrow> s_node x = s_node sig \<Longrightarrow> o_decision (decide_in (vw_mode v) (cf_table cfg) x) = Report"
  shows "\<exists>cs u r ds. history (snd (run_state (Reconcile E K cfg key) s)) = history s @ cs @ PatchMachine m u False r # ds \<and>
    (before = [] \<and> after = [] \<longrightarrow> list_all (\<lambda>c. \<not> patches_machine c) cs \<and> list_all (\<lambda>c. \<not> marks_machine c) ds) \<and>
    MarkedAction u = Some (asked_action (o_decision (decide_in (vw_mode v) (cf_table cfg) sig)))"
proof -
  have "vw_signals v \<noteq> []" by (simp add: signals)
  from Reconcile_run [OF assms(3,2) this] obtain s' cs where s': "history s' = history s @ cs" "list_all (\<lambda>c. \<not> patches_machine c) cs"
    "snd (run_state (Reconcile E K cfg key) s) =
     snd (run_state (act E K cfg key (vw_cluster v) (vw_mode v) (before @ sig # after) (index_machines (vw_machines v)) (own_checks v)
      (nodes_named (vw_nodes v))) s')" unfolding signals by blast
  have here: "map_of (index_machines (vw_machines v)) (s_node sig) = Some m"
    unfolding machine(2) [symmetric]
    by (rule index_machines_unique [OF machine(1)], use machine(2,3) in simp, rule machine(4), simp_all add: machine(2))
  have there: "map_of (nodes_named (vw_nodes v)) (s_node sig) \<noteq> None \<or> s_request sig = []"
    using node nodes_named_there by force
  obtain ds u r es where "history (snd (run_state (Reconcile E K cfg key) s)) = history s' @ ds @ PatchMachine m u False r # es"
    "before = [] \<and> after = [] \<longrightarrow> list_all (\<lambda>c. \<not> patches_machine c) ds \<and> list_all (\<lambda>c. \<not> marks_machine c) es" "MarkedAction u = Some (asked_action (o_decision (decide_in (vw_mode v) (cf_table cfg) sig)))"
    using act_marks_signal [OF assms(1) can here there assms(11,12), where cluster = "vw_cluster v" and key = key and s = s'
      and after = after] unfolding s'(3) by blast
  with s'(1,2) show ?thesis by (intro exI [of _ "cs @ ds"] exI [of _ u] exI [of _ r] exI [of _ es]) auto
qed

text \<open>C7: A fault that calls for it gets its Machine marked, by a whole reconcile. When the workload cluster shows a signal, as a node
  condition or as a pending request, whose decision can be carried out on the one Machine behind its node, which no guard
  protects and whose checks cover it, only through templates and without a sign of an earlier mark for a restart, then
  the reconcile patches that Machine with the mark of that action. The signals before it on the same node are only reported; those of other
  nodes may be anything.\<close>

theorem Reconcile_marks_faults:
  assumes "\<not> cf_dry_run cfg" and "watched K cfg (vw_cluster v)" and "shown_from E K key v (history s)"
    and "vw_signals v = before @ sig # after"
    and "m \<in> set (vw_machines v)" and "m_node_ref m = s_node sig" and "s_node sig \<noteq> []"
    and "\<And>m'. m' \<in> set (vw_machines v) \<Longrightarrow> m_node_ref m' = s_node sig \<Longrightarrow> m' = m"
    and "s_request sig = [] \<or> s_node sig \<in> n_name ` set (vw_nodes v)"
    and "can_mark K (own_checks v) m (o_decision (decide_in (vw_mode v) (cf_table cfg) sig))"
    and "still_pending E K sig"
    and "\<And>x. x \<in> set before \<Longrightarrow> s_node x = s_node sig \<Longrightarrow> o_decision (decide_in (vw_mode v) (cf_table cfg) x) = Report"
  shows "\<exists>u r. PatchMachine m u False r \<in> set (new_calls (Reconcile E K cfg key) s) \<and>
    MarkedAction u = Some (asked_action (o_decision (decide_in (vw_mode v) (cf_table cfg) sig)))"
proof -
  obtain cs u r ds where "history (snd (run_state (Reconcile E K cfg key) s)) = history s @ cs @ PatchMachine m u False r # ds"
    and "MarkedAction u = Some (asked_action (o_decision (decide_in (vw_mode v) (cf_table cfg) sig)))"
    using Reconcile_marks_run [OF assms] by blast
  then show ?thesis by (auto simp: new_calls_def)
qed

text \<open>A workload cluster with one faulty node, whose condition asks for \<open>action\<close>, as NVSentinel's platform connector writes it. What is shown may
  depend on whether a Machine was patched before.\<close>

definition fault_message :: "string \<Rightarrow> string" where
  "fault_message action = message_of (map event_text [(''ErrorCode:79 '', action)])"

definition faulty_node :: "string \<Rightarrow> node" where
  "faulty_node action = \<lparr>n_name = ''gpu-w-1'', n_boot_id = ''b'', n_conditions =
     [\<lparr>cond_type = ''GpuXidError'', cond_status = ''True'', cond_reason = [], cond_message = fault_message action\<rparr>]\<rparr>"

definition faulty_env :: "(call list \<Rightarrow> string) \<Rightarrow> env" where
  "faulty_env action = quiet_env\<lparr>get_cluster := \<lambda>_ _. Inr example_cluster, look_up_workload := \<lambda>_ _ _. Some (ApiError NoMatch ''no match''),
     list_nodes := \<lambda>h. Inr [faulty_node (action h)], list_machines := \<lambda>_ _. Inr [labelled_machine],
     list_health_checks := \<lambda>_ _. Inr [example_check]\<rparr>"

definition fault_signal :: "string \<Rightarrow> signal" where
  "fault_signal action = (the (Parse ''GpuXidError'' (fault_message action)))\<lparr>s_node := ''gpu-w-1''\<rparr>"

definition faulty_view :: "string \<Rightarrow> view" where
  "faulty_view action = \<lparr>vw_cluster = example_cluster, vw_mode = ModeNodeCondition, vw_signals = [fault_signal action],
     vw_machines = [labelled_machine], vw_checks = [example_check], vw_nodes = [faulty_node action]\<rparr>"

lemma fault_signal_fields:
  assumes "IsKnownAction action"
  shows "Parse ''GpuXidError'' (fault_message action) \<noteq> None" "s_actions (fault_signal action) = [action]"
    "s_request (fault_signal action) = []" "s_node (fault_signal action) = ''gpu-w-1''" "\<not> s_truncated (fault_signal action)"
proof -
  have "\<forall>e \<in> set [(''ErrorCode:79 '', action)]. wf_event e"
    using assms by (simp add: wf_event_def actionMarker_def eventSeparator_def)
  from Parse_message [OF _ this, of "''GpuXidError''"] show "Parse ''GpuXidError'' (fault_message action) \<noteq> None"
    "s_actions (fault_signal action) = [action]" "s_request (fault_signal action) = []" "s_node (fault_signal action) = ''gpu-w-1''"
    "\<not> s_truncated (fault_signal action)"
    by (auto simp: fault_signal_def fault_message_def append_new_def)
qed

lemma faulty_node_signals: "IsKnownAction action \<Longrightarrow> condition_signals [faulty_node action] = [fault_signal action]"
  using fault_signal_fields(1) [of action]
  by (auto simp: condition_signals_def node_signals_def faulty_node_def fault_signal_def List.map_filter_def)

lemma example_cluster_watched [simp]: "watched plain_kube example_config example_cluster"
  by (simp add: watched_def selected_by_def example_cluster_def example_config_def)

lemma faulty_env_shown:
  assumes "IsKnownAction a" and "\<And>cs. list_all (\<lambda>c. \<not> patches_machine c) cs \<Longrightarrow> action (h @ cs) = a"
  shows "shown_from (faulty_env action) K key (faulty_view a) h"
  using assms(2) faulty_node_signals [OF assms(1)]
  by (simp add: shown_from_def shown_def in_mode_def not_served_def faulty_env_def faulty_view_def)

lemma fault_decisions:
  "o_decision (decide_in ModeNodeCondition (cf_table example_config) (fault_signal ActionReplaceVM)) = Replace"
  "o_decision (decide_in ModeNodeCondition (cf_table example_config) (fault_signal ActionRestartBM)) = Restart"
proof -
  have "IsKnownAction ActionReplaceVM" "IsKnownAction ActionRestartBM" by (simp_all add: IsKnownAction_def knownActions_def)
  note a = fault_signal_fields(2,5) [OF this(1)] fault_signal_fields(2,5) [OF this(2)]
  show "o_decision (decide_in ModeNodeCondition (cf_table example_config) (fault_signal ActionReplaceVM)) = Replace"
    "o_decision (decide_in ModeNodeCondition (cf_table example_config) (fault_signal ActionRestartBM)) = Restart"
    by (simp_all only: decide_in_def Decide_def a)
      (simp_all add: example_config_def reportOnly_def decide_step_def Lookup_def Default_def defaults_def action_defs MoreDisruptiveThan_def zero_outcome_def Let_def)
qed

lemma faulty_can_mark: "d = Replace \<or> d = Restart \<Longrightarrow> can_mark plain_kube (own_checks (faulty_view a)) labelled_machine d"
proof -
  have "own_checks (faulty_view a) = [example_check]"
    by (simp add: own_checks_def faulty_view_def) (simp add: example_check_def example_cluster_def)
  then show "d = Replace \<or> d = Restart \<Longrightarrow> can_mark plain_kube (own_checks (faulty_view a)) labelled_machine d"
    using labelled_machine_covered TemplatesOnly_Covered [OF labelled_machine_covered(1)] by (auto simp: can_mark_def)
qed

lemma labelled_machine_node: "m_node_ref labelled_machine = ''gpu-w-1''"
  by (simp add: labelled_machine_def example_machine_def)

lemma faulty_marks:
  assumes "shown_from E plain_kube key (faulty_view a) (history s)" and "a = ActionReplaceVM \<and> d = Replace \<or> a = ActionRestartBM \<and> d = Restart"
  shows "\<exists>cs u r ds. history (snd (run_state (Reconcile E plain_kube example_config key) s)) =
      history s @ cs @ PatchMachine labelled_machine u False r # ds \<and> list_all (\<lambda>c. \<not> patches_machine c) cs \<and> list_all (\<lambda>c. \<not> marks_machine c) ds \<and>
    MarkedAction u = Some (asked_action d)"
proof -
  have known: "IsKnownAction a" using assms(2) by (auto simp: IsKnownAction_def knownActions_def)
  let ?v = "faulty_view a" and ?sig = "fault_signal a"
  have v: "vw_cluster ?v = example_cluster" "vw_mode ?v = ModeNodeCondition" "vw_signals ?v = [] @ ?sig # []"
    "vw_machines ?v = [labelled_machine]" by (simp_all add: faulty_view_def)
  note sig = fault_signal_fields(3,4) [OF known]
  have d: "o_decision (decide_in (vw_mode ?v) (cf_table example_config) ?sig) = d"
    unfolding v using assms(2) fault_decisions by auto
  have can: "can_mark plain_kube (own_checks ?v) labelled_machine (o_decision (decide_in (vw_mode ?v) (cf_table example_config) ?sig))"
    unfolding d using assms(2) by (auto intro: faulty_can_mark)
  have pending: "still_pending E plain_kube ?sig" by (simp add: still_pending_def sig)
  have "\<exists>cs u r ds. history (snd (run_state (Reconcile E plain_kube example_config key) s)) =
      history s @ cs @ PatchMachine labelled_machine u False r # ds \<and>
    (([] :: signal list) = [] \<and> ([] :: signal list) = [] \<longrightarrow> list_all (\<lambda>c. \<not> patches_machine c) cs \<and> list_all (\<lambda>c. \<not> marks_machine c) ds) \<and> MarkedAction u = Some (asked_action d)"
    by (rule Reconcile_marks_run [OF example_config_live _ assms(1) v(3) _ _ _ _ _ can pending, unfolded d])
      (simp_all add: v sig labelled_machine_node)
  then show ?thesis by simp
qed

theorem Reconcile_marks_faults_witness:
  "\<exists>u r. PatchMachine labelled_machine u False r
     \<in> set (new_calls (Reconcile (faulty_env (\<lambda>_. ActionRestartBM)) plain_kube example_config (''ns'', ''c'')) fresh_reconciler) \<and>
   MarkedAction u = Some ActionRestart"
proof -
  have known: "IsKnownAction ActionRestartBM" by (simp add: IsKnownAction_def knownActions_def)
  let ?v = "faulty_view ActionRestartBM" and ?sig = "fault_signal ActionRestartBM" and ?E = "faulty_env (\<lambda>_. ActionRestartBM)"
  have v: "vw_cluster ?v = example_cluster" "vw_mode ?v = ModeNodeCondition" "vw_signals ?v = [] @ ?sig # []"
    "vw_machines ?v = [labelled_machine]" by (simp_all add: faulty_view_def)
  note sig = fault_signal_fields(3,4) [OF known]
  have d: "o_decision (decide_in (vw_mode ?v) (cf_table example_config) ?sig) = Restart" by (simp only: v fault_decisions)
  have shown: "shown_from ?E plain_kube (''ns'', ''c'') ?v (history fresh_reconciler)" by (rule faulty_env_shown [OF known]) simp
  have can: "can_mark plain_kube (own_checks ?v) labelled_machine (o_decision (decide_in (vw_mode ?v) (cf_table example_config) ?sig))"
    unfolding d by (rule faulty_can_mark) simp
  have pending: "still_pending ?E plain_kube ?sig" by (simp add: still_pending_def sig)
  have "asked_action Restart = ActionRestart" by (simp add: asked_action_def)
  moreover have "\<exists>u r. PatchMachine labelled_machine u False r \<in> set (new_calls (Reconcile ?E plain_kube example_config (''ns'', ''c'')) fresh_reconciler) \<and>
      MarkedAction u = Some (asked_action Restart)"
    by (rule Reconcile_marks_faults [OF example_config_live _ shown v(3) _ _ _ _ _ can pending, unfolded d])
      (simp_all add: v sig labelled_machine_node)
  ultimately show ?thesis by simp
qed

end
