(* ===== verification/Lives.thy ===== *)
theory Lives
  imports Settling Acting
begin

text \<open>
  The life of a mark over whole runs of the program: what happens to the mark of the Machine that is stored, when nobody else writes it,
  and the one way in which the program itself can fall out of that life, a mark it makes from a Machine read too early.
\<close>

section \<open>The mark that is stored\<close>

text \<open>Marking is the one patch that names no version. It is outdated when the annotations of the mark that are stored are not those of the Machine it was
  made from.\<close>

fun outdated :: "ledger \<Rightarrow> call list \<Rightarrow> call \<Rightarrow> bool" where
  "outdated L h (PatchMachine b u lock (Inr r)) \<longleftrightarrow> \<not> lock \<and>
     (\<exists>m. stored L h (machine_key b) = Some m \<and> (\<exists>k \<in> set mark_annotations. m_annotations m k \<noteq> m_annotations b k))"
| "outdated L h _ \<longleftrightarrow> False"

text \<open>What a call makes of the Machine stored under a name: it is there before it is there afterwards, and its mark is as it was, or
  a step further.\<close>

definition lives_on :: "ledger \<Rightarrow> string \<times> string \<Rightarrow> call list \<Rightarrow> call \<Rightarrow> bool" where
  "lives_on L k h c \<longleftrightarrow> (\<forall>m'. stored L (h @ [c]) k = Some m' \<longrightarrow> \<not> deleting m' \<longrightarrow>
     (\<exists>m. stored L h k = Some m \<and> \<not> deleting m \<and> (outdated L h c \<or> mark_step\<^sup>=\<^sup>= (mark_state m) (mark_state m'))))"

lemma each_lives_on:
  assumes "each_at (lives_on L k) h cs" and "each_at (\<lambda>h c. \<not> outdated L h c) h cs" and "stored L (h @ cs) k = Some m'" and "\<not> deleting m'"
  shows "\<exists>m. stored L h k = Some m \<and> \<not> deleting m \<and> mark_step\<^sup>*\<^sup>* (mark_state m) (mark_state m')"
  using assms
proof (induction cs arbitrary: h)
  case (Cons c cs)
  then have "each_at (lives_on L k) (h @ [c]) cs" "each_at (\<lambda>h c. \<not> outdated L h c) (h @ [c]) cs" "stored L ((h @ [c]) @ cs) k = Some m'" by simp_all
  from Cons.IH [OF this Cons.prems(4)] obtain m1
    where "stored L (h @ [c]) k = Some m1" "\<not> deleting m1" "mark_step\<^sup>*\<^sup>* (mark_state m1) (mark_state m')" by blast
  moreover then obtain m where "stored L h k = Some m" "\<not> deleting m" "mark_step\<^sup>=\<^sup>= (mark_state m) (mark_state m1)"
    using Cons.prems(1,2) by (auto simp: lives_on_def)
  ultimately show ?case by (auto intro: converse_rtranclp_into_rtranclp)
qed auto

lemma unchanged_lives_on: "alone E L \<Longrightarrow> \<not> changes k c \<Longrightarrow> lives_on L k h c"
proof -
  assume "alone E L" and "\<not> changes k c"
  then have "stored L (h @ [c]) k = stored L h k" unfolding alone_def by blast
  then show ?thesis by (simp add: lives_on_def)
qed

section \<open>The calls\<close>

lemma mark_state_alike:
  "(\<And>k. k \<in> set mark_annotations \<Longrightarrow> m_annotations m k = m_annotations m' k) \<Longrightarrow> mark_state m = mark_state m'"
  by (rule mark_state_cong) simp

text \<open>An accepted patch of annotations that is not outdated leaves the mark it was made to leave.\<close>

lemma patch_lives_on:
  assumes "optimistic E L" and "alone E L" and "documented_patch E" and "b \<in> versions L h" and "u = b\<lparr>m_annotations := m_annotations u\<rparr>"
    and "patch_machine E h b u lock = Inr m" and "mark_step\<^sup>=\<^sup>= (mark_state b) (mark_state u)" and "machine_key b = k"
  shows "lives_on L k h (PatchMachine b u lock (Inr m))"
proof -
  from alone_patch [OF assms(2,4-6)] obtain old where old: "stored L h k = Some old"
    "stored L (h @ [PatchMachine b u lock (Inr m)]) k = Some m" "m_deletion_timestamp m = m_deletion_timestamp old"
    "\<And>a. m_annotations b a = m_annotations u a \<Longrightarrow> m_annotations m a = m_annotations old a"
    unfolding assms(8) by blast
  have "mark_step\<^sup>=\<^sup>= (mark_state old) (mark_state m)" if fresh: "\<not> outdated L h (PatchMachine b u lock (Inr m))"
  proof -
    have alike: "m_annotations old a = m_annotations b a" if "a \<in> set mark_annotations" for a
    proof (cases lock)
      case True
      with locked_patch_stored [OF assms(1) _ assms(4)] assms(6) old(1) show ?thesis by (simp add: assms(8))
    next
      case False
      with fresh old(1) that show ?thesis by (auto simp: assms(8))
    qed
    have changed: "m_annotations m a = m_annotations u a" if "m_annotations b a \<noteq> m_annotations u a" for a
      using assms(3,6) that unfolding documented_patch_def by blast
    have "mark_state m = mark_state u"
      by (rule mark_state_alike) (metis alike changed old(4))
    moreover have "mark_state old = mark_state b" by (rule mark_state_alike) (rule alike)
    ultimately show ?thesis using assms(7) by simp
  qed
  with old show ?thesis by (auto simp: lives_on_def deleting_def)
qed

lemma cluster_call_lives_on:
  assumes "optimistic E L" and "alone E L" and "documented_patch E" and "moves_mark c" and "from_version E L h c"
  shows "lives_on L k h c"
proof (cases "changes k c")
  case True
  with assms(4) obtain b u lock m where c: "c = PatchMachine b u lock (Inr m)" and key: "machine_key b = k"
    by (cases "(k, c)" rule: changes.cases) auto
  show ?thesis
    unfolding c by (rule patch_lives_on [OF assms(1-3)]) (use assms(4,5) key in \<open>auto simp: c\<close>)
qed (rule unchanged_lives_on [OF assms(2)])

lemma machine_call_lives_on:
  assumes "optimistic E L" and "alone E L" and "documented_patch E" and "deletes_evaluated E L K key n h c" and "replace_call K dry c"
  shows "lives_on L k h c"
proof (cases "(k, c)" rule: changes.cases)
  case (1 k' b u lock m)
  then have c: "c = PatchMachine b u lock (Inr m)" by simp
  from assms(4,5) obtain status where u: "u = with_status b status" and lock: lock and b: "b \<in> versions L h"
    and patch: "patch_machine E h b u lock = Inr m" by (auto simp: c)
  have "mark_state u = mark_state b"
    using request_keys_not_marks(2) by (intro mark_state_alike) (auto simp: u with_status_def)
  then show ?thesis
    using patch_lives_on [OF assms(1-3) b _ patch] unchanged_lives_on [OF assms(2), of k c h] by (cases "machine_key b = k") (auto simp: c u with_status_def)
next
  case (2 k' m)
  then have c: "c = DeleteMachine m None" by simp
  show ?thesis
  proof (cases "machine_key m = k")
    case True
    then show ?thesis using alone_delete [OF assms(2), of h m] assms(4) by (auto simp: c lives_on_def)
  qed (use unchanged_lives_on [OF assms(2)] c in simp)
qed (auto intro!: unchanged_lives_on [OF assms(2)])

section \<open>Runs\<close>

lemma program_run_lives_on:
  assumes "program_run E K p s s'" and "optimistic E L" and "alone E L" and "documented_patch E"
  shows "\<exists>cs. history s' = history s @ cs \<and> each_at (lives_on L k) (history s) cs"
proof (rule program_run_each [OF assms(1)], rule program_step_each [OF _ assms(2)])
  fix h c assume "cautious K (cf_dry_run (pr_cluster p)) c" and "from_version E L h c"
  then show "lives_on L k h c" using cluster_call_lives_on [OF assms(2-4) cautious_moves] by blast
qed (auto intro: machine_call_lives_on [OF assms(2-4)])

section \<open>Properties\<close>

text \<open>C14: The mark that is stored lives as it should, over whole runs. As long as nobody but the program writes a Machine, and no mark is made from
  a Machine whose mark has changed since it was read, the mark goes from none to a restart or a replacement, from a restart to none or to a replacement, and no
  other way, however often and in whatever order both controllers reconcile, and however old what they read is otherwise. So a
  replacement that was asked for stays asked for, and a mark made by others stays, until the Machine is deleted.\<close>

theorem program_run_marks:
  assumes "optimistic E L" and "alone E L" and "documented_patch E"
    and "program_run E K p s s'" and "history s' = history s @ cs" and "each_at (\<lambda>h c. \<not> outdated L h c) (history s) cs"
    and "stored L (history s') k = Some m'" and "\<not> deleting m'"
  shows "\<exists>m. stored L (history s) k = Some m \<and> mark_step\<^sup>*\<^sup>* (mark_state m) (mark_state m') \<and>
    (mark_state m \<in> {ForReplacement, ByOthers} \<longrightarrow> mark_state m' = mark_state m)"
proof -
  have "each_at (lives_on L k) (history s) cs"
    using program_run_lives_on [OF assms(4,1-3), of k] assms(5) by auto
  from each_lives_on [OF this assms(6) _ assms(8)] assms(5,7) show ?thesis
    using mark_final by (metis insert_iff singletonD)
qed

section \<open>A mark made too early\<close>

text \<open>A server whose lists lag behind: they show a Machine as it was first. Of the faulty node, the first reconcile is told that it is to be replaced and
  later ones that it is to be restarted.\<close>

definition lagging_server :: env where
  "lagging_server = (holding_machine labelled_machine (faulty_env (\<lambda>h. if list_ex patches_machine h then ActionRestartBM else ActionReplaceVM)))
     \<lparr>list_machines := \<lambda>_ _. Inr [labelled_machine]\<rparr>"

definition lagging_ledger :: ledger where
  "lagging_ledger = ledger_of labelled_machine"

lemma labelled_machine_version: "labelled_machine \<in> versions lagging_ledger h"
proof (induction h rule: rev_induct)
  case Nil
  then show ?case by (simp add: lagging_ledger_def ledger_of_def)
next
  case (snoc c h)
  then show ?case using shelf_step_grows by (auto simp: lagging_ledger_def ledger_of_def)
qed

lemma lagging_like_holding:
  "get_machine lagging_server = get_machine (holding_machine labelled_machine quiet_env)"
  "patch_machine lagging_server = patch_machine (holding_machine labelled_machine quiet_env)"
  "delete_machine lagging_server = delete_machine (holding_machine labelled_machine quiet_env)"
  by (simp_all add: lagging_server_def holding_machine_def)

lemma lagging_optimistic: "optimistic lagging_server lagging_ledger"
  using holding_machine_optimistic [of labelled_machine quiet_env] labelled_machine_version
  unfolding optimistic_def answers_versions_def compares_versions_def lagging_like_holding lagging_ledger_def
  by (simp add: lagging_server_def)

lemma lagging_alone: "alone lagging_server lagging_ledger" "documented_patch lagging_server"
  using holding_machine_alone [of labelled_machine quiet_env] holding_machine_documented [of labelled_machine quiet_env]
  unfolding alone_def documented_patch_def lagging_like_holding lagging_ledger_def by simp_all

lemma lagging_shown:
  assumes "a = (if list_ex patches_machine h then ActionRestartBM else ActionReplaceVM)"
  shows "shown_from lagging_server plain_kube (''ns'', ''c'') (faulty_view a) h"
proof -
  have "IsKnownAction a" by (simp add: assms IsKnownAction_def knownActions_def)
  moreover have "list_ex patches_machine (h @ cs) = list_ex patches_machine h" if "list_all (\<lambda>c. \<not> patches_machine c) cs" for cs
    using that by (auto simp: list_all_iff list_ex_iff)
  ultimately have "shown_from (faulty_env (\<lambda>h. if list_ex patches_machine h then ActionRestartBM else ActionReplaceVM)) plain_kube (''ns'', ''c'') (faulty_view a) h"
    by (intro faulty_env_shown) (simp_all add: assms)
  then show ?thesis by (simp add: shown_from_def shown_def in_mode_def not_served_def lagging_server_def holding_machine_def faulty_env_def)
qed

text \<open>A Machine that is stored under its name, with a mark.\<close>

definition stored_mark :: "ledger \<Rightarrow> string \<times> string \<Rightarrow> call list \<Rightarrow> mark_state \<Rightarrow> bool" where
  "stored_mark L k h st \<longleftrightarrow> (\<exists>m. stored L h k = Some m \<and> \<not> deleting m \<and> mark_state m = st)"

text \<open>Calls of the first controller that do not mark keep a Machine stored, and a replacement mark on it.\<close>

lemma call_keeps_stored:
  assumes "optimistic E L" and "alone E L" and "documented_patch E" and "moves_mark c" and "from_version E L h c" and "\<not> marks_machine c"
    and "stored_mark L k h st"
  shows "\<exists>st'. stored_mark L k (h @ [c]) st' \<and> (st = ForReplacement \<longrightarrow> st' = ForReplacement)"
proof -
  from assms(7) obtain m where m: "stored L h k = Some m" "\<not> deleting m" "mark_state m = st" by (auto simp: stored_mark_def)
  obtain m' where m': "stored L (h @ [c]) k = Some m'" "\<not> deleting m'"
  proof (cases "changes k c")
    case True
    with assms(4) obtain b u lock r where c: "c = PatchMachine b u lock (Inr r)" and key: "machine_key b = k"
      by (cases "(k, c)" rule: changes.cases) auto
    have b: "b \<in> versions L h" "u = b\<lparr>m_annotations := m_annotations u\<rparr>" "patch_machine E h b u lock = Inr r"
      using assms(4,5) by (auto simp: c)
    obtain old where "stored L h k = Some old" "stored L (h @ [c]) k = Some r" "m_deletion_timestamp r = m_deletion_timestamp old"
      by (rule alone_patch [OF assms(2) b, unfolded key, folded c])
    with m show thesis by (intro that [of r]) (simp_all add: deleting_def)
  next
    case False
    with assms(2) have "stored L (h @ [c]) k = stored L h k" unfolding alone_def by blast
    with m show thesis by (intro that) simp_all
  qed
  have "\<not> outdated L h c" using assms(6) by (cases "(L, h, c)" rule: outdated.cases) (auto simp: marks_machine_def)
  with cluster_call_lives_on [OF assms(1-5), of k] m' m have "mark_step\<^sup>=\<^sup>= st (mark_state m')" by (auto simp: lives_on_def)
  then have "st = ForReplacement \<longrightarrow> mark_state m' = ForReplacement" by (auto elim: from_ForReplacement)
  with m' show ?thesis by (auto simp: stored_mark_def)
qed

lemma calls_keep_stored:
  assumes "optimistic E L" and "alone E L" and "documented_patch E" and "list_all moves_mark cs" and "each_at (from_version E L) h cs"
    and "list_all (\<lambda>c. \<not> marks_machine c) cs" and "stored_mark L k h st"
  shows "\<exists>st'. stored_mark L k (h @ cs) st' \<and> (st = ForReplacement \<longrightarrow> st' = ForReplacement)"
  using assms(4-7)
proof (induction cs arbitrary: h st)
  case (Cons c cs)
  then obtain st1 where st1: "stored_mark L k (h @ [c]) st1" "st = ForReplacement \<longrightarrow> st1 = ForReplacement"
    using call_keeps_stored [OF assms(1-3), of c h k st] by auto
  then show ?case using Cons.IH [of "h @ [c]" st1] Cons.prems by auto
qed auto

lemma quiet_calls_keep_stored:
  assumes "alone E L" and "list_all moves_mark cs" and "list_all (\<lambda>c. \<not> patches_machine c) cs"
  shows "stored L (h @ cs) k = stored L h k"
  using assms(2,3)
proof (induction cs arbitrary: h)
  case (Cons c cs)
  then have "\<not> changes k c" by (cases "(k, c)" rule: changes.cases) auto
  with assms(1) have "stored L (h @ [c]) k = stored L h k" unfolding alone_def by blast
  with Cons.IH [of "h @ [c]"] Cons.prems show ?case by simp
qed simp

text \<open>A mark that is accepted is stored, whatever was stored before, if the Machine it was made from had no annotations of one.\<close>

lemma mark_overtakes:
  assumes "alone E L" and "documented_patch E" and "moves_mark (PatchMachine b u False r)" and "from_version E L h (PatchMachine b u False r)"
    and "\<And>a. a \<in> set mark_annotations \<Longrightarrow> m_annotations b a = None" and "MarkedAction u = Some (asked_action d)"
    and "stored_mark L (machine_key b) h st" and "r = Inr m"
  shows "stored_mark L (machine_key b) (h @ [PatchMachine b u False r]) (if d = Restart then ForRestart else ForReplacement)"
proof -
  have b: "b \<in> versions L h" "u = b\<lparr>m_annotations := m_annotations u\<rparr>" "patch_machine E h b u False = Inr m"
    using assms(3,4,8) by auto
  have same: "m_annotations m a = m_annotations u a" if "a \<in> set mark_annotations" "m_annotations u a \<noteq> None" for a
  proof -
    have "m_annotations b a \<noteq> m_annotations u a" using assms(5) [OF that(1)] that(2) by metis
    then show ?thesis using assms(2) b(3) unfolding documented_patch_def by blast
  qed
  have u: "m_annotations u remediate_annotation \<noteq> None" "m_annotations u RemediationActionAnnotation = Some (asked_action d)"
    using assms(6) by (auto simp: MarkedAction_def IsMarkedForRemediation_def split: if_splits)
  have "m_annotations m remediate_annotation = m_annotations u remediate_annotation"
    "m_annotations m RemediationActionAnnotation = m_annotations u RemediationActionAnnotation"
    by (rule same; simp add: mark_annotations_def u)+
  with u have "MarkedAction m = Some (asked_action d)" by (simp add: MarkedAction_def IsMarkedForRemediation_def)
  then have "mark_state m = (if d = Restart then ForRestart else ForReplacement)"
    by (auto simp: mark_state_def asked_action_def MarkedAction_marked ActionRestart_def ActionRemediate_def)
  moreover obtain old where "stored L (h @ [PatchMachine b u False (Inr m)]) (machine_key b) = Some m"
    "stored L h (machine_key b) = Some old" "m_deletion_timestamp m = m_deletion_timestamp old"
    using alone_patch [OF assms(1) b] by metis
  ultimately show ?thesis using assms(7,8) by (auto simp: stored_mark_def deleting_def)
qed

text \<open>One reconcile against that server.\<close>

abbreviation lagging_key :: "string \<times> string" where
  "lagging_key \<equiv> (''ns'', ''m'')"

lemma labelled_machine_plain: "machine_key labelled_machine = lagging_key" "m_annotations labelled_machine a = None" "\<not> deleting labelled_machine"
  by (simp_all add: labelled_machine_def example_machine_def machine_key_def deleting_def)

lemma lagging_accepts:
  assumes "stored_mark lagging_ledger lagging_key h st" and "u = labelled_machine\<lparr>m_annotations := m_annotations u\<rparr>"
  shows "\<exists>m. patch_machine lagging_server h labelled_machine u False = Inr m"
proof -
  have "machine_key u = lagging_key" by (subst assms(2)) (use labelled_machine_plain(1) in \<open>simp add: machine_key_def\<close>)
  with assms(1) show ?thesis
    by (auto simp: stored_mark_def lagging_ledger_def ledger_of_def lagging_server_def holding_machine_def labelled_machine_plain(1))
qed

lemma lagging_reconcile:
  assumes run: "run_state (Reconcile lagging_server plain_kube example_config (''ns'', ''c'')) s = (r, s')"
    and "stored_mark lagging_ledger lagging_key (history s) st"
    and d: "d = (if list_ex patches_machine (history s) then Restart else Replace)"
  shows "\<exists>cs u m ds. history s' = history s @ cs @ PatchMachine labelled_machine u False (Inr m) # ds \<and>
    list_all (\<lambda>c. \<not> patches_machine c) cs \<and> list_all (\<lambda>c. \<not> marks_machine c) ds \<and>
    stored lagging_ledger (history s @ cs) lagging_key = stored lagging_ledger (history s) lagging_key \<and>
    stored_mark lagging_ledger lagging_key (history s @ cs @ [PatchMachine labelled_machine u False (Inr m)])
      (if d = Restart then ForRestart else ForReplacement) \<and>
    (\<exists>st'. stored_mark lagging_ledger lagging_key (history s') st' \<and> (d = Replace \<longrightarrow> st' = ForReplacement))"
proof -
  note world = lagging_optimistic lagging_alone
  obtain cs u q ds where h: "history s' = history s @ cs @ PatchMachine labelled_machine u False q # ds"
    and plain: "list_all (\<lambda>c. \<not> patches_machine c) cs" "list_all (\<lambda>c. \<not> marks_machine c) ds" and asked: "MarkedAction u = Some (asked_action d)"
    using faulty_marks [OF lagging_shown [OF refl], of s d] d run by (auto split: if_splits)
  let ?c = "PatchMachine labelled_machine u False q"
  from tracedD [OF traced_Reconcile [OF world(1)] run] h have from': "each_at (from_version lagging_server lagging_ledger) (history s) (cs @ ?c # ds)"
    by auto
  have "new_calls (Reconcile lagging_server plain_kube example_config (''ns'', ''c'')) s = cs @ ?c # ds" using run h by (simp add: new_calls_def)
  with Reconcile_moves have moves: "list_all moves_mark (cs @ ?c # ds)" by metis
  have quiet: "stored lagging_ledger (history s @ cs) lagging_key = stored lagging_ledger (history s) lagging_key"
    by (rule quiet_calls_keep_stored [OF world(2) _ plain(1)]) (use moves in simp)
  with assms(2) have st': "stored_mark lagging_ledger lagging_key (history s @ cs) st" by (simp add: stored_mark_def)
  have c: "moves_mark ?c" "from_version lagging_server lagging_ledger (history s @ cs) ?c" using moves from' by (auto simp: each_at_append)
  then obtain m where m: "q = Inr m" using lagging_accepts [OF st', of u] by auto
  note marked = mark_overtakes [OF world(2,3) c _ asked _ m, unfolded labelled_machine_plain(1,2), OF refl st']
  obtain st'' where "stored_mark lagging_ledger lagging_key ((history s @ cs @ [?c]) @ ds) st''"
    "(if d = Restart then ForRestart else ForReplacement) = ForReplacement \<longrightarrow> st'' = ForReplacement"
    using calls_keep_stored [OF world _ _ _ marked, of ds] moves from' plain by (auto simp: each_at_append)
  then have "stored_mark lagging_ledger lagging_key (history s') st'' \<and> (d = Replace \<longrightarrow> st'' = ForReplacement)" using h by auto
  with h plain quiet marked show ?thesis unfolding m by (intro exI conjI) (auto simp: m)
qed

definition marking_program :: program where
  "marking_program = \<lparr>pr_cluster = example_config, pr_replace = None, pr_logged = []\<rparr>"

lemma fresh_stored: "stored_mark lagging_ledger lagging_key (history fresh_reconciler) Unmarked"
  by (simp add: stored_mark_def lagging_ledger_def ledger_of_def labelled_machine_plain mark_state_def IsMarkedForRemediation_def)

lemma not_marking_not_outdated: "\<not> marks_machine c \<Longrightarrow> \<not> outdated L h c"
  by (cases "(L, h, c)" rule: outdated.cases) (auto simp: marks_machine_def)

lemma not_patching_not_marking: "\<not> patches_machine c \<Longrightarrow> \<not> marks_machine c"
  by (auto simp: marks_machine_def patches_machine_def)

text \<open>The first of these reconciles reads the Machine as it is.\<close>

theorem program_run_marks_witness:
  "\<exists>s m m'. program_run lagging_server plain_kube marking_program fresh_reconciler s \<and>
     stored lagging_ledger (history s) lagging_key = Some m' \<and> mark_state m' = ForReplacement \<and>
     stored lagging_ledger [] lagging_key = Some m \<and> mark_step\<^sup>*\<^sup>* (mark_state m) (mark_state m')"
proof -
  let ?R = "Reconcile lagging_server plain_kube example_config (''ns'', ''c'')"
  obtain r s where r: "run_state ?R fresh_reconciler = (r, s)" by fastforce
  from lagging_reconcile [OF r fresh_stored refl] obtain cs u m ds where
    h: "history s = cs @ PatchMachine labelled_machine u False (Inr m) # ds"
    and plain: "list_all (\<lambda>c. \<not> patches_machine c) cs" "list_all (\<lambda>c. \<not> marks_machine c) ds"
    and same: "stored lagging_ledger cs lagging_key = stored lagging_ledger [] lagging_key"
    and left: "stored_mark lagging_ledger lagging_key (history s) ForReplacement" by auto
  have start: "stored lagging_ledger [] lagging_key = Some labelled_machine"
    by (simp add: lagging_ledger_def ledger_of_def labelled_machine_plain)
  have "each_at (\<lambda>h c. \<not> outdated lagging_ledger h c) [] cs" "each_at (\<lambda>h c. \<not> outdated lagging_ledger h c) h ds" for h
    using plain not_patching_not_marking not_marking_not_outdated by (auto simp: list_all_iff intro!: each_at_all)
  moreover have "\<not> outdated lagging_ledger cs (PatchMachine labelled_machine u False (Inr m))"
    by (simp add: labelled_machine_plain(1) same start)
  ultimately have timely: "each_at (\<lambda>h c. \<not> outdated lagging_ledger h c) (history fresh_reconciler) (history s)"
    by (simp add: h each_at_append)
  have run: "program_run lagging_server plain_kube marking_program fresh_reconciler s"
    by (rule program_run.continued [OF program_run.started], rule program_step.cluster_reconciled [where r = r and key = "(''ns'', ''c'')"])
      (simp add: marking_program_def r)
  obtain m' where m': "stored lagging_ledger (history s) lagging_key = Some m'" "\<not> deleting m'" "mark_state m' = ForReplacement"
    using left by (auto simp: stored_mark_def)
  from program_run_marks [OF lagging_optimistic lagging_alone run _ timely m'(1,2)] start
  have "mark_step\<^sup>*\<^sup>* (mark_state labelled_machine) (mark_state m')" by simp
  with run m' start show ?thesis by blast
qed

text \<open>C15: A mark made too early takes a replacement back. Marking is the one patch that names no version, so the program itself can break the life
  of a mark: there is a run, against a server that keeps all its promises and that nobody else writes to, in which the lists merely
  lag behind, where the Machine is marked for a replacement, and a later reconcile, which still reads it as it was before, puts a
  restart mark in its place.\<close>

theorem outdated_mark_overtakes:
  "optimistic lagging_server lagging_ledger \<and> alone lagging_server lagging_ledger \<and> documented_patch lagging_server \<and>
   (\<exists>s h u m post. program_run lagging_server plain_kube marking_program fresh_reconciler s \<and>
     history s = h @ PatchMachine labelled_machine u False (Inr m) # post \<and>
     outdated lagging_ledger h (PatchMachine labelled_machine u False (Inr m)) \<and>
     stored_mark lagging_ledger lagging_key h ForReplacement \<and>
     stored_mark lagging_ledger lagging_key (h @ [PatchMachine labelled_machine u False (Inr m)]) ForRestart)"
proof -
  let ?R = "Reconcile lagging_server plain_kube example_config (''ns'', ''c'')"
  obtain r1 s1 where r1: "run_state ?R fresh_reconciler = (r1, s1)" by fastforce
  obtain r2 s2 where r2: "run_state ?R s1 = (r2, s2)" by fastforce
  from lagging_reconcile [OF r1 fresh_stored refl] obtain st1 where st1: "stored_mark lagging_ledger lagging_key (history s1) st1" "st1 = ForReplacement"
    and before: "list_ex patches_machine (history s1)" by auto
  from lagging_reconcile [OF r2 st1(1) refl] before st1(2) obtain cs u m ds where
    h: "history s2 = history s1 @ cs @ PatchMachine labelled_machine u False (Inr m) # ds"
    and same: "stored lagging_ledger (history s1 @ cs) lagging_key = stored lagging_ledger (history s1) lagging_key"
    and now: "stored_mark lagging_ledger lagging_key (history s1 @ cs @ [PatchMachine labelled_machine u False (Inr m)]) ForRestart" by auto
  have was: "stored_mark lagging_ledger lagging_key (history s1 @ cs) ForReplacement" using st1 by (simp add: stored_mark_def same)
  have "outdated lagging_ledger (history s1 @ cs) (PatchMachine labelled_machine u False (Inr m))"
  proof -
    from was obtain old where old: "stored lagging_ledger (history s1 @ cs) lagging_key = Some old" "mark_state old = ForReplacement"
      by (auto simp: stored_mark_def)
    then have "m_annotations old remediate_annotation \<noteq> None" by (auto simp: mark_state_def IsMarkedForRemediation_def split: if_splits)
    with old(1) show ?thesis by (auto simp: labelled_machine_plain mark_annotations_def)
  qed
  moreover have "program_run lagging_server plain_kube marking_program fresh_reconciler s2"
  proof (rule program_run.continued [OF program_run.continued [OF program_run.started]])
    show "program_step lagging_server plain_kube marking_program fresh_reconciler s1"
      by (rule program_step.cluster_reconciled [where r = r1 and key = "(''ns'', ''c'')"]) (simp add: marking_program_def r1)
    show "program_step lagging_server plain_kube marking_program s1 s2"
      by (rule program_step.cluster_reconciled [where r = r2 and key = "(''ns'', ''c'')"]) (simp add: marking_program_def r2)
  qed
  ultimately show ?thesis using lagging_optimistic lagging_alone h was now
    by (intro conjI exI [of _ s2] exI [of _ "history s1 @ cs"] exI [of _ u] exI [of _ m] exI [of _ ds]) simp_all
qed

end
