(* ===== verification/Spec2Isabelle.thy ===== *)
theory Spec2Isabelle
  imports Prelude GoStrings Sha256 Kube Examples Signal Decision Condition Extrr Guard Coverage Actuator Mode Memory Handle Restarts
    Reconcile Remembering Marks Quarantine Rules Locator Replace ReplaceProperties Setup Registration Program
    Traces Server ClusterVersions Versions Frame Runs Settling Acting Lives
begin

text \<open>
  A verification of the NVSentinel remediator for Cluster API, a Go program that runs two controllers. The first reads
  the health signals that NVSentinel leaves in workload clusters, decides what each calls for, and marks the Machine behind
  the node so that Cluster API's MachineHealthChecks restart or replace it; it takes restart marks back and answers
  requests for remediation. The second replaces a Machine at an operator's request, once the devices its VM holds are
  quarantined by DeviceTaintRules.

  \<^bold>\<open>How the program is modelled.\<close> Every function is a definition of the same name (with a word added where the name is taken).
  Pure code is HOL functions. Code that calls the outside is a program of the state monad over a record
  whose field \<open>history\<close> is the list of calls made so far, each with the answer it got; a record of type \<open>env\<close>
  (theory Kube) gives the answers as functions of that history, so that they may change from call to call and may depend on
  earlier writes. Nothing is assumed of the answers unless a property says so, by a named hypothesis
  (\<open>documented_patch\<close>: a locked patch that is accepted returns the Machine with the annotations it was given;
  \<open>optimistic\<close>: versions of a Machine have resource versions of their own, and a write that names one is refused when another is stored;
  \<open>undisturbed\<close>: patches are accepted; \<open>documented_rules\<close>: a rule that was created is there; and so on). Functions of the
  libraries the program calls (readers of nested fields, label selectors, quoting, the paused test, times) are the fields of the
  record \<open>kube\<close>. Theory Examples has an instance of both, which the witnesses use. Errors are values of \<open>go_error\<close>,
  and a Go result with an error is a sum; a Machine that is updated in place is returned. Log lines are calls with their message, without
  their key-value pairs. Go maps are association lists without repeated keys, or maps where the order cannot matter; strings are lists of bytes.

  \<^bold>\<open>Theories and source files.\<close>
  \<^item> Prelude: the monad, the rules for the calls a program makes (\<open>emits\<close>), what it returns (\<open>yields\<close>), both together
    (\<open>emits_when\<close>, \<open>does\<close>), Hoare triples (\<open>holds\<close>), lists. GoStrings: the functions of Go's \<open>strings\<close>. Sha256: SHA-256 as FIPS 180-4 gives it and the hex
    encoding of Go's standard library. Kube: the objects, the calls, \<open>env\<close> and \<open>kube\<close>.
  \<^item> Signal (\<open>internal/signal/signal.go\<close>): the signal record, and the interface of a source as the locale
    \<open>signal_source\<close>, interpreted for both sources. Decision (\<open>internal/decision/decision.go\<close>): the table, its overrides, \<open>Decide\<close>.
  \<^item> Condition (\<open>internal/signal/condition\<close>): parsing the messages of node conditions, and the source over nodes. Extrr
    (\<open>internal/signal/extrr\<close>): ExternalRemediationRequests, the source over them, and answering one.
  \<^item> Guard, Coverage, Actuator (\<open>internal/capi\<close>): which Machines are left alone, what marking does under the checks that select the
    Machine, and marking, releasing and escalating.
  \<^item> Mode (\<open>internal/controller/mode.go\<close>): where signals are read from. Memory, Handle, Restarts, Reconcile
    (\<open>internal/controller/cluster_controller.go\<close>): what is remembered, one signal, releases and answers, and a whole reconcile.
    Marks: that its writes of Machines are steps in the life of a mark. Acting: that a whole reconcile marks the Machine behind a fault. Remembering: that the memory keeps its form and Clusters do not disturb each other, by a locale of relations every call respects.
  \<^item> Quarantine, Rules, Locator (\<open>internal/quarantine\<close>): requests and devices, the rules, and the devices of a VM, with the
    interface of a locator as the locale \<open>device_locator\<close>. Replace, ReplaceProperties (\<open>internal/controller/quarantine_controller.go\<close>): carrying out
    a request, and what holds of it.
  \<^item> Setup, Program (\<open>cmd/manager/main.go\<close>): from the flags to the configuration of both controllers, and the whole of \<open>main\<close>, as calls of
    its own kind (\<open>setup_call\<close>) answered by a record \<open>setup_env\<close>. Registration (\<open>SetupWithManager\<close> of both controllers, \<open>clusterToRequest\<close>):
    which events become which reconciles.
  \<^item> Traces, Server, ClusterVersions, Versions: the rules \<open>traced\<close> for what holds of each call at the history it is made at; what the
    code relies on of the API server when others write the same Machines (\<open>optimistic\<close>), with an example server that meets it; and both
    controllers against it. Frame: that the second controller touches nothing of the first one's memory. Runs: the started program as a step relation,
    reconciles of both controllers one after another in any order, and its invariants by rule induction. Settling: a measure of what a request
    still allows, over such runs. Lives: the mark that is stored, over such runs, and the one that a server whose lists lag behind lets slip.

  \<^bold>\<open>What is shown.\<close>
  \<^item> Of the first controller: which writes a reconcile may make at all; when a Machine is marked, and that a whole reconcile marks it when it should be;
    exactly which restart marks are released, whatever the order the observations come in; when a request is answered True or False, and that the release of its Machine
    comes only after; that every patch is a step in the life of a mark, so that replacement marks stay; that waits and retries are bounded; that a lasting fault records no Event but of a mark that is made; that a
    reconcile is followed by another in time, unless its Cluster is gone or not selected; that what is remembered keeps its form and apart. Two properties show
    flaws: a restart mark that cannot be escalated is taken away in the same pass, and a mark made from a Machine that was read too early overwrites the one that is stored.
  \<^item> Of the second: an abstract life of a request (\<open>request_state\<close>, \<open>replace_step\<close>), and that every sequence of calls of a reconcile
    is a run of it (\<open>machine_run\<close>), which bounds the writes; that a Machine is deleted only after each device was seen to be
    quarantined, all guards passed and never in a dry run; that a clear request is carried out when the calls are accepted; that conflicts are
    retried, guards told, and settled requests left alone; that the devices found are those allocated to the running VM, and
    the devices selected those asked for; that a rule says what it was made for and is made once.
  \<^item> Of the parts: that the parsers read back what is written, the exact meaning of the decisions, the coverage and the mode.
  \<^item> Of the whole: that \<open>main\<close> starts the manager with what the flags say, after every step of the setup, or gives up, and does nothing after it stopped;
    that in every run of the started program a dry run writes nothing, deletions and locked patches meet the very Machine they were computed from, whatever others
    write meanwhile, what is remembered keeps its form, the stored mark lives as it should when none is made from an outdated Machine, and every request comes to rest; what is still done about an unselected Cluster, which is to forget it and to tidy up after withdrawn requests; and that neither controller writes what the other writes, nor changes by a patch what the other goes by.

  \<^bold>\<open>Bounds and fuel.\<close> Loops over slices are recursion on the list. The only counter is that of \<open>RetryOnConflict\<close>, \<open>retry_steps\<close> runs as
  client-go documents it, a parameter; no property depends on its value. Loops over regular expressions
  are scanners that consume their input. Times are integers of nanoseconds and the clock is an answer of \<open>env\<close> that need not even advance.

  \<^bold>\<open>Not modelled.\<close> The inside of the manager, its caches, watches and leader election, which are controller-runtime's: what they admit, and
  whether a step of the setup succeeds, are parameters. A reconcile is taken to run alone on its memory, as the code's mutex and its limit of one
  concurrent reconcile make it. The program runs both controllers at the same time. For what is shown of one reconcile, whatever the other
  controller and everybody else do between two of its calls is covered by the answers of \<open>env\<close>, which may depend on anything; and so it is for the runs of theory Runs
  under \<open>optimistic\<close>, which allows writes of others at any moment. The runs themselves put whole reconciles one after another, and where a property assumes \<open>alone\<close>
  (Settling and Lives: nobody else writes a Machine) it covers the reconciles of both controllers in any order, each ending before the next begins, and not calls of two
  reconciles in between each other.
  Parsing the command line, the logger, the schemes, overflow of times and Kubernetes' own validation of objects are left out, and so is what the texts of errors of
  libraries say. Manifests, the Helm chart, scripts and tests have no behaviour of the program's own.
\<close>

section \<open>The two controllers together\<close>










end
